(* ===== verification/Prelude.thy ===== *)
theory Prelude imports Main "HOL-Library.Word" begin

text \<open>
  What every component of the development shares: the collections its simplification rules
  are declared into, the type names of the machine integers and byte strings, and generic
  facts about lists, options and maps that no component owns.
\<close>

named_theorems gostd "equations of the modelled Go standard library functions"
named_theorems wire "length and take/drop rules of the byte encoders and decoders"
named_theorems absrel "how an abstraction function commutes with the operations"

type_synonym u8 = "8 word"
type_synonym u16 = "16 word"
type_synonym u32 = "32 word"
type_synonym u64 = "64 word"
type_synonym bytes = "8 word list"

subsection \<open>Options\<close>

text \<open>The first alternative that yields a value.\<close>

fun first_some :: "'a option \<Rightarrow> 'a option \<Rightarrow> 'a option" where
  "first_some (Some x) _ = Some x"
| "first_some None y = y"

lemma first_some_None [simp]: "first_some x None = x"
  by (cases x) auto

lemma first_some_eq_None [simp]: "first_some x y = None \<longleftrightarrow> x = None \<and> y = None"
  by (cases x) auto

lemma first_some_assoc: "first_some (first_some x y) z = first_some x (first_some y z)"
  by (cases x) auto

lemma first_some_eq_Some:
  "first_some x y = Some v \<longleftrightarrow> x = Some v \<or> (x = None \<and> y = Some v)"
  by (cases x) auto

subsection \<open>Lists\<close>

lemma drop_eq_Cons_nth: "i < length xs \<Longrightarrow> drop i xs = xs ! i # drop (Suc i) xs"
  by (simp add: Cons_nth_drop_Suc)

lemma take_Suc_snoc: "i < length xs \<Longrightarrow> take (Suc i) xs = take i xs @ [xs ! i]"
  by (simp add: take_Suc_conv_app_nth)

subsection \<open>Words at the top of their range\<close>

lemma unat_bound: "unat (w :: 'a::len word) < 2 ^ LENGTH('a)"
  by (rule unsigned_less)

lemma unat_plus_one: "(e :: 'a::len word) < e + 1 \<Longrightarrow> unat (e + 1) = unat e + 1"
  using unat_bound[of e] by (auto simp: word_less_nat_alt unat_plus_if' split: if_splits)

lemma less_plus_one: "(e :: 'a::len word) < e + 1 \<Longrightarrow> t < e + 1 \<longleftrightarrow> t \<le> e"
  using unat_plus_one[of e] by (simp add: word_less_nat_alt word_le_nat_alt less_Suc_eq_le)

lemma max_if_no_plus_one:
  assumes "\<not> (e :: 'a::len word) < e + 1" shows "t \<le> e"
proof -
  have "2 ^ LENGTH('a) \<le> Suc (unat e)"
    using assms by (rule contrapos_np) (simp add: word_less_nat_alt unat_plus_if' not_le)
  with unat_bound[of t] have "unat t \<le> unat e" by linarith
  then show ?thesis by (simp add: word_le_nat_alt)
qed

lemma plus_one_cases: "(e :: 'a::len word) < e + 1 \<or> (e \<noteq> 0 \<and> e + 1 = 0)"
proof (cases "e < e + 1")
  case False
  then have e: "t \<le> e" for t by (rule max_if_no_plus_one)
  have "e = - 1" by (rule word_order.extremum_uniqueI) (rule e)
  then show ?thesis by simp
qed simp

end
