(* ===== verification/GoStd.thy ===== *)
theory GoStd imports Prelude begin

text \<open>
  The functions of Go's standard library that the modelled code calls: package strings on byte
  strings (a \<open>char\<close> is one byte; case mapping and white space are those of ASCII, the alphabet
  of host names, rule keywords and numbers), and the decimal conversions of package strconv.
\<close>

section \<open>Package strings\<close>

definition byte_val :: "char \<Rightarrow> nat" where
  "byte_val c = of_char c"

definition to_lower_char :: "char \<Rightarrow> char" where
  "to_lower_char c = (if 65 \<le> byte_val c \<and> byte_val c \<le> 90 then char_of (byte_val c + 32) else c)"

definition to_upper_char :: "char \<Rightarrow> char" where
  "to_upper_char c = (if 97 \<le> byte_val c \<and> byte_val c \<le> 122 then char_of (byte_val c - 32) else c)"

definition ToLower :: "string \<Rightarrow> string" where
  "ToLower s = map to_lower_char s"

definition ToUpper :: "string \<Rightarrow> string" where
  "ToUpper s = map to_upper_char s"

definition EqualFold :: "string \<Rightarrow> string \<Rightarrow> bool" where
  "EqualFold s t \<longleftrightarrow> ToLower s = ToLower t"

definition is_space :: "char \<Rightarrow> bool" where
  "is_space c \<longleftrightarrow> byte_val c \<in> {9, 10, 11, 12, 13, 32}"

definition trim_by :: "(char \<Rightarrow> bool) \<Rightarrow> string \<Rightarrow> string" where
  "trim_by f s = rev (dropWhile f (rev (dropWhile f s)))"

definition TrimSpace :: "string \<Rightarrow> string" where
  "TrimSpace s = trim_by is_space s"

definition Trim :: "string \<Rightarrow> string \<Rightarrow> string" where
  "Trim s cutset = trim_by (\<lambda>c. c \<in> set cutset) s"

definition TrimRight :: "string \<Rightarrow> string \<Rightarrow> string" where
  "TrimRight s cutset = rev (dropWhile (\<lambda>c. c \<in> set cutset) (rev s))"

text \<open>\<open>Split\<close> with a one-byte separator: never empty, one more part than separators.\<close>

fun Split :: "string \<Rightarrow> char \<Rightarrow> string list" where
  "Split [] sep = [[]]"
| "Split (c # cs) sep =
     (if c = sep then [] # Split cs sep
      else case Split cs sep of [] \<Rightarrow> [[c]] | p # ps \<Rightarrow> (c # p) # ps)"

fun Join :: "string list \<Rightarrow> string \<Rightarrow> string" where
  "Join [] sep = []"
| "Join [p] sep = p"
| "Join (p # q # ps) sep = p @ sep @ Join (q # ps) sep"

definition ReplaceAll_char :: "string \<Rightarrow> char \<Rightarrow> char \<Rightarrow> string" where
  "ReplaceAll_char s old new = map (\<lambda>c. if c = old then new else c) s"

fun HasPrefix :: "string \<Rightarrow> string \<Rightarrow> bool" where
  "HasPrefix s [] = True"
| "HasPrefix [] (p # ps) = False"
| "HasPrefix (c # s) (p # ps) = (c = p \<and> HasPrefix s ps)"

definition HasSuffix :: "string \<Rightarrow> string \<Rightarrow> bool" where
  "HasSuffix s suffix = HasPrefix (rev s) (rev suffix)"

fun Contains :: "string \<Rightarrow> string \<Rightarrow> bool" where
  "Contains [] sub = (sub = [])"
| "Contains (c # s) sub = (HasPrefix (c # s) sub \<or> Contains s sub)"

lemma HasPrefix_iff: "HasPrefix s p \<longleftrightarrow> (\<exists>t. s = p @ t)"
  by (induction s p rule: HasPrefix.induct) auto

lemma HasSuffix_iff: "HasSuffix s p \<longleftrightarrow> (\<exists>t. s = t @ p)"
  unfolding HasSuffix_def HasPrefix_iff by (metis rev_append rev_rev_ident)

lemma Contains_iff: "Contains s sub \<longleftrightarrow> (\<exists>a b. s = a @ sub @ b)"
proof (induction s)
  case (Cons c s)
  then show ?case by (auto simp: HasPrefix_iff) (metis Cons_eq_append_conv append_eq_Cons_conv)+
qed simp

lemma Split_not_Nil [simp]: "Split s sep \<noteq> []"
  by (induction s) (auto split: list.splits)

lemma Split_no_sep: "p \<in> set (Split s sep) \<Longrightarrow> sep \<notin> set p"
  by (induction s arbitrary: p) (auto split: list.splits if_splits)

lemma Split_id: "sep \<notin> set s \<Longrightarrow> Split s sep = [s]"
  by (induction s) auto

lemma Split_append_sep: "sep \<notin> set p \<Longrightarrow> Split (p @ sep # s) sep = p # Split s sep"
  by (induction p) auto

lemma Join_Split: "Join (Split s sep) [sep] = s"
proof (induction s)
  case (Cons c s)
  then show ?case by (cases "Split s sep" rule: list.exhaust) (auto split: list.splits,
      (metis Join.simps(2,3) append_Cons list.exhaust)+)
qed simp

lemma Split_Join:
  assumes "ps \<noteq> []" and "\<And>p. p \<in> set ps \<Longrightarrow> sep \<notin> set p"
  shows "Split (Join ps [sep]) sep = ps"
  using assms
proof (induction ps "[sep]" rule: Join.induct)
  case (3 p q ps)
  then show ?case by (simp add: Split_append_sep)
qed (auto simp: Split_id)

lemma set_Join: "set (Join ps sep) \<subseteq> \<Union> (set ` set ps) \<union> set sep"
  by (induction ps sep rule: Join.induct) auto

lemma trim_by_id:
  "s = [] \<or> (\<not> f (hd s) \<and> \<not> f (last s)) \<Longrightarrow> trim_by f s = s"
proof -
  assume *: "s = [] \<or> (\<not> f (hd s) \<and> \<not> f (last s))"
  have "dropWhile f s = s" using * by (cases s) auto
  moreover have "dropWhile f (rev s) = rev s" using * by (cases s rule: rev_cases) auto
  ultimately show ?thesis by (simp add: trim_by_def)
qed

lemma set_trim_by: "set (trim_by f s) \<subseteq> set s"
  using set_dropWhileD[of _ f "rev (dropWhile f s)"] set_dropWhileD[of _ f s]
  by (auto simp: trim_by_def)

section \<open>Package strconv\<close>

definition digit_val :: "char \<Rightarrow> nat option" where
  "digit_val c = (if 48 \<le> byte_val c \<and> byte_val c \<le> 57 then Some (byte_val c - 48) else None)"

fun digits_val :: "nat \<Rightarrow> string \<Rightarrow> nat option" where
  "digits_val acc [] = Some acc"
| "digits_val acc (c # cs) =
     (case digit_val c of None \<Rightarrow> None | Some d \<Rightarrow> digits_val (10 * acc + d) cs)"

text \<open>\<open>ParseUint(s, 10, bits)\<close>: decimal digits only, and the value fits in \<open>bits\<close> bits.\<close>

definition ParseUint :: "nat \<Rightarrow> string \<Rightarrow> nat option" where
  "ParseUint bits s =
     (if s = [] then None
      else case digits_val 0 s of
        None \<Rightarrow> None
      | Some v \<Rightarrow> if v < 2 ^ bits then Some v else None)"

definition digit_char :: "nat \<Rightarrow> char" where
  "digit_char d = char_of (d + 48)"

fun Itoa :: "nat \<Rightarrow> string" where
  "Itoa n = (if n < 10 then [digit_char n] else Itoa (n div 10) @ [digit_char (n mod 10)])"

declare Itoa.simps [simp del]

lemma byte_val_digit_char: "d < 10 \<Longrightarrow> byte_val (digit_char d) = d + 48"
  by (simp add: byte_val_def digit_char_def of_char_of)

lemma digit_val_digit_char [simp]: "d < 10 \<Longrightarrow> digit_val (digit_char d) = Some d"
  by (simp add: digit_val_def byte_val_digit_char)

lemma digits_val_append:
  "digits_val a (s @ t) = (case digits_val a s of None \<Rightarrow> None | Some b \<Rightarrow> digits_val b t)"
  by (induction s arbitrary: a) (auto split: option.splits)

lemma digits_val_Itoa: "digits_val 0 (Itoa n) = Some n"
proof (induction n rule: Itoa.induct)
  case (1 n)
  show ?case
  proof (cases "n < 10")
    case True
    then show ?thesis by (subst Itoa.simps) simp
  next
    case False
    with 1 show ?thesis by (subst Itoa.simps) (simp add: digits_val_append)
  qed
qed

lemma Itoa_not_Nil [simp]: "Itoa n \<noteq> []"
  by (subst Itoa.simps) simp

lemma ParseUint_Itoa: "n < 2 ^ bits \<Longrightarrow> ParseUint bits (Itoa n) = Some n"
  by (simp add: ParseUint_def digits_val_Itoa)

lemma Itoa_digits: "c \<in> set (Itoa n) \<Longrightarrow> \<exists>d < 10. c = digit_char d"
proof (induction n arbitrary: c rule: Itoa.induct)
  case (1 n)
  show ?case
  proof (cases "n < 10")
    case True
    with "1.prems" show ?thesis by (subst (asm) Itoa.simps) auto
  next
    case False
    with "1.prems" have "c \<in> set (Itoa (n div 10)) \<or> c = digit_char (n mod 10)"
      by (subst (asm) Itoa.simps) auto
    moreover have "n mod 10 < 10" by simp
    ultimately show ?thesis using False "1.IH" by blast
  qed
qed

lemma digit_char_neq:
  assumes "d < 10" and "byte_val c < 48 \<or> 57 < byte_val c"
  shows "digit_char d \<noteq> c"
  using assms byte_val_digit_char[of d] by auto

lemma Itoa_notin: "byte_val c < 48 \<or> 57 < byte_val c \<Longrightarrow> c \<notin> set (Itoa n)"
  using Itoa_digits digit_char_neq by metis

end
