(* ===== verification/Bytes.thy ===== *)
theory Bytes imports Prelude begin

text \<open>
  Byte strings as Go's encoding/binary and io packages see them: big- and little-endian numbers
  of a fixed number of bytes, and reads that hand back the rest of the input. The wire formats
  (SOCKS, the control socket, addresses) are built from these.
\<close>

subsection \<open>Big-endian numbers\<close>

fun nat_be :: "nat \<Rightarrow> nat \<Rightarrow> bytes" where
  "nat_be 0 k = []"
| "nat_be (Suc n) k = nat_be n (k div 256) @ [word_of_nat k]"

definition be_nat :: "bytes \<Rightarrow> nat" where
  "be_nat bs = foldl (\<lambda>a b. a * 256 + unat b) 0 bs"

lemma length_nat_be [simp, wire]: "length (nat_be n k) = n"
  by (induction n arbitrary: k) auto

lemma be_nat_simps [simp]: "be_nat [] = 0" "be_nat (bs @ [b]) = be_nat bs * 256 + unat b"
  by (simp_all add: be_nat_def)

lemma unat_byte: "unat (word_of_nat k :: u8) = k mod 256"
  by (simp add: unat_of_nat)

lemma be_nat_nat_be [wire]: "be_nat (nat_be n k) = k mod 256 ^ n"
proof (induction n arbitrary: k)
  case (Suc n)
  have "k div 256 mod 256 ^ n * 256 + k mod 256 = k mod 256 ^ Suc n"
    by (simp add: mod_mult2_eq mult.commute)
  with Suc show ?case by (simp add: unat_byte)
qed simp

lemma be_nat_less: "be_nat bs < 256 ^ length bs"
proof (induction bs rule: rev_induct)
  case (snoc b bs)
  have "unat b < 256" using unat_bound[of b] by simp
  with snoc show ?case by (simp add: mult.commute)
qed simp

lemma nat_be_be_nat: "nat_be (length bs) (be_nat bs) = bs"
proof (induction bs rule: rev_induct)
  case (snoc b bs)
  have b: "unat b < 256" using unat_bound[of b] by simp
  have "(be_nat bs * 256 + unat b) div 256 = be_nat bs" using b by simp
  moreover have "word_of_nat (be_nat bs * 256 + unat b) = b"
  proof -
    have z: "(256 :: u8) = 0" by simp
    show ?thesis unfolding of_nat_add of_nat_mult of_nat_numeral z by simp
  qed
  ultimately show ?case using snoc by simp
qed simp

text \<open>\<open>binary.BigEndian.PutUint16\<close> and its kin, by width of the word.\<close>

definition put_be :: "'a::len word \<Rightarrow> bytes" where
  "put_be w = nat_be (LENGTH('a) div 8) (unat w)"

definition get_be :: "bytes \<Rightarrow> 'a::len word" where
  "get_be bs = word_of_nat (be_nat bs)"

lemma length_put_be [simp, wire]: "length (put_be (w :: 'a::len word)) = LENGTH('a) div 8"
  by (simp add: put_be_def)

lemma get_put_be: "8 dvd LENGTH('a) \<Longrightarrow> get_be (put_be w) = (w :: 'a::len word)"
proof -
  assume "8 dvd LENGTH('a)"
  then have "(2 :: nat) ^ LENGTH('a) = (2 ^ 8) ^ (LENGTH('a) div 8)"
    by (simp only: power_mult[symmetric]) simp
  then have "unat w mod 256 ^ (LENGTH('a) div 8) = unat w" using unat_bound[of w] by simp
  then show ?thesis by (simp add: get_be_def put_be_def be_nat_nat_be)
qed

end
