(* ===== verification/NetIP.thy ===== *)
theory NetIP imports GoStd Bytes begin

unbundle bit_operations_syntax

text \<open>
  The parts of Go's net and net/netip that the modelled code uses: IP addresses with the
  distinction between IPv4, IPv6 and no address, their text forms, prefixes, and the splitting of
  host:port strings. These follow the documented behaviour of the standard library.
\<close>

section \<open>netip.Addr\<close>

text \<open>The zero \<open>Addr\<close> is \<open>NoAddr\<close>; an IPv6 address carries its zone (empty when it has none).\<close>

datatype addr = NoAddr | V4 u32 | V6 "128 word" string

definition IsValid :: "addr \<Rightarrow> bool" where
  "IsValid a \<longleftrightarrow> a \<noteq> NoAddr"

fun Is4 :: "addr \<Rightarrow> bool" where
  "Is4 (V4 w) = True"
| "Is4 _ = False"

fun Is6 :: "addr \<Rightarrow> bool" where
  "Is6 (V6 w z) = True"
| "Is6 _ = False"

definition v4_in_v6 :: "128 word \<Rightarrow> bool" where
  "v4_in_v6 w \<longleftrightarrow> drop_bit 32 w = 0xffff"

fun Is4In6 :: "addr \<Rightarrow> bool" where
  "Is4In6 (V6 w z) = v4_in_v6 w"
| "Is4In6 _ = False"

fun Unmap :: "addr \<Rightarrow> addr" where
  "Unmap (V6 w z) = (if v4_in_v6 w then V4 (ucast w) else V6 w z)"
| "Unmap a = a"

fun WithZone :: "addr \<Rightarrow> string \<Rightarrow> addr" where
  "WithZone (V6 w z) z' = V6 w z'"
| "WithZone a _ = a"

fun Zone :: "addr \<Rightarrow> string" where
  "Zone (V6 w z) = z"
| "Zone _ = ''''"

fun AsSlice :: "addr \<Rightarrow> bytes" where
  "AsSlice NoAddr = []"
| "AsSlice (V4 w) = put_be w"
| "AsSlice (V6 w z) = put_be w"

fun AddrFromSlice :: "bytes \<Rightarrow> addr" where
  "AddrFromSlice bs =
     (if length bs = 4 then V4 (get_be bs)
      else if length bs = 16 then V6 (get_be bs) '''' else NoAddr)"

fun As16 :: "addr \<Rightarrow> 128 word" where
  "As16 NoAddr = 0"
| "As16 (V4 w) = push_bit 32 0xffff OR ucast w"
| "As16 (V6 w z) = w"

fun BitLen :: "addr \<Rightarrow> nat" where
  "BitLen NoAddr = 0"
| "BitLen (V4 w) = 32"
| "BitLen (V6 w z) = 128"

fun addr_Next :: "addr \<Rightarrow> addr" where
  "addr_Next NoAddr = NoAddr"
| "addr_Next (V4 w) = (if w + 1 = 0 then NoAddr else V4 (w + 1))"
| "addr_Next (V6 w z) = (if w + 1 = 0 then NoAddr else V6 (w + 1) z)"

fun addr_Prev :: "addr \<Rightarrow> addr" where
  "addr_Prev NoAddr = NoAddr"
| "addr_Prev (V4 w) = (if w = 0 then NoAddr else V4 (w - 1))"
| "addr_Prev (V6 w z) = (if w = 0 then NoAddr else V6 (w - 1) z)"

text \<open>\<open>Compare\<close>: by family (none, 4, 6), then by value, then by zone.\<close>

fun addr_key :: "addr \<Rightarrow> nat \<times> nat" where
  "addr_key a = (BitLen a, (case a of NoAddr \<Rightarrow> 0 | V4 w \<Rightarrow> unat w | V6 w z \<Rightarrow> unat w))"

fun string_less :: "string \<Rightarrow> string \<Rightarrow> bool" where
  "string_less [] [] = False"
| "string_less [] (y # ys) = True"
| "string_less (x # xs) [] = False"
| "string_less (x # xs) (y # ys) = (byte_val x < byte_val y \<or> (x = y \<and> string_less xs ys))"

definition addr_Less :: "addr \<Rightarrow> addr \<Rightarrow> bool" where
  "addr_Less a b \<longleftrightarrow>
     fst (addr_key a) < fst (addr_key b) \<or>
     (fst (addr_key a) = fst (addr_key b) \<and>
       (snd (addr_key a) < snd (addr_key b) \<or>
        (snd (addr_key a) = snd (addr_key b) \<and> string_less (Zone a) (Zone b))))"

lemma length_AsSlice: "length (AsSlice a) = BitLen a div 8"
  by (cases a) auto

lemma AddrFromSlice_AsSlice: "Zone a = '''' \<Longrightarrow> AddrFromSlice (AsSlice a) = a"
  by (cases a) (simp_all add: get_put_be)

lemma not_v4_in_v6_zone: "Unmap (Unmap a) = Unmap a"
  by (cases a) auto

section \<open>Parsing addresses\<close>

definition parseIPv4Field :: "string \<Rightarrow> nat option" where
  "parseIPv4Field s =
     (if s = '''' then None
      else if length s > 1 \<and> hd s = CHR ''0'' then None
      else case digits_val 0 s of None \<Rightarrow> None | Some v \<Rightarrow> if v > 255 then None else Some v)"

fun all_some :: "'a option list \<Rightarrow> 'a list option" where
  "all_some [] = Some []"
| "all_some (None # xs) = None"
| "all_some (Some x # xs) = map_option (Cons x) (all_some xs)"

definition parseIPv4Fields :: "string \<Rightarrow> bytes option" where
  "parseIPv4Fields s =
     (let fs = Split s CHR ''.'' in
      if length fs \<noteq> 4 then None
      else map_option (map word_of_nat) (all_some (map parseIPv4Field fs)))"

definition hex_val :: "char \<Rightarrow> nat option" where
  "hex_val c =
     (let n = byte_val c in
      if 48 \<le> n \<and> n \<le> 57 then Some (n - 48)
      else if 97 \<le> n \<and> n \<le> 102 then Some (n - 87)
      else if 65 \<le> n \<and> n \<le> 70 then Some (n - 55) else None)"

text \<open>The leading hex digits: their value, how many, and the rest.\<close>

fun hex_run :: "nat \<Rightarrow> nat \<Rightarrow> string \<Rightarrow> nat \<times> nat \<times> string" where
  "hex_run acc n [] = (acc, n, [])"
| "hex_run acc n (c # cs) =
     (case hex_val c of Some d \<Rightarrow> hex_run (acc * 16 + d) (n + 1) cs | None \<Rightarrow> (acc, n, c # cs))"

lemma hex_run_length: "hex_run acc n s = (a, k, r) \<Longrightarrow> k + length r = n + length s"
  by (induction s arbitrary: acc n) (auto split: option.splits)

text \<open>
  The field loop of \<open>parseIPv6\<close>: \<open>ip\<close> are the bytes read so far, \<open>e\<close> the position of the
  double colon. The result is the bytes, the position and the unread rest.
\<close>

function v6_loop :: "bytes \<Rightarrow> nat option \<Rightarrow> string \<Rightarrow> (bytes \<times> nat option \<times> string) option" where
  "v6_loop ip e s =
     (if length ip \<ge> 16 then Some (ip, e, s)
      else case hex_run 0 0 s of (acc, off, r) \<Rightarrow>
        if off = 0 \<or> off > 4 then None
        else if r \<noteq> [] \<and> hd r = CHR ''.'' then
          (if e = None \<and> length ip \<noteq> 12 then None
           else if length ip + 4 > 16 then None
           else case parseIPv4Fields s of
             None \<Rightarrow> None
           | Some q \<Rightarrow> Some (ip @ q, e, []))
        else
          let ip' = ip @ nat_be 2 acc in
          if r = [] then Some (ip', e, [])
          else if hd r \<noteq> CHR '':'' then None
          else if length r = 1 then None
          else
            let r' = tl r in
            if hd r' = CHR '':'' then
              (if e \<noteq> None then None
               else if tl r' = [] then Some (ip', Some (length ip'), [])
               else v6_loop ip' (Some (length ip')) (tl r'))
            else v6_loop ip' e r')"
  by pat_completeness auto
termination
  by (relation "measure (\<lambda>(ip, e, s). 16 - length ip)") auto

definition parseIPv6 :: "string \<Rightarrow> addr option" where
  "parseIPv6 input =
     (let zoned = CHR ''%'' \<in> set input;
          s = takeWhile (\<lambda>c. c \<noteq> CHR ''%'') input;
          zone = drop (length s + 1) input in
      if zoned \<and> zone = '''' then None
      else
        let lead = (length s \<ge> 2 \<and> take 2 s = ''::'') in
        if lead \<and> length s = 2 then Some (V6 0 zone)
        else case v6_loop [] (if lead then Some 0 else None) (if lead then drop 2 s else s) of
          None \<Rightarrow> None
        | Some (ip, e, r) \<Rightarrow>
            if r \<noteq> [] then None
            else if length ip < 16 then
              (case e of
                 None \<Rightarrow> None
               | Some k \<Rightarrow> Some (V6 (get_be (take k ip @ replicate (16 - length ip) 0 @ drop k ip)) zone))
            else if e \<noteq> None then None
            else Some (V6 (get_be ip) zone))"

text \<open>The first separator decides the family.\<close>

definition ParseAddr :: "string \<Rightarrow> addr option" where
  "ParseAddr s =
     (case find (\<lambda>c. c = CHR ''.'' \<or> c = CHR '':'' \<or> c = CHR ''%'') s of
        None \<Rightarrow> None
      | Some c \<Rightarrow>
          if c = CHR ''.'' then map_option (\<lambda>bs. V4 (get_be bs)) (parseIPv4Fields s)
          else if c = CHR '':'' then parseIPv6 s
          else None)"

text \<open>\<open>net.ParseIP\<close> reads an address without a zone, and IPv4 in both of its forms.\<close>

definition ParseIP :: "string \<Rightarrow> addr option" where
  "ParseIP s =
     (case ParseAddr s of None \<Rightarrow> None | Some a \<Rightarrow> if Zone a = '''' then Some (Unmap a) else None)"

section \<open>Printing addresses\<close>

definition hex_char :: "nat \<Rightarrow> char" where
  "hex_char d = (if d < 10 then char_of (d + 48) else char_of (d + 87))"

fun hex_string :: "nat \<Rightarrow> string" where
  "hex_string n = (if n < 16 then [hex_char n] else hex_string (n div 16) @ [hex_char (n mod 16)])"

declare hex_string.simps [simp del]

definition v4_string :: "u32 \<Rightarrow> string" where
  "v4_string w = Join (map (\<lambda>b. Itoa (unat b)) (put_be w)) ''.''"

definition v6_fields :: "128 word \<Rightarrow> nat list" where
  "v6_fields w = map (\<lambda>i. be_nat (take 2 (drop (2 * i) (put_be w)))) [0..<8]"

fun zero_run :: "nat list \<Rightarrow> nat" where
  "zero_run [] = 0"
| "zero_run (f # fs) = (if f = 0 then Suc (zero_run fs) else 0)"

text \<open>The first longest run of at least two zero fields, as (start, length).\<close>

fun best_run :: "nat \<Rightarrow> nat list \<Rightarrow> nat \<times> nat \<Rightarrow> nat \<times> nat" where
  "best_run i [] b = b"
| "best_run i (f # fs) b =
     (let l = zero_run (f # fs) in best_run (i + 1) fs (if l > snd b then (i, l) else b))"

definition v6_body :: "128 word \<Rightarrow> string" where
  "v6_body w =
     (let fs = v6_fields w; (k, l) = best_run 0 fs (0, 1) in
      if l < 2 then Join (map hex_string fs) '':''
      else Join (map hex_string (take k fs)) '':'' @ ''::'' @ Join (map hex_string (drop (k + l) fs)) '':'')"

fun addr_String :: "addr \<Rightarrow> string" where
  "addr_String NoAddr = ''invalid IP''"
| "addr_String (V4 w) = v4_string w"
| "addr_String (V6 w z) =
     (if v4_in_v6 w then ''::ffff:'' @ v4_string (ucast w) else v6_body w) @
     (if z = '''' then '''' else ''%'' @ z)"

section \<open>netip.Prefix\<close>

datatype prefix = Prefix (pfx_addr: addr) (pfx_bits: nat)

definition pfx_IsValid :: "prefix \<Rightarrow> bool" where
  "pfx_IsValid p \<longleftrightarrow> IsValid (pfx_addr p) \<and> pfx_bits p \<le> BitLen (pfx_addr p)"

fun pfx_Contains :: "prefix \<Rightarrow> addr \<Rightarrow> bool" where
  "pfx_Contains (Prefix (V4 p) bits) (V4 w) =
     (bits \<le> 32 \<and> drop_bit (32 - bits) (w XOR p) = 0)"
| "pfx_Contains (Prefix (V6 p pz) bits) (V6 w z) =
     (bits \<le> 128 \<and> z = '''' \<and> drop_bit (128 - bits) (w XOR p) = 0)"
| "pfx_Contains _ _ = False"

fun pfx_Masked :: "prefix \<Rightarrow> prefix" where
  "pfx_Masked (Prefix (V4 p) bits) =
     (if bits \<le> 32 then Prefix (V4 (push_bit (32 - bits) (drop_bit (32 - bits) p))) bits else Prefix NoAddr 0)"
| "pfx_Masked (Prefix (V6 p pz) bits) =
     (if bits \<le> 128 then Prefix (V6 (push_bit (128 - bits) (drop_bit (128 - bits) p)) []) bits else Prefix NoAddr 0)"
| "pfx_Masked (Prefix NoAddr bits) = Prefix NoAddr 0"

definition ParsePrefix :: "string \<Rightarrow> prefix option" where
  "ParsePrefix s =
     (if CHR ''/'' \<notin> set s then None
      else
        let bitsStr = rev (takeWhile (\<lambda>c. c \<noteq> CHR ''/'') (rev s));
            ipStr = take (length s - length bitsStr - 1) s in
        case ParseAddr ipStr of
          None \<Rightarrow> None
        | Some a \<Rightarrow>
            if Zone a \<noteq> '''' then None
            else if length bitsStr > 1 \<and> (byte_val (hd bitsStr) < 49 \<or> byte_val (hd bitsStr) > 57) then None
            else case ParseUint 63 bitsStr of
              None \<Rightarrow> None
            | Some n \<Rightarrow> if n > BitLen a then None else Some (Prefix a n))"

definition pfx_String :: "prefix \<Rightarrow> string" where
  "pfx_String p =
     (if \<not> pfx_IsValid p then ''invalid Prefix''
      else addr_String (pfx_addr p) @ ''/'' @ Itoa (pfx_bits p))"

section \<open>net.SplitHostPort and net.JoinHostPort\<close>

definition last_index :: "char \<Rightarrow> string \<Rightarrow> nat option" where
  "last_index c s =
     (if c \<in> set s then Some (length s - 1 - length (takeWhile (\<lambda>x. x \<noteq> c) (rev s))) else None)"

definition first_index :: "char \<Rightarrow> string \<Rightarrow> nat option" where
  "first_index c s = (if c \<in> set s then Some (length (takeWhile (\<lambda>x. x \<noteq> c) s)) else None)"

datatype addr_error = MissingPort | TooManyColons | MissingBracket | UnexpectedBracket

definition SplitHostPort :: "string \<Rightarrow> addr_error + (string \<times> string)" where
  "SplitHostPort hp =
     (case last_index CHR '':'' hp of
        None \<Rightarrow> Inl MissingPort
      | Some i \<Rightarrow>
          if hp \<noteq> [] \<and> hd hp = CHR ''['' then
            (case first_index CHR '']'' hp of
               None \<Rightarrow> Inl MissingBracket
             | Some e \<Rightarrow>
                 if e + 1 = length hp then Inl MissingPort
                 else if e + 1 \<noteq> i then
                   (if hp ! (e + 1) = CHR '':'' then Inl TooManyColons else Inl MissingPort)
                 else if CHR ''['' \<in> set (drop 1 hp) then Inl UnexpectedBracket
                 else if CHR '']'' \<in> set (drop (e + 1) hp) then Inl UnexpectedBracket
                 else Inr (take (e - 1) (drop 1 hp), drop (i + 1) hp))
          else
            let host = take i hp in
            if CHR '':'' \<in> set host then Inl TooManyColons
            else if CHR ''['' \<in> set hp then Inl UnexpectedBracket
            else if CHR '']'' \<in> set hp then Inl UnexpectedBracket
            else Inr (host, drop (i + 1) hp))"

definition JoinHostPort :: "string \<Rightarrow> string \<Rightarrow> string" where
  "JoinHostPort host port =
     (if CHR '':'' \<in> set host then ''['' @ host @ '']:'' @ port else host @ '':'' @ port)"

section \<open>Address classes\<close>

text \<open>
  \<open>IsPrivate\<close>, \<open>IsUnspecified\<close>, \<open>IsLoopback\<close>, \<open>IsMulticast\<close> and \<open>IsLinkLocalUnicast\<close>; an
  IPv4-mapped IPv6 address is classified by the IPv4 address it carries (\<open>IsUnspecified\<close> apart).
\<close>

fun v4_prefix :: "u32 \<Rightarrow> nat \<Rightarrow> u32 \<Rightarrow> bool" where
  "v4_prefix p bits w = (drop_bit (32 - bits) w = p)"

fun v6_prefix :: "128 word \<Rightarrow> nat \<Rightarrow> 128 word \<Rightarrow> bool" where
  "v6_prefix p bits w = (drop_bit (128 - bits) w = p)"

definition IsPrivate :: "addr \<Rightarrow> bool" where
  "IsPrivate a =
     (case Unmap a of
        NoAddr \<Rightarrow> False
      | V4 w \<Rightarrow> v4_prefix 10 8 w \<or> v4_prefix 0xac1 12 w \<or> v4_prefix 0xc0a8 16 w
      | V6 w z \<Rightarrow> v6_prefix 0x7e 7 w)"

fun IsUnspecified :: "addr \<Rightarrow> bool" where
  "IsUnspecified NoAddr = False"
| "IsUnspecified (V4 w) = (w = 0)"
| "IsUnspecified (V6 w z) = (w = 0 \<and> z = '''')"

definition IsLoopback :: "addr \<Rightarrow> bool" where
  "IsLoopback a =
     (case Unmap a of NoAddr \<Rightarrow> False | V4 w \<Rightarrow> v4_prefix 127 8 w | V6 w z \<Rightarrow> w = 1)"

definition IsMulticast :: "addr \<Rightarrow> bool" where
  "IsMulticast a =
     (case Unmap a of NoAddr \<Rightarrow> False | V4 w \<Rightarrow> v4_prefix 0xe 4 w | V6 w z \<Rightarrow> v6_prefix 0xff 8 w)"

definition IsLinkLocalUnicast :: "addr \<Rightarrow> bool" where
  "IsLinkLocalUnicast a =
     (case Unmap a of NoAddr \<Rightarrow> False | V4 w \<Rightarrow> v4_prefix 0xa9fe 16 w | V6 w z \<Rightarrow> v6_prefix 0x3fa 10 w)"

definition IsGlobalUnicast :: "addr \<Rightarrow> bool" where
  "IsGlobalUnicast a =
     (case Unmap a of
        NoAddr \<Rightarrow> False
      | V4 w \<Rightarrow> w \<noteq> 0 \<and> w \<noteq> 0xffffffff \<and> \<not> IsLoopback a \<and> \<not> IsMulticast a \<and> \<not> IsLinkLocalUnicast a
      | V6 w z \<Rightarrow> \<not> (w = 0 \<and> z = '''') \<and> \<not> IsLoopback a \<and> \<not> IsMulticast a \<and> \<not> IsLinkLocalUnicast a)"

end
