(* ===== verification/Metadata.thy ===== *)
theory Metadata imports NetIP begin

text \<open>
  constant/metadata.go and constant/rule.go: the description of one connection that the tunnel,
  the rules and the outbounds pass around, with its enumerations and their names, and the rule
  types. \<open>RawSrcAddr\<close>, \<open>RawDstAddr\<close> and the JSON tags are left out: nothing modelled reads them.
\<close>

section \<open>Enumerations\<close>

datatype addr_type = AtypIPv4 | AtypDomainName | AtypIPv6

fun addr_type_byte :: "addr_type \<Rightarrow> u8" where
  "addr_type_byte AtypIPv4 = 1"
| "addr_type_byte AtypDomainName = 3"
| "addr_type_byte AtypIPv6 = 4"

fun addr_type_String :: "addr_type \<Rightarrow> string" where
  "addr_type_String AtypIPv4 = ''IPv4''"
| "addr_type_String AtypDomainName = ''DomainName''"
| "addr_type_String AtypIPv6 = ''IPv6''"

datatype network = TCP | UDP | ALLNet | InvalidNet

fun network_String :: "network \<Rightarrow> string" where
  "network_String TCP = ''tcp''"
| "network_String UDP = ''udp''"
| "network_String ALLNet = ''all''"
| "network_String InvalidNet = ''invalid''"

datatype in_type = HTTP | HTTPS | SOCKS4 | SOCKS5 | SHADOWSOCKS | VMESS | VLESS | REDIR | TPROXY
  | TROJAN | TUNNEL | TUN | TUIC | HYSTERIA2 | ANYTLS | INNER

fun in_type_String :: "in_type \<Rightarrow> string" where
  "in_type_String HTTP = ''HTTP''"
| "in_type_String HTTPS = ''HTTPS''"
| "in_type_String SOCKS4 = ''Socks4''"
| "in_type_String SOCKS5 = ''Socks5''"
| "in_type_String SHADOWSOCKS = ''ShadowSocks''"
| "in_type_String VMESS = ''Vmess''"
| "in_type_String VLESS = ''Vless''"
| "in_type_String REDIR = ''Redir''"
| "in_type_String TPROXY = ''TProxy''"
| "in_type_String TROJAN = ''Trojan''"
| "in_type_String TUNNEL = ''Tunnel''"
| "in_type_String TUN = ''Tun''"
| "in_type_String TUIC = ''Tuic''"
| "in_type_String HYSTERIA2 = ''Hysteria2''"
| "in_type_String ANYTLS = ''AnyTLS''"
| "in_type_String INNER = ''Inner''"

definition ParseType :: "string \<Rightarrow> in_type option" where
  "ParseType t = map_of
     [(''HTTP'', HTTP), (''HTTPS'', HTTPS), (''SOCKS4'', SOCKS4), (''SOCKS5'', SOCKS5),
      (''SHADOWSOCKS'', SHADOWSOCKS), (''VMESS'', VMESS), (''VLESS'', VLESS), (''REDIR'', REDIR),
      (''TPROXY'', TPROXY), (''TROJAN'', TROJAN), (''TUNNEL'', TUNNEL), (''TUN'', TUN),
      (''TUIC'', TUIC), (''HYSTERIA2'', HYSTERIA2), (''ANYTLS'', ANYTLS), (''INNER'', INNER)] t"

lemma ParseType_String: "ParseType (ToUpper (in_type_String t)) = Some t"
  by (cases t; hypsubst; code_simp)

datatype dns_mode = DNSNormal | DNSFakeIP | DNSMapping | DNSHosts

section \<open>Metadata\<close>

record metadata =
  md_NetWork :: network
  md_Type :: in_type
  md_SrcIP :: addr
  md_DstIP :: addr
  md_SrcGeoIP :: "string list option"
  md_DstGeoIP :: "string list option"
  md_SrcIPASN :: string
  md_DstIPASN :: string
  md_SrcPort :: u16
  md_DstPort :: u16
  md_InIP :: addr
  md_InPort :: u16
  md_InName :: string
  md_InUser :: string
  md_Host :: string
  md_DNSMode :: dns_mode
  md_Uid :: u32
  md_Process :: string
  md_ProcessPath :: string
  md_SpecialProxy :: string
  md_SpecialRules :: string
  md_RemoteDst :: string
  md_DSCP :: u8
  md_SniffHost :: string

definition zero_metadata :: metadata where
  "zero_metadata = \<lparr>md_NetWork = TCP, md_Type = HTTP, md_SrcIP = NoAddr, md_DstIP = NoAddr,
     md_SrcGeoIP = None, md_DstGeoIP = None, md_SrcIPASN = '''', md_DstIPASN = '''',
     md_SrcPort = 0, md_DstPort = 0, md_InIP = NoAddr, md_InPort = 0, md_InName = '''',
     md_InUser = '''', md_Host = '''', md_DNSMode = DNSNormal, md_Uid = 0, md_Process = '''',
     md_ProcessPath = '''', md_SpecialProxy = '''', md_SpecialRules = '''', md_RemoteDst = '''',
     md_DSCP = 0, md_SniffHost = ''''\<rparr>"

definition md_String :: "metadata \<Rightarrow> string" where
  "md_String m =
     (if md_Host m \<noteq> '''' then md_Host m
      else if IsValid (md_DstIP m) then addr_String (md_DstIP m)
      else ''<nil>'')"

definition RemoteAddress :: "metadata \<Rightarrow> string" where
  "RemoteAddress m = JoinHostPort (md_String m) (Itoa (unat (md_DstPort m)))"

definition SourceAddress :: "metadata \<Rightarrow> string" where
  "SourceAddress m = JoinHostPort (addr_String (md_SrcIP m)) (Itoa (unat (md_SrcPort m)))"

definition SourceAddrPort :: "metadata \<Rightarrow> addr \<times> u16" where
  "SourceAddrPort m = (Unmap (md_SrcIP m), md_SrcPort m)"

definition SourceDetail :: "metadata \<Rightarrow> string" where
  "SourceDetail m =
     (if md_Type m = INNER then ''mihomo''
      else if md_Process m \<noteq> '''' \<and> md_Uid m \<noteq> 0 then
        SourceAddress m @ ''('' @ md_Process m @ '', uid='' @ Itoa (unat (md_Uid m)) @ '')''
      else if md_Uid m \<noteq> 0 then SourceAddress m @ ''(uid='' @ Itoa (unat (md_Uid m)) @ '')''
      else if md_Process m \<noteq> '''' then SourceAddress m @ ''('' @ md_Process m @ '')''
      else SourceAddress m)"

definition SourceValid :: "metadata \<Rightarrow> bool" where
  "SourceValid m \<longleftrightarrow> md_SrcPort m \<noteq> 0 \<and> IsValid (md_SrcIP m)"

definition AddrType :: "metadata \<Rightarrow> addr_type" where
  "AddrType m =
     (if md_Host m \<noteq> '''' \<or> \<not> IsValid (md_DstIP m) then AtypDomainName
      else if Is4 (md_DstIP m) then AtypIPv4
      else AtypIPv6)"

definition Resolved :: "metadata \<Rightarrow> bool" where
  "Resolved m \<longleftrightarrow> IsValid (md_DstIP m)"

definition RuleHost :: "metadata \<Rightarrow> string" where
  "RuleHost m = (if length (md_SniffHost m) = 0 then md_Host m else md_SniffHost m)"

definition Pure :: "metadata \<Rightarrow> metadata" where
  "Pure m =
     (if (md_DNSMode m = DNSMapping \<or> md_DNSMode m = DNSHosts) \<and> IsValid (md_DstIP m)
      then m\<lparr>md_Host := ''''\<rparr> else m)"

definition AddrPort :: "metadata \<Rightarrow> addr \<times> u16" where
  "AddrPort m = (Unmap (md_DstIP m), md_DstPort m)"

definition md_UDPAddr :: "metadata \<Rightarrow> (addr \<times> u16) option" where
  "md_UDPAddr m =
     (if md_NetWork m \<noteq> UDP \<or> \<not> IsValid (md_DstIP m) then None else Some (AddrPort m))"

definition md_Valid :: "metadata \<Rightarrow> bool" where
  "md_Valid m \<longleftrightarrow> md_Host m \<noteq> '''' \<or> IsValid (md_DstIP m)"

definition SetRemoteAddress :: "metadata \<Rightarrow> string \<Rightarrow> addr_error + metadata" where
  "SetRemoteAddress m rawAddress =
     (case SplitHostPort rawAddress of
        Inl e \<Rightarrow> Inl e
      | Inr (host, port) \<Rightarrow>
          let p = (case ParseUint 16 port of Some v \<Rightarrow> word_of_nat v | None \<Rightarrow> 0) in
          case ParseAddr host of
            None \<Rightarrow> Inr (m\<lparr>md_Host := host, md_DstIP := NoAddr, md_DstPort := p\<rparr>)
          | Some ip \<Rightarrow> Inr (m\<lparr>md_Host := '''', md_DstIP := Unmap ip, md_DstPort := p\<rparr>))"

text \<open>
  A \<open>net.Addr\<close> by the optional interfaces the code asks for: \<open>RawAddr\<close> (which may be nil),
  \<open>AddrPort\<close>, \<open>AddrString\<close>, and the mandatory \<open>String\<close>.
\<close>

datatype net_addr = NetAddr
  (na_RawAddr: "net_addr option option")
  (na_AddrPort: "(addr \<times> u16) option")
  (na_AddrString: "string option")
  (na_String: string)

text \<open>
  The two steps after the raw address has been tried: the error, if any, and the metadata, which keeps what was
  set before an error. A wrong text changes nothing.
\<close>

definition set_by_text :: "net_addr \<Rightarrow> metadata \<Rightarrow> addr_error option \<times> metadata" where
  "set_by_text a m = (case SetRemoteAddress m (na_String a) of Inl e \<Rightarrow> (Some e, m) | Inr m' \<Rightarrow> (None, m'))"

definition set_by_addr_port :: "net_addr \<Rightarrow> metadata \<Rightarrow> addr_error option \<times> metadata" where
  "set_by_addr_port a m =
     (case na_AddrPort a of
        Some (ip, port) \<Rightarrow>
          if port \<noteq> 0 then
            let m1 = m\<lparr>md_DstPort := port\<rparr> in
            if IsValid ip then (None, m1\<lparr>md_DstIP := Unmap ip\<rparr>)
            else (case na_AddrString a of
                    Some s \<Rightarrow> (None, m1\<lparr>md_Host := s\<rparr>)
                  | None \<Rightarrow> set_by_text a m1)
          else set_by_text a m
      | None \<Rightarrow> set_by_text a m)"

fun set_by_raw :: "net_addr \<Rightarrow> metadata \<Rightarrow> addr_error option \<times> metadata" where
  "set_by_raw (NetAddr (Some (Some raw)) ap st s) m =
     (case set_by_raw raw m of
        (None, m1) \<Rightarrow> (None, m1)
      | (Some e, m1) \<Rightarrow> set_by_addr_port (NetAddr (Some (Some raw)) ap st s) m1)"
| "set_by_raw a m = set_by_addr_port a m"

definition SetRemoteAddr :: "metadata \<Rightarrow> net_addr option \<Rightarrow> addr_error option \<times> metadata" where
  "SetRemoteAddr m addr = (case addr of None \<Rightarrow> (None, m) | Some a \<Rightarrow> set_by_raw a m)"

definition SwapSrcDst :: "metadata \<Rightarrow> metadata" where
  "SwapSrcDst m = m\<lparr>md_SrcIP := md_DstIP m, md_DstIP := md_SrcIP m,
     md_SrcPort := md_DstPort m, md_DstPort := md_SrcPort m,
     md_SrcIPASN := md_DstIPASN m, md_DstIPASN := md_SrcIPASN m,
     md_SrcGeoIP := md_DstGeoIP m, md_DstGeoIP := md_SrcGeoIP m\<rparr>"

lemma SwapSrcDst_twice [simp]: "SwapSrcDst (SwapSrcDst m) = m"
  by (simp add: SwapSrcDst_def)

section \<open>constant/rule.go\<close>

datatype rule_type = Domain | DomainSuffix | DomainKeyword | DomainRegex | DomainWildcard
  | GEOSITE | GEOIP | SrcGEOIP | IPASN | SrcIPASN | IPCIDR | SrcIPCIDR | IPSuffix | SrcIPSuffix
  | SrcPort | DstPort | InPort | DSCP | InUser | InName | InType | ProcessName | ProcessPath
  | ProcessNameRegex | ProcessPathRegex | RuleSet | Network | Uid | SubRules | MATCH | AND_t
  | OR_t | NOT_t

fun rule_type_String :: "rule_type \<Rightarrow> string" where
  "rule_type_String Domain = ''Domain''"
| "rule_type_String DomainSuffix = ''DomainSuffix''"
| "rule_type_String DomainKeyword = ''DomainKeyword''"
| "rule_type_String DomainRegex = ''DomainRegex''"
| "rule_type_String DomainWildcard = ''DomainWildcard''"
| "rule_type_String GEOSITE = ''GeoSite''"
| "rule_type_String GEOIP = ''GeoIP''"
| "rule_type_String SrcGEOIP = ''SrcGeoIP''"
| "rule_type_String IPASN = ''IPASN''"
| "rule_type_String SrcIPASN = ''SrcIPASN''"
| "rule_type_String IPCIDR = ''IPCIDR''"
| "rule_type_String SrcIPCIDR = ''SrcIPCIDR''"
| "rule_type_String IPSuffix = ''IPSuffix''"
| "rule_type_String SrcIPSuffix = ''SrcIPSuffix''"
| "rule_type_String SrcPort = ''SrcPort''"
| "rule_type_String DstPort = ''DstPort''"
| "rule_type_String InPort = ''InPort''"
| "rule_type_String InUser = ''InUser''"
| "rule_type_String InName = ''InName''"
| "rule_type_String InType = ''InType''"
| "rule_type_String ProcessName = ''ProcessName''"
| "rule_type_String ProcessPath = ''ProcessPath''"
| "rule_type_String ProcessNameRegex = ''ProcessNameRegex''"
| "rule_type_String ProcessPathRegex = ''ProcessPathRegex''"
| "rule_type_String MATCH = ''Match''"
| "rule_type_String RuleSet = ''RuleSet''"
| "rule_type_String Network = ''Network''"
| "rule_type_String DSCP = ''DSCP''"
| "rule_type_String Uid = ''Uid''"
| "rule_type_String SubRules = ''SubRules''"
| "rule_type_String AND_t = ''AND''"
| "rule_type_String OR_t = ''OR''"
| "rule_type_String NOT_t = ''NOT''"

end
