(* ===== verification/IntRanges.thy ===== *)
theory IntRanges imports GoStd begin

text \<open>
  common/utils/range.go and common/utils/ranges.go: closed integer ranges and lists of them, as
  port, DSCP, uid and expected-status rules use them. The element type is a machine word, so
  that the conversions and the overflow guards of the code are the ones proved. \<open>Merge\<close> works in
  place on the array of its argument; the model keeps that array.
\<close>

section \<open>range.go\<close>

record 'a range =
  r_start :: 'a
  r_end :: 'a

definition NewRange :: "'a::linorder \<Rightarrow> 'a \<Rightarrow> 'a range" where
  "NewRange s e = (if s > e then \<lparr>r_start = e, r_end = s\<rparr> else \<lparr>r_start = s, r_end = e\<rparr>)"

definition range_Contains :: "'a::linorder range \<Rightarrow> 'a \<Rightarrow> bool" where
  "range_Contains r t \<longleftrightarrow> t \<ge> r_start r \<and> t \<le> r_end r"

definition range_LeftContains :: "'a::linorder range \<Rightarrow> 'a \<Rightarrow> bool" where
  "range_LeftContains r t \<longleftrightarrow> t \<ge> r_start r \<and> t < r_end r"

definition range_RightContains :: "'a::linorder range \<Rightarrow> 'a \<Rightarrow> bool" where
  "range_RightContains r t \<longleftrightarrow> t > r_start r \<and> t \<le> r_end r"

section \<open>ranges.go\<close>

datatype ranges_error = TooManyRanges | ErrIntRanges

definition parseUnsigned :: "string \<Rightarrow> 'a::len word option" where
  "parseUnsigned s = (case ParseUint 64 s of None \<Rightarrow> None | Some v \<Rightarrow> Some (word_of_nat v))"

definition range_cut :: string where
  "range_cut = ''[ ]''"

fun newIntRangesFromList ::
  "string list \<Rightarrow> (string \<Rightarrow> 'a::linorder option) \<Rightarrow> ranges_error + 'a range list" where
  "newIntRangesFromList [] parseFn = Inr []"
| "newIntRangesFromList (s # ss) parseFn =
     (if s = '''' then newIntRangesFromList ss parseFn
      else
        let status = Split s CHR ''-'' in
        if length status > 2 then Inl ErrIntRanges
        else case parseFn (Trim (status ! 0) range_cut) of
          None \<Rightarrow> Inl ErrIntRanges
        | Some a \<Rightarrow>
            if length status = 1 then map_sum id (\<lambda>rs. NewRange a a # rs) (newIntRangesFromList ss parseFn)
            else case parseFn (Trim (status ! 1) range_cut) of
              None \<Rightarrow> Inl ErrIntRanges
            | Some b \<Rightarrow> map_sum id (\<lambda>rs. NewRange a b # rs) (newIntRangesFromList ss parseFn))"

definition newIntRanges ::
  "string \<Rightarrow> (string \<Rightarrow> 'a::linorder option) \<Rightarrow> ranges_error + 'a range list" where
  "newIntRanges expected parseFn =
     (let e = TrimSpace expected in
      if length e = 0 \<or> e = ''*'' then Inr []
      else
        let list = Split (ReplaceAll_char e CHR '','' CHR ''/'') CHR ''/'' in
        if length list > 28 then Inl TooManyRanges
        else newIntRangesFromList list parseFn)"

definition NewUnsignedRanges :: "string \<Rightarrow> ranges_error + 'a::len word range list" where
  "NewUnsignedRanges expected = newIntRanges expected parseUnsigned"

definition NewUnsignedRangesFromList :: "string list \<Rightarrow> ranges_error + 'a::len word range list" where
  "NewUnsignedRangesFromList list = newIntRangesFromList list parseUnsigned"

fun check_loop :: "'a::linorder range list \<Rightarrow> 'a \<Rightarrow> bool" where
  "check_loop [] status = False"
| "check_loop (segment # rs) status = (if range_Contains segment status then True else check_loop rs status)"

definition ranges_Check :: "'a::linorder range list \<Rightarrow> 'a \<Rightarrow> bool" where
  "ranges_Check ranges status = (if length ranges = 0 then True else check_loop ranges status)"

definition range_term :: "'a::len word range \<Rightarrow> string" where
  "range_term r =
     (if r_start r = r_end r then Itoa (unat (r_start r))
      else Itoa (unat (r_start r)) @ ''-'' @ Itoa (unat (r_end r)))"

definition ranges_String :: "'a::len word range list \<Rightarrow> string" where
  "ranges_String ranges =
     (if length ranges = 0 then ''*'' else Join (map range_term ranges) ''/'')"

text \<open>
  \<open>Range\<close>: the callback sees and updates the caller's state \<open>'s\<close>; the flag says whether the
  iteration goes on. The counter stops at the largest word instead of wrapping.
\<close>

function range_values ::
  "'a::len word range \<Rightarrow> 'a word \<Rightarrow> ('a word \<Rightarrow> 's \<Rightarrow> bool \<times> 's) \<Rightarrow> 's \<Rightarrow> bool \<times> 's" where
  "range_values r i f s =
     (if i \<le> r_end r \<and> i \<ge> r_start r then
        (case f i s of (go, s') \<Rightarrow>
           if \<not> go then (False, s')
           else if i + 1 < i then (True, s')
           else range_values r (i + 1) f s')
      else (True, s))"
  by pat_completeness auto
termination
proof (relation "measure (\<lambda>(r, i, f, s). 2 ^ LENGTH('a) - unat i)", simp, clarsimp)
  fix r :: "'a word range" and i :: "'a word"
  assume "\<not> i + 1 < i"
  then have "i < i + 1" using plus_one_cases[of i] by (auto simp: word_gt_0)
  then show "2 ^ LENGTH('a) - unat (i + 1) < 2 ^ LENGTH('a) - unat i"
    using unat_bound[of "i + 1"] by (simp add: unat_plus_one)
qed

fun ranges_Range ::
  "'a::len word range list \<Rightarrow> ('a word \<Rightarrow> 's \<Rightarrow> bool \<times> 's) \<Rightarrow> 's \<Rightarrow> 's" where
  "ranges_Range [] f s = s"
| "ranges_Range (r # rs) f s =
     (case range_values r (r_start r) f s of
        (go, s') \<Rightarrow> if go then ranges_Range rs f s' else s')"

text \<open>
  \<open>Merge\<close> after the sort: \<open>mergedRanges\<close> is the prefix of length \<open>rangeIndex + 1\<close> of the array
  the loop still reads, and its \<open>append\<close> writes into that array.
\<close>

function merge_loop :: "'a::len word range list \<Rightarrow> nat \<Rightarrow> nat \<Rightarrow> 'a word range list \<times> nat" where
  "merge_loop arr k ri =
     (if k < length arr then
        let r = arr ! k; m = arr ! ri in
        if r_end m + 1 > r_end m \<and> r_start r > r_end m + 1
        then merge_loop (arr[ri + 1 := r]) (k + 1) (ri + 1)
        else if r_end r > r_end m
        then merge_loop (arr[ri := m\<lparr>r_end := r_end r\<rparr>]) (k + 1) ri
        else merge_loop arr (k + 1) ri
      else (arr, ri))"
  by pat_completeness auto
termination
  by (relation "measure (\<lambda>(arr, k, ri). length arr - k)") (auto simp: Let_def)

definition ranges_Merge :: "'a::len word range list \<Rightarrow> 'a word range list" where
  "ranges_Merge ranges =
     (if length ranges = 0 then []
      else case merge_loop (sort_key r_start ranges) 1 0 of (arr, ri) \<Rightarrow> take (ri + 1) arr)"


declare range_values.simps [simp del] merge_loop.simps [simp del]

section \<open>Membership\<close>

definition in_ranges :: "'a::linorder range list \<Rightarrow> 'a \<Rightarrow> bool" where
  "in_ranges rs t \<longleftrightarrow> (\<exists>r \<in> set rs. range_Contains r t)"

lemma in_ranges_simps [simp]:
  "\<not> in_ranges [] t"
  "in_ranges (r # rs) t \<longleftrightarrow> range_Contains r t \<or> in_ranges rs t"
  "in_ranges (xs @ ys) t \<longleftrightarrow> in_ranges xs t \<or> in_ranges ys t"
  by (auto simp: in_ranges_def)

lemma check_loop_iff: "check_loop rs t \<longleftrightarrow> in_ranges rs t"
  by (induction rs) auto

lemma ranges_Check_iff: "ranges_Check rs t \<longleftrightarrow> rs = [] \<or> in_ranges rs t"
  by (simp add: ranges_Check_def check_loop_iff)

definition wf_range :: "'a::linorder range \<Rightarrow> bool" where
  "wf_range r \<longleftrightarrow> r_start r \<le> r_end r"

lemma NewRange_wf [simp]: "wf_range (NewRange a b)"
  by (auto simp: NewRange_def wf_range_def)

lemma NewRange_Contains: "range_Contains (NewRange a b) t \<longleftrightarrow> min a b \<le> t \<and> t \<le> max a b"
  by (auto simp: NewRange_def range_Contains_def min_def max_def)

lemma newIntRangesFromList_wf:
  "newIntRangesFromList ss pf = Inr rs \<Longrightarrow> r \<in> set rs \<Longrightarrow> wf_range r"
  by (induction ss arbitrary: rs)
     (auto simp: Let_def map_sum_def split: if_splits option.splits sum.splits)

section \<open>Merge\<close>

definition far :: "'a::len word range \<Rightarrow> 'a word range \<Rightarrow> bool" where
  "far m r \<longleftrightarrow> r_end m + 1 > r_end m \<and> r_start r > r_end m + 1"

definition widen :: "'a::len word range \<Rightarrow> 'a word range \<Rightarrow> 'a word range" where
  "widen m r = (if r_end r > r_end m then m\<lparr>r_end := r_end r\<rparr> else m)"

fun merge_acc :: "'a::len word range \<Rightarrow> 'a word range list \<Rightarrow> 'a word range list" where
  "merge_acc m [] = [m]"
| "merge_acc m (r # rs) =
     (if far m r then m # merge_acc r rs
      else merge_acc (widen m r) rs)"

text \<open>Reading and appending to the same array does not disturb the loop.\<close>

lemma merge_loop_eq:
  "ri < k \<Longrightarrow> k \<le> length arr \<Longrightarrow> merge_loop arr k ri = (arr', ri') \<Longrightarrow>
   take (ri' + 1) arr' = take ri arr @ merge_acc (arr ! ri) (drop k arr)"
proof (induction arr k ri rule: merge_loop.induct)
  case (1 arr k ri)
  show ?case
  proof (cases "k < length arr")
    case False
    with 1 show ?thesis by (subst (asm) (3) merge_loop.simps) (simp add: take_Suc_snoc)
  next
    case k: True
    have d: "drop k arr = arr ! k # drop (Suc k) arr" using k by (rule drop_eq_Cons_nth)
    show ?thesis
    proof (cases "far (arr ! ri) (arr ! k)")
      case True
      with k "1.prems"(3) have "merge_loop (arr[ri + 1 := arr ! k]) (k + 1) (ri + 1) = (arr', ri')"
        by (subst (asm) merge_loop.simps) (simp add: Let_def far_def)
      from "1.IH"(1)[OF k refl refl _ _ _ this] True k "1.prems"(1) show ?thesis
        by (simp add: d far_def take_Suc_snoc)
    next
      case nf: False
      show ?thesis
      proof (cases "r_end (arr ! k) > r_end (arr ! ri)")
        case True
        with nf k "1.prems"(3) have
          "merge_loop (arr[ri := (arr ! ri)\<lparr>r_end := r_end (arr ! k)\<rparr>]) (k + 1) ri = (arr', ri')"
          by (subst (asm) merge_loop.simps) (auto simp: Let_def far_def)
        from "1.IH"(2)[OF k refl refl _ True _ _ this] nf True k "1.prems"(1) show ?thesis
          by (auto simp: d far_def widen_def)
      next
        case False
        with nf k "1.prems"(3) have "merge_loop arr (k + 1) ri = (arr', ri')"
          by (subst (asm) merge_loop.simps) (auto simp: Let_def far_def)
        from "1.IH"(3)[OF k refl refl _ False _ _ this] nf False k "1.prems"(1) show ?thesis
          by (auto simp: d far_def widen_def)
      qed
    qed
  qed
qed

lemma ranges_Merge_eq:
  "ranges_Merge rs = (case sort_key r_start rs of [] \<Rightarrow> [] | m # ms \<Rightarrow> merge_acc m ms)"
proof (cases "sort_key r_start rs")
  case Nil
  then have "length rs = 0" by (metis length_0_conv length_sort)
  with Nil show ?thesis by (simp add: ranges_Merge_def)
next
  case (Cons m ms)
  then have "rs \<noteq> []" by auto
  moreover obtain arr' ri' where e: "merge_loop (m # ms) 1 0 = (arr', ri')" by fastforce
  moreover from merge_loop_eq[OF _ _ e] have "take (ri' + 1) arr' = merge_acc m ms" by simp
  ultimately show ?thesis using Cons by (simp add: ranges_Merge_def)
qed

lemma near_union:
  assumes "r_start m \<le> r_start r" and "wf_range r" and "wf_range m" and "\<not> far m r"
  shows "range_Contains (widen m r) t \<longleftrightarrow>
    range_Contains m t \<or> range_Contains r t"
proof -
  have "t \<le> r_end m" if "t < r_start r"
    using that assms(4) less_plus_one[of "r_end m" t] max_if_no_plus_one[of "r_end m" t]
    by (cases "r_end m < r_end m + 1") (auto simp: far_def not_less)
  then show ?thesis using assms(1-3)
    by (auto simp: widen_def range_Contains_def wf_range_def not_less not_le)
qed

lemma widen_ok:
  assumes "sorted (map r_start (m # r # rs))" and "\<forall>r \<in> set (m # r # rs). wf_range r"
  shows "sorted (map r_start (widen m r # rs)) \<and> (\<forall>x \<in> set (widen m r # rs). wf_range x) \<and>
    r_start (widen m r) = r_start m"
  using assms by (auto simp: widen_def wf_range_def)

lemma merge_acc_lower:
  "sorted (map r_start (m # rs)) \<Longrightarrow> \<forall>r \<in> set (m # rs). wf_range r \<Longrightarrow>
   x \<in> set (merge_acc m rs) \<Longrightarrow> r_start m \<le> r_start x \<and> wf_range x"
proof (induction m rs rule: merge_acc.induct)
  case (2 m r rs)
  show ?case
  proof (cases "far m r")
    case True
    with 2 show ?thesis by fastforce
  next
    case False
    moreover note widen_ok[OF "2.prems"(1,2)]
    ultimately show ?thesis using "2.IH"(2) "2.prems"(3) by auto
  qed
qed auto

lemma merge_acc_members:
  "sorted (map r_start (m # rs)) \<Longrightarrow> \<forall>r \<in> set (m # rs). wf_range r \<Longrightarrow>
   in_ranges (merge_acc m rs) t \<longleftrightarrow> in_ranges (m # rs) t"
proof (induction m rs rule: merge_acc.induct)
  case (2 m r rs)
  show ?case
  proof (cases "far m r")
    case True
    with 2 show ?thesis by simp
  next
    case False
    moreover note widen_ok[OF "2.prems"(1,2)]
    moreover note near_union[of m r t]
    ultimately show ?thesis using "2.IH"(2) "2.prems" by simp
  qed
qed simp

lemma merge_acc_far:
  "sorted (map r_start (m # rs)) \<Longrightarrow> \<forall>r \<in> set (m # rs). wf_range r \<Longrightarrow>
   sorted_wrt far (merge_acc m rs)"
proof (induction m rs rule: merge_acc.induct)
  case (2 m r rs)
  show ?case
  proof (cases "far m r")
    case True
    have "\<forall>x \<in> set (merge_acc r rs). far m x"
      using True merge_acc_lower[of r rs] "2.prems" by (fastforce simp: far_def)
    with True 2 show ?thesis by simp
  next
    case False
    moreover note widen_ok[OF "2.prems"(1,2)]
    ultimately show ?thesis using "2.IH"(2) by auto
  qed
qed simp


text \<open>
  C31: Merge never changes which values a list of ranges matches, and returns ranges in ascending
  order in which every next range starts beyond the successor of the end of all earlier ones (so
  none overlap or touch), although it sorts, appends to and overwrites one shared array and the
  successor of an end may overflow the word.
\<close>

theorem ranges_Merge_correct:
  assumes "\<forall>r \<in> set ranges. r_start r \<le> r_end r"
  shows "ranges_Check (ranges_Merge ranges) t = ranges_Check ranges t \<and>
    sorted_wrt (\<lambda>a b. r_end a + 1 > r_end a \<and> r_start b > r_end a + 1) (ranges_Merge ranges) \<and>
    (\<forall>r \<in> set (ranges_Merge ranges). r_start r \<le> r_end r)"
proof (cases "sort_key r_start ranges")
  case Nil
  then have "ranges = []" by (metis length_0_conv length_sort)
  then show ?thesis by (simp add: ranges_Merge_def)
next
  case (Cons m ms)
  then have eq: "ranges_Merge ranges = merge_acc m ms" by (simp add: ranges_Merge_eq)
  have s: "sorted (map r_start (m # ms))" using Cons by (metis sorted_sort_key)
  have st: "set ranges = set (m # ms)" using Cons by (metis set_sort)
  then have w: "\<forall>r \<in> set (m # ms). wf_range r" using assms by (simp add: wf_range_def)
  have "merge_acc m ms \<noteq> []" by (induction m ms rule: merge_acc.induct) auto
  moreover have "in_ranges (merge_acc m ms) t = in_ranges ranges t"
    using merge_acc_members[OF s w, of t] st by (auto simp: in_ranges_def)
  ultimately have "ranges_Check (ranges_Merge ranges) t = ranges_Check ranges t"
    using Cons eq st by (auto simp: ranges_Check_iff)
  moreover have "sorted_wrt far (ranges_Merge ranges)" using merge_acc_far[OF s w] eq by simp
  moreover have "\<forall>r \<in> set (ranges_Merge ranges). r_start r \<le> r_end r"
    using merge_acc_lower[OF s w] eq by (simp add: wf_range_def)
  ultimately show ?thesis by (simp add: far_def[abs_def])
qed

theorem ranges_Merge_correct_witness:
  "ranges_Check (ranges_Merge
      [\<lparr>r_start = 10, r_end = (12 :: u16)\<rparr>, \<lparr>r_start = 5, r_end = 9\<rparr>]) 11"
  using ranges_Merge_correct[of "[\<lparr>r_start = 10, r_end = (12 :: u16)\<rparr>, \<lparr>r_start = 5, r_end = 9\<rparr>]" 11]
  by (simp add: ranges_Check_def range_Contains_def)

section \<open>Range\<close>

definition word_upto :: "'a::len word \<Rightarrow> 'a word \<Rightarrow> 'a word list" where
  "word_upto a b = map word_of_nat [unat a ..< Suc (unat b)]"

lemma word_upto_Cons: "a \<le> b \<Longrightarrow> a < a + 1 \<Longrightarrow> word_upto a b = a # word_upto (a + 1) b"
  by (simp add: word_upto_def upt_conv_Cons word_le_nat_alt unat_plus_one del: upt_Suc)

lemma word_upto_top:
  assumes "a \<le> b" and "a + 1 = 0"
  shows "word_upto a b = [a]"
proof -
  have "a = - 1" using assms(2) by (simp add: add_eq_0_iff2)
  with assms(1) have "b = a" by (simp add: word_order.extremum_unique)
  then show ?thesis by (simp add: word_upto_def)
qed

lemma set_word_upto: "set (word_upto a b) = {t. a \<le> t \<and> t \<le> b}" for a b :: "'a::len word"
proof -
  have "word_of_nat n \<in> {t. a \<le> t \<and> t \<le> b}" if n: "unat a \<le> n" "n < Suc (unat b)" for n
  proof -
    have "n < 2 ^ LENGTH('a)" using n(2) unat_bound[of b] by linarith
    then have "unat (word_of_nat n :: 'a word) = n" by (simp add: unat_of_nat)
    then show ?thesis using n by (simp add: word_le_nat_alt)
  qed
  moreover have "t \<in> word_of_nat ` {unat a ..< Suc (unat b)}" if "a \<le> t" "t \<le> b" for t :: "'a word"
    using that by (intro image_eqI[of _ _ "unat t"]) (auto simp: word_le_nat_alt)
  moreover have "set (word_upto a b) = word_of_nat ` {unat a ..< Suc (unat b)}"
    by (simp only: word_upto_def set_map set_upt)
  ultimately show ?thesis by fastforce
qed

fun iter :: "('a \<Rightarrow> 's \<Rightarrow> bool \<times> 's) \<Rightarrow> 'a list \<Rightarrow> 's \<Rightarrow> bool \<times> 's" where
  "iter f [] s = (True, s)"
| "iter f (x # xs) s = (case f x s of (go, s') \<Rightarrow> if go then iter f xs s' else (False, s'))"

lemma iter_append:
  "iter f (xs @ ys) s = (case iter f xs s of (go, s') \<Rightarrow> if go then iter f ys s' else (False, s'))"
  by (induction xs arbitrary: s) (auto split: prod.splits)

lemma range_values_eq: "r_start r \<le> i \<Longrightarrow> range_values r i f s = iter f (word_upto i (r_end r)) s"
proof (induction r i f s rule: range_values.induct)
  case (1 r i f s)
  show ?case
  proof (cases "i \<le> r_end r")
    case False
    then have "word_upto i (r_end r) = []" by (simp add: word_upto_def word_le_nat_alt)
    with False show ?thesis by (subst range_values.simps) simp
  next
    case le: True
    obtain go s' where fs: "f i s = (go, s')" by fastforce
    show ?thesis
    proof (cases "i < i + 1")
      case True
      then have "r_start r \<le> i + 1" "\<not> i + 1 < i" using "1.prems" by auto
      with "1.IH"[OF _ fs[symmetric]] le "1.prems" show ?thesis
        by (subst range_values.simps) (auto simp: fs word_upto_Cons[OF le True])
    next
      case False
      then have "i + 1 = 0" "i \<noteq> 0" using plus_one_cases by auto
      then have "i + 1 < i" by (simp add: word_gt_0)
      then show ?thesis using le "1.prems"
        by (subst range_values.simps) (auto simp: fs word_upto_top[OF le \<open>i + 1 = 0\<close>])
    qed
  qed
qed

text \<open>
  Range terminates and calls its callback on exactly the words of the ranges, range after
  range in ascending order, each once, stopping at the first call that returns false; a range
  that ends at the largest word does not wrap around.
\<close>

theorem ranges_Range_correct:
  "ranges_Range ranges f s =
     snd (iter f (concat (map (\<lambda>r. word_upto (r_start r) (r_end r)) ranges)) s)"
  by (induction ranges arbitrary: s)
     (auto simp: range_values_eq iter_append split: prod.splits)


section \<open>Printing and parsing\<close>

lemma parseUnsigned_Itoa:
  "LENGTH('a) \<le> 64 \<Longrightarrow> parseUnsigned (Itoa (unat w)) = Some (w :: 'a::len word)"
proof -
  assume "LENGTH('a) \<le> 64"
  then have "(2::nat) ^ LENGTH('a) \<le> 2 ^ 64" by (rule power_increasing) simp
  with unat_bound[of w] have "unat w < 2 ^ 64" by linarith
  then show ?thesis by (simp add: parseUnsigned_def ParseUint_Itoa)
qed

lemma range_term_chars:
  "c \<in> set (range_term r) \<Longrightarrow> c = CHR ''-'' \<or> (\<exists>d < 10. c = digit_char d)"
  by (auto simp: range_term_def dest: Itoa_digits split: if_splits)

lemma range_term_notin:
  "byte_val c < 48 \<or> 57 < byte_val c \<Longrightarrow> c \<noteq> CHR ''-'' \<Longrightarrow> c \<notin> set (range_term r)"
  using range_term_chars digit_char_neq by metis

lemma range_term_not_Nil [simp]: "range_term r \<noteq> []"
  by (simp add: range_term_def)

lemma Trim_Itoa [simp]: "Trim (Itoa n) range_cut = Itoa n"
proof -
  have "c \<notin> set range_cut" if "c \<in> set (Itoa n)" for c
    using that Itoa_notin[of _ n] by (auto simp: range_cut_def byte_val_def)
  then show ?thesis unfolding Trim_def by (intro trim_by_id) simp
qed

lemma Split_range_term:
  "Split (range_term r) CHR ''-'' =
     (if r_start r = r_end r then [Itoa (unat (r_start r))]
      else [Itoa (unat (r_start r)), Itoa (unat (r_end r))])"
proof -
  have "CHR ''-'' \<notin> set (Itoa n)" for n by (rule Itoa_notin) (simp add: byte_val_def)
  then show ?thesis by (simp add: range_term_def Split_append_sep Split_id)
qed

lemma parse_terms:
  fixes rs :: "'a::len word range list"
  assumes "LENGTH('a) \<le> 64"
  shows "\<forall>r \<in> set rs. r_start r \<le> r_end r \<Longrightarrow>
    newIntRangesFromList (map range_term rs) parseUnsigned = Inr rs"
proof (induction rs)
  case (Cons r rs)
  moreover have "NewRange (r_start r) (r_end r) = r" using Cons.prems by (auto simp: NewRange_def)
  moreover from this have "NewRange (r_end r) (r_end r) = r" if "r_start r = r_end r" using that by simp
  ultimately show ?case
    by (simp add: Split_range_term parseUnsigned_Itoa[OF assms])
qed simp

text \<open>
  Parsing inverts printing: for at most 28 well-formed ranges over words of at most 64 bits,
  NewUnsignedRanges reads the output of String back as the same list.
\<close>

theorem ranges_String_roundtrip:
  fixes ranges :: "'a::len word range list"
  assumes "LENGTH('a) \<le> 64" and "length ranges \<le> 28" and "\<forall>r \<in> set ranges. r_start r \<le> r_end r"
  shows "NewUnsignedRanges (ranges_String ranges) = Inr ranges"
proof (cases "ranges = []")
  case True
  then show ?thesis
    by (simp add: NewUnsignedRanges_def newIntRanges_def ranges_String_def TrimSpace_def
        trim_by_def is_space_def byte_val_def)
next
  case False
  let ?e = "Join (map range_term ranges) ''/''"
  have chars: "c = CHR ''/'' \<or> c = CHR ''-'' \<or> (\<exists>d < 10. c = digit_char d)" if "c \<in> set ?e" for c
    using that set_Join[of "map range_term ranges" "''/''"] range_term_chars by fastforce
  have no: "c \<notin> set ?e" if "byte_val c < 45 \<or> 57 < byte_val c" for c
    using chars[of c] that byte_val_digit_char by (auto simp: byte_val_def)
  have ne: "?e \<noteq> []" using False by (cases ranges rule: list.exhaust, simp,
      cases "tl ranges") (auto simp: neq_Nil_conv)
  have "\<not> is_space c" if "c \<in> set ?e" for c
    using no[of c] that by (auto simp: is_space_def)
  then have trim: "TrimSpace ?e = ?e" unfolding TrimSpace_def by (intro trim_by_id) (simp add: ne)
  have star: "?e \<noteq> ''*''" using no[of "CHR ''*''"] by (auto simp: byte_val_def)
  have "CHR '','' \<notin> set ?e" by (rule no) (simp add: byte_val_def)
  then have rep: "ReplaceAll_char ?e CHR '','' CHR ''/'' = ?e"
    unfolding ReplaceAll_char_def by (intro map_idI) auto
  have "CHR ''/'' \<notin> set (range_term r)" for r :: "'a word range"
    by (rule range_term_notin) (simp_all add: byte_val_def)
  then have "Split ?e CHR ''/'' = map range_term ranges"
    using False by (intro Split_Join) auto
  with False ne trim star rep assms show ?thesis
    by (simp add: NewUnsignedRanges_def newIntRanges_def ranges_String_def parse_terms Let_def)
qed

theorem ranges_String_roundtrip_witness:
  "NewUnsignedRanges (ranges_String [\<lparr>r_start = 80, r_end = (80 :: u16)\<rparr>, \<lparr>r_start = 8000, r_end = 9000\<rparr>])
   = Inr [\<lparr>r_start = 80, r_end = (80 :: u16)\<rparr>, \<lparr>r_start = 8000, r_end = 9000\<rparr>]"
  using ranges_String_roundtrip[of "[\<lparr>r_start = 80, r_end = (80 :: u16)\<rparr>, \<lparr>r_start = 8000, r_end = 9000\<rparr>]"]
  by simp

section \<open>Numbers that do not fit\<close>

text \<open>
  A number below 2 to the 64 that does not fit the element type is not refused: it is reduced
  modulo the size of the type, so that a rule for port 65616 is a rule for port 80.
\<close>

theorem numbers_wrap:
  assumes "n < 2 ^ 64"
  shows "NewUnsignedRanges (Itoa n) = Inr [NewRange (word_of_nat n) (word_of_nat n :: 'a::len word)]"
proof -
  have no: "c \<notin> set (Itoa n)" if "byte_val c < 48 \<or> 57 < byte_val c" for c
    by (rule Itoa_notin) (use that in auto)
  have "\<not> is_space c" if "c \<in> set (Itoa n)" for c
    using no[of c] that by (auto simp: is_space_def)
  then have trim: "TrimSpace (Itoa n) = Itoa n"
    unfolding TrimSpace_def by (intro trim_by_id) simp
  have "CHR '','' \<notin> set (Itoa n)" by (rule no) (simp add: byte_val_def)
  then have rep: "ReplaceAll_char (Itoa n) CHR '','' CHR ''/'' = Itoa n"
    unfolding ReplaceAll_char_def by (intro map_idI) auto
  have "CHR ''/'' \<notin> set (Itoa n)" and "CHR ''-'' \<notin> set (Itoa n)" and "Itoa n \<noteq> ''*''"
    using no[of "CHR ''/''"] no[of "CHR ''-''"] no[of "CHR ''*''"] by (auto simp: byte_val_def)
  then show ?thesis
    using trim rep assms
    by (simp add: NewUnsignedRanges_def newIntRanges_def Let_def Split_id parseUnsigned_def ParseUint_Itoa)
qed

theorem numbers_wrap_witness:
  "NewUnsignedRanges (Itoa 65616) = Inr [\<lparr>r_start = 80, r_end = (80 :: u16)\<rparr>]"
  using numbers_wrap[of 65616, where 'a = 16] by (simp add: NewRange_def)

end
