(* ===== verification/Wildcard.thy ===== *)
theory Wildcard imports Prelude begin

text \<open>
  component/wildcard/wildcard.go: the matcher of DOMAIN-WILDCARD rules. \<open>matchByString\<close> is a
  loop over two indices with one remembered star; it is modelled as a partial function over the
  loop's variables, proved to return, and proved equal to the textbook recursive definition of
  wildcard matching (the star is the only point of choice, so remembering the last one is enough).
\<close>

section \<open>The code\<close>

text \<open>The label \<open>checkPattern\<close>: what is left of the pattern must be stars.\<close>

function checkPattern :: "string \<Rightarrow> nat \<Rightarrow> bool" where
  "checkPattern p pi =
     (if pi < length p \<and> p ! pi = CHR ''*'' then checkPattern p (pi + 1) else pi = length p)"
  by pat_completeness auto
termination
  by (relation "measure (\<lambda>(p, pi). length p - pi)") auto

text \<open>
  The label \<open>Loop\<close>. \<open>star\<close> is \<open>None\<close> where the code has \<open>-1\<close>; the variables are the code's
  \<open>patternIndex\<close>, \<open>sIndex\<close>, \<open>lastStar\<close> and \<open>star\<close>.
\<close>

partial_function (option) wloop ::
  "string \<Rightarrow> string \<Rightarrow> nat \<Rightarrow> nat \<Rightarrow> nat \<Rightarrow> nat option \<Rightarrow> bool option" where
  "wloop p s pi si lastStar star =
     (if si \<ge> length s then Some (checkPattern p pi)
      else if pi \<ge> length p then
        (case star of
           Some k \<Rightarrow> wloop p s (k + 1) (lastStar + 1) (lastStar + 1) star
         | None \<Rightarrow> Some False)
      else if p ! pi = CHR ''?'' then wloop p s (pi + 1) (si + 1) lastStar star
      else if p ! pi = CHR ''*'' then wloop p s (pi + 1) si si (Some pi)
      else if p ! pi \<noteq> s ! si then
        (case star of
           Some k \<Rightarrow> wloop p s (k + 1) (lastStar + 1) (lastStar + 1) star
         | None \<Rightarrow> Some False)
      else wloop p s (pi + 1) (si + 1) lastStar star)"

definition matchByString :: "string \<Rightarrow> string \<Rightarrow> bool option" where
  "matchByString pattern s = wloop pattern s 0 0 0 None"

definition wildcard_Match :: "string \<Rightarrow> string \<Rightarrow> bool option" where
  "wildcard_Match pattern s =
     (if pattern = '''' then Some (s = pattern)
      else if pattern = ''*'' \<or> s = pattern then Some True
      else matchByString pattern s)"

section \<open>The specification\<close>

fun wmatch :: "string \<Rightarrow> string \<Rightarrow> bool" where
  "wmatch [] s \<longleftrightarrow> s = []"
| "wmatch (x # p) [] \<longleftrightarrow> x = CHR ''*'' \<and> wmatch p []"
| "wmatch (x # p) (c # s) \<longleftrightarrow>
     (if x = CHR ''*'' then wmatch p (c # s) \<or> wmatch (x # p) s
      else (x = CHR ''?'' \<or> x = c) \<and> wmatch p s)"

declare checkPattern.simps [simp del]

lemma checkPattern_wmatch: "checkPattern p pi \<longleftrightarrow> pi \<le> length p \<and> wmatch (drop pi p) []"
proof (induction p pi rule: checkPattern.induct)
  case (1 p pi)
  show ?case
  proof (cases "pi < length p")
    case True
    then have "drop pi p = p ! pi # drop (Suc pi) p" by (rule drop_eq_Cons_nth)
    with 1 True show ?thesis by (subst checkPattern.simps) auto
  next
    case False
    then show ?thesis by (subst checkPattern.simps) auto
  qed
qed

lemma ex_le_Suc_shift: "(\<exists>j \<le> Suc n. P j) \<longleftrightarrow> P 0 \<or> (\<exists>j \<le> n. P (Suc j))"
  by (metis Suc_le_mono le0 not0_implies_Suc)

lemma wmatch_star: "wmatch (CHR ''*'' # p) s \<longleftrightarrow> (\<exists>j \<le> length s. wmatch p (drop j s))"
proof (induction s)
  case Nil
  then show ?case by simp
next
  case (Cons c s)
  have "(\<exists>j \<le> Suc (length s). wmatch p (drop j (c # s))) \<longleftrightarrow>
        wmatch p (c # s) \<or> (\<exists>j \<le> length s. wmatch p (drop j s))"
    by (simp only: ex_le_Suc_shift) simp
  with Cons show ?case by simp
qed

lemma wmatch_star_from:
  assumes "si \<le> length s"
  shows "wmatch (CHR ''*'' # p) (drop si s) \<longleftrightarrow>
    (\<exists>j. si \<le> j \<and> j \<le> length s \<and> wmatch p (drop j s))"
proof
  assume "wmatch (CHR ''*'' # p) (drop si s)"
  then obtain j where "j \<le> length s - si" "wmatch p (drop (j + si) s)"
    by (auto simp: wmatch_star)
  then show "\<exists>j. si \<le> j \<and> j \<le> length s \<and> wmatch p (drop j s)"
    using assms by (intro exI[of _ "j + si"]) simp
next
  assume "\<exists>j. si \<le> j \<and> j \<le> length s \<and> wmatch p (drop j s)"
  then obtain j where "si \<le> j" "j \<le> length s" "wmatch p (drop j s)" by blast
  then show "wmatch (CHR ''*'' # p) (drop si s)"
    unfolding wmatch_star by (intro exI[of _ "j - si"]) simp
qed

text \<open>A star-free segment consumes exactly one byte per pattern byte.\<close>

lemma wmatch_seg:
  assumes "CHR ''*'' \<notin> set g" and "wmatch (g @ q) s"
  shows "length g \<le> length s \<and> wmatch q (drop (length g) s)"
  using assms
proof (induction g arbitrary: s)
  case Nil
  then show ?case by simp
next
  case (Cons x g)
  then show ?case by (cases s) (auto split: if_splits)
qed


text \<open>
  The invariant of the loop. The star, if any, is at a position before \<open>pi\<close>; between it and
  \<open>pi\<close> the pattern has no star, and that segment has consumed the bytes of the string from
  \<open>lastStar\<close> to \<open>si\<close>.
\<close>

definition loop_inv :: "string \<Rightarrow> string \<Rightarrow> nat \<Rightarrow> nat \<Rightarrow> nat \<Rightarrow> nat option \<Rightarrow> bool" where
  "loop_inv p s pi si ls star \<longleftrightarrow> pi \<le> length p \<and> si \<le> length s \<and>
     (case star of None \<Rightarrow> True
      | Some k \<Rightarrow> k < pi \<and> ls + (pi - Suc k) = si \<and>
          (\<exists>g. drop (Suc k) p = g @ drop pi p \<and> length g = pi - Suc k \<and> CHR ''*'' \<notin> set g))"

text \<open>What the loop still has to decide: the rest matches here, or from a later restart.\<close>

definition loop_spec :: "string \<Rightarrow> string \<Rightarrow> nat \<Rightarrow> nat \<Rightarrow> nat \<Rightarrow> nat option \<Rightarrow> bool" where
  "loop_spec p s pi si ls star \<longleftrightarrow> wmatch (drop pi p) (drop si s) \<or>
     (case star of None \<Rightarrow> False
      | Some k \<Rightarrow> \<exists>j. ls < j \<and> j \<le> length s \<and> wmatch (drop (Suc k) p) (drop j s))"

lemma inv_restart:
  assumes "loop_inv p s pi si ls (Some k)" and "si < length s"
  shows "loop_inv p s (Suc k) (Suc ls) (Suc ls) (Some k)"
  using assms by (auto simp: loop_inv_def)

lemma spec_restart:
  assumes "loop_inv p s pi si ls (Some k)" and "si < length s"
    and "\<not> wmatch (drop pi p) (drop si s)"
  shows "loop_spec p s (Suc k) (Suc ls) (Suc ls) (Some k) = loop_spec p s pi si ls (Some k)"
proof -
  have "ls < length s" using assms(1,2) by (auto simp: loop_inv_def)
  then have "(\<exists>j. ls < j \<and> j \<le> length s \<and> Q j) \<longleftrightarrow>
      Q (Suc ls) \<or> (\<exists>j. Suc ls < j \<and> j \<le> length s \<and> Q j)" for Q
    by (metis Suc_leI Suc_lessD Suc_lessI lessI)
  from this[of "\<lambda>j. wmatch (drop (Suc k) p) (drop j s)"] show ?thesis
    using assms(3) by (simp add: loop_spec_def)
qed

text \<open>A later restart of an old star is covered by the choices of a newer one.\<close>

lemma spec_new_star:
  assumes inv: "loop_inv p s pi si ls star" and "si < length s" and "pi < length p"
    and star: "p ! pi = CHR ''*''"
  shows "loop_spec p s (pi + 1) si si (Some pi) = loop_spec p s pi si ls star"
proof -
  have dp: "drop pi p = CHR ''*'' # drop (Suc pi) p"
    using assms(3) star by (metis drop_eq_Cons_nth)
  have new: "loop_spec p s (pi + 1) si si (Some pi) = wmatch (drop pi p) (drop si s)"
    unfolding dp using assms(2)
    by (auto simp: loop_spec_def wmatch_star_from order_le_less)
  have "wmatch (drop pi p) (drop si s)"
    if k: "star = Some k" and j: "ls < j" "j \<le> length s" and
      m: "wmatch (drop (Suc k) p) (drop j s)" for k j
  proof -
    from inv k obtain g where g: "drop (Suc k) p = g @ drop pi p" "CHR ''*'' \<notin> set g"
      and l: "length g = pi - Suc k" "ls + (pi - Suc k) = si"
      by (auto simp: loop_inv_def)
    from wmatch_seg[OF g(2), of "drop pi p" "drop j s"] m g(1)
    have w: "length g \<le> length s - j \<and> wmatch (drop pi p) (drop (length g + j) s)" by simp
    then have "length g + j \<le> length s" using j(2) by linarith
    with w obtain i where "length g + j \<le> i" "i \<le> length s" "wmatch (drop (Suc pi) p) (drop i s)"
      unfolding dp by (auto simp: wmatch_star_from)
    moreover have "si \<le> length g + j" using l j(1) by simp
    ultimately show ?thesis
      using assms(2) unfolding dp by (auto simp: wmatch_star_from intro!: exI[of _ i])
  qed
  with new show ?thesis by (auto simp: loop_spec_def split: option.splits)
qed


lemma inv_advance:
  assumes "loop_inv p s pi si ls star" and "si < length s" and "pi < length p"
    and "p ! pi \<noteq> CHR ''*''"
  shows "loop_inv p s (pi + 1) (si + 1) ls star"
proof (cases star)
  case None
  with assms show ?thesis by (simp add: loop_inv_def)
next
  case (Some k)
  with assms(1) obtain g where g: "drop (Suc k) p = g @ drop pi p" "length g = pi - Suc k"
      "CHR ''*'' \<notin> set g" and k: "k < pi" "ls + (pi - Suc k) = si"
    by (auto simp: loop_inv_def)
  have "drop (Suc k) p = (g @ [p ! pi]) @ drop (Suc pi) p"
    using g(1) drop_eq_Cons_nth[OF assms(3)] by simp
  moreover have "length (g @ [p ! pi]) = Suc pi - Suc k" using g(2) k(1) by simp
  moreover have "CHR ''*'' \<notin> set (g @ [p ! pi])" using g(3) assms(4) by auto
  ultimately show ?thesis using Some k assms(2,3) by (auto simp: loop_inv_def)
qed

lemma spec_advance:
  assumes "si < length s" and "pi < length p" and "p ! pi \<noteq> CHR ''*''"
    and "p ! pi = CHR ''?'' \<or> p ! pi = s ! si"
  shows "loop_spec p s (pi + 1) (si + 1) ls star = loop_spec p s pi si ls star"
  using assms by (auto simp: loop_spec_def drop_eq_Cons_nth)

lemma spec_stuck:
  assumes "si < length s" and "pi < length p \<Longrightarrow>
     p ! pi \<noteq> CHR ''*'' \<and> p ! pi \<noteq> CHR ''?'' \<and> p ! pi \<noteq> s ! si"
  shows "\<not> wmatch (drop pi p) (drop si s)"
  using assms by (cases "pi < length p") (auto simp: drop_eq_Cons_nth)

text \<open>At the end of the string no later restart has room left for the segment.\<close>

lemma spec_end:
  assumes inv: "loop_inv p s pi si ls star" and "\<not> si < length s"
  shows "loop_spec p s pi si ls star = wmatch (drop pi p) []"
proof -
  have "False" if "star = Some k" "ls < j" "j \<le> length s" "wmatch (drop (Suc k) p) (drop j s)" for k j
  proof -
    from inv that(1) obtain g where g: "drop (Suc k) p = g @ drop pi p" "length g = pi - Suc k"
        "CHR ''*'' \<notin> set g" "ls + (pi - Suc k) = si" "si \<le> length s"
      by (auto simp: loop_inv_def)
    from wmatch_seg[OF g(3), of "drop pi p" "drop j s"] that(4) g(1)
    have "length g \<le> length s - j" by simp
    with g that(2,3) assms(2) show False by linarith
  qed
  with assms show ?thesis by (auto simp: loop_spec_def loop_inv_def split: option.splits)
qed

text \<open>
  The rank that every turn of the loop lowers: a newer star, a later restart, or progress in
  the string, in this order.
\<close>

definition rank :: "string \<Rightarrow> string \<Rightarrow> ((nat \<times> nat \<times> nat \<times> nat option) \<times>
    (nat \<times> nat \<times> nat \<times> nat option)) set" where
  "rank p s = measures
     [\<lambda>(pi, si, ls, star). case star of None \<Rightarrow> length p + 1 | Some k \<Rightarrow> length p - k,
      \<lambda>(pi, si, ls, star). length s - ls,
      \<lambda>(pi, si, ls, star). length s - si]"

lemma wf_rank: "wf (rank p s)"
  by (simp add: rank_def)

lemma wloop_correct:
  "loop_inv p s pi si ls star \<Longrightarrow> wloop p s pi si ls star = Some (loop_spec p s pi si ls star)"
proof (induction "(pi, si, ls, star)" arbitrary: pi si ls star
    rule: wf_induct_rule[OF wf_rank[of p s]])
  case (1 pi si ls star)
  note inv = "1.prems"
  have restart: "wloop p s (k + 1) (ls + 1) (ls + 1) (Some k) = Some (loop_spec p s pi si ls (Some k))"
    if "star = Some k" "si < length s" "\<not> wmatch (drop pi p) (drop si s)" for k
  proof -
    have "loop_inv p s pi si ls (Some k)" using inv that by simp
    moreover from this have "ls < length s" using that by (auto simp: loop_inv_def)
    ultimately show ?thesis using that
      by (subst "1.hyps")
        (auto simp: rank_def simp flip: Suc_eq_plus1 dest: inv_restart spec_restart)
  qed
  show ?case
  proof (cases "si < length s")
    case False
    then show ?thesis using inv
      by (subst wloop.simps)
        (auto simp: checkPattern_wmatch spec_end loop_inv_def)
  next
    case si: True
    show ?thesis
    proof (cases "pi < length p \<longrightarrow> p ! pi \<noteq> CHR ''*'' \<and> p ! pi \<noteq> CHR ''?'' \<and> p ! pi \<noteq> s ! si")
      case True
      with si have "\<not> wmatch (drop pi p) (drop si s)" using spec_stuck by blast
      with True si restart show ?thesis
        by (subst wloop.simps) (auto simp: loop_spec_def split: option.splits)
    next
      case False
      then have pi: "pi < length p" by blast
      show ?thesis
      proof (cases "p ! pi = CHR ''*''")
        case True
        moreover have "loop_inv p s (pi + 1) si si (Some pi)"
          using pi si by (auto simp: loop_inv_def)
        moreover have "((pi + 1, si, si, Some pi), (pi, si, ls, star)) \<in> rank p s"
          using inv pi by (auto simp: rank_def loop_inv_def split: option.splits)
        ultimately show ?thesis using si pi "1.hyps" spec_new_star[OF inv si pi]
          by (subst wloop.simps) simp
      next
        case ns: False
        have "((pi + 1, si + 1, ls, star), (pi, si, ls, star)) \<in> rank p s"
          using si by (auto simp: rank_def)
        with False ns pi si inv_advance[OF inv si pi ns] spec_advance[OF si pi ns]
        show ?thesis by (subst wloop.simps) (auto simp: "1.hyps")
      qed
    qed
  qed
qed

lemma wmatch_refl: "wmatch p p"
proof (induction p)
  case (Cons x p)
  then show ?case by (cases "x = CHR ''*''") (auto simp: wmatch_star intro: exI[of _ 1])
qed simp

lemma matchByString_correct: "matchByString p s = Some (wmatch p s)"
  by (simp add: matchByString_def wloop_correct loop_inv_def loop_spec_def)

text \<open>
  C34: The wildcard matcher terminates on every pattern and subject and decides exactly the
  recursive matching relation (a star matches any byte string, a question mark one byte): the
  backtracking to the last star only, and the three shortcuts of Match, lose no match.
\<close>

theorem wildcard_Match_correct: "wildcard_Match pattern s = Some (wmatch pattern s)"
proof -
  have "wmatch ''*'' s" unfolding wmatch_star by (intro exI[of _ "length s"]) simp
  then show ?thesis by (auto simp: wildcard_Match_def matchByString_correct wmatch_refl)
qed

end
