(* ===== verification/Rules.thy ===== *)
theory Rules imports Metadata IntRanges Wildcard begin

text \<open>
  rules/common, rules/logic and rules/provider: what each kind of routing rule matches. A rule is
  a value of the datatype \<open>rule\<close>, one constructor for each struct of the code, with the struct's
  fields. The data the rules read but do not own (sub-rule table, rule providers, regular
  expressions, GeoIP and GeoSite data, IDNA) is the record \<open>env\<close>.
\<close>

section \<open>The rule structs\<close>

datatype rule =
    RDomain string string
  | RDomainSuffix string string
  | RDomainKeyword string string
  | RDomainRegex string string
  | RDomainWildcard string string
  | RGEOSITE string string
  | RGEOIP string string bool bool
  | RASN string string bool bool
  | RIPCIDR prefix string bool bool
  | RIPSuffix bytes nat string string bool bool
  | RPort string string rule_type "u16 range list"
  | RDSCP "u8 range list" string string
  | RProcess string string bool bool
  | RNetworkType network string
  | RUid "u32 range list" string string
  | RInName "string list" string string
  | RInType "in_type list" string string
  | RInUser "string list" string string
  | RRuleSet string string bool bool
  | RMatch string
  | RLogic rule_type string string "rule list"

text \<open>
  The fields in order: GEOIP and ASN have (country or asn, adapter, noResolveIP, isSourceIP);
  IPCIDR (ipnet, adapter, isSourceIP, noResolveIP); IPSuffix (ipBytes, bits, payload, adapter,
  isSourceIP, noResolveIP); Process (adapter, process, nameOnly, whether regexp is set); RuleSet
  (ruleProviderName, adapter, isSrc, noResolveIP); Logic (ruleType, payload, adapter, rules), its
  \<open>subRules\<close> being the table of the environment, which every SUB-RULE of a configuration shares.
\<close>

fun RuleType :: "rule \<Rightarrow> rule_type" where
  "RuleType (RDomain d a) = Domain"
| "RuleType (RDomainSuffix d a) = DomainSuffix"
| "RuleType (RDomainKeyword d a) = DomainKeyword"
| "RuleType (RDomainRegex d a) = DomainRegex"
| "RuleType (RDomainWildcard d a) = DomainWildcard"
| "RuleType (RGEOSITE c a) = GEOSITE"
| "RuleType (RGEOIP c a nr src) = (if src then SrcGEOIP else GEOIP)"
| "RuleType (RASN c a nr src) = (if src then SrcIPASN else IPASN)"
| "RuleType (RIPCIDR p a src nr) = (if src then SrcIPCIDR else IPCIDR)"
| "RuleType (RIPSuffix bs n p a src nr) = (if src then SrcIPSuffix else IPSuffix)"
| "RuleType (RPort a p t rs) = t"
| "RuleType (RDSCP rs p a) = DSCP"
| "RuleType (RProcess a p nameOnly re) =
     (if nameOnly then (if re then ProcessNameRegex else ProcessName)
      else if re then ProcessPathRegex else ProcessPath)"
| "RuleType (RNetworkType n a) = Network"
| "RuleType (RUid rs o' a) = Uid"
| "RuleType (RInName ns a p) = InName"
| "RuleType (RInType ts a p) = InType"
| "RuleType (RInUser us a p) = InUser"
| "RuleType (RRuleSet n a src nr) = RuleSet"
| "RuleType (RMatch a) = MATCH"
| "RuleType (RLogic t p a rs) = t"

fun Adapter :: "rule \<Rightarrow> string" where
  "Adapter (RDomain d a) = a"
| "Adapter (RDomainSuffix d a) = a"
| "Adapter (RDomainKeyword d a) = a"
| "Adapter (RDomainRegex d a) = a"
| "Adapter (RDomainWildcard d a) = a"
| "Adapter (RGEOSITE c a) = a"
| "Adapter (RGEOIP c a nr src) = a"
| "Adapter (RASN c a nr src) = a"
| "Adapter (RIPCIDR p a src nr) = a"
| "Adapter (RIPSuffix bs n p a src nr) = a"
| "Adapter (RPort a p t rs) = a"
| "Adapter (RDSCP rs p a) = a"
| "Adapter (RProcess a p nameOnly re) = a"
| "Adapter (RNetworkType n a) = a"
| "Adapter (RUid rs o' a) = a"
| "Adapter (RInName ns a p) = a"
| "Adapter (RInType ts a p) = a"
| "Adapter (RInUser us a p) = a"
| "Adapter (RRuleSet n a src nr) = a"
| "Adapter (RMatch a) = a"
| "Adapter (RLogic t p a rs) = a"

text \<open>
  \<open>Payload\<close>; of a logic rule it is recomputed (once) from the nested rules, except for SUB-RULE.
\<close>

fun Payload :: "rule \<Rightarrow> string" where
  "Payload (RDomain d a) = d"
| "Payload (RDomainSuffix d a) = d"
| "Payload (RDomainKeyword d a) = d"
| "Payload (RDomainRegex d a) = d"
| "Payload (RDomainWildcard d a) = d"
| "Payload (RGEOSITE c a) = c"
| "Payload (RGEOIP c a nr src) = c"
| "Payload (RASN c a nr src) = c"
| "Payload (RIPCIDR p a src nr) = pfx_String p"
| "Payload (RIPSuffix bs n p a src nr) = p"
| "Payload (RPort a p t rs) = p"
| "Payload (RDSCP rs p a) = p"
| "Payload (RProcess a p nameOnly re) = p"
| "Payload (RNetworkType n a) = network_String n"
| "Payload (RUid rs o' a) = o'"
| "Payload (RInName ns a p) = p"
| "Payload (RInType ts a p) = p"
| "Payload (RInUser us a p) = p"
| "Payload (RRuleSet n a src nr) = n"
| "Payload (RMatch a) = ''''"
| "Payload (RLogic t p a rs) =
     (case t of
        NOT_t \<Rightarrow> (case rs of [] \<Rightarrow> p
          | r # _ \<Rightarrow> ''(!('' @ rule_type_String (RuleType r) @ '','' @ Payload r @ ''))'')
      | OR_t \<Rightarrow>
          ''('' @ Join (map (\<lambda>r. ''('' @ rule_type_String (RuleType r) @ '','' @ Payload r @ '')'') rs)
            '' || '' @ '')''
      | AND_t \<Rightarrow>
          ''('' @ Join (map (\<lambda>r. ''('' @ rule_type_String (RuleType r) @ '','' @ Payload r @ '')'') rs)
            '' && '' @ '')''
      | _ \<Rightarrow> p)"

fun ProviderNames :: "rule \<Rightarrow> string list" where
  "ProviderNames (RRuleSet n a src nr) = [n]"
| "ProviderNames (RLogic t p a rs) = concat (map ProviderNames rs)"
| "ProviderNames _ = []"

section \<open>What rules read\<close>

text \<open>
  The local state of one routing decision: the metadata the rules read and cache into, and the
  two flags captured by the closures of the match helper. A helper field that is nil in the code
  is \<open>None\<close> here.
\<close>

record mstate =
  ms_md :: metadata
  ms_resolved :: bool
  ms_attempt :: bool

record helper =
  h_ResolveIP :: "(mstate \<Rightarrow> mstate) option"
  h_FindProcess :: "(mstate \<Rightarrow> mstate) option"

definition call :: "(mstate \<Rightarrow> mstate) option \<Rightarrow> mstate \<Rightarrow> mstate" where
  "call f s = (case f of None \<Rightarrow> s | Some g \<Rightarrow> g s)"

text \<open>
  A rule provider by its strategy. The compiled domain set and the merged CIDR set are membership
  tests here.
\<close>

datatype strategy =
    Classical "rule list"
  | DomainStrategy "(string \<Rightarrow> bool) option"
  | IPCIDRStrategy "(addr \<Rightarrow> bool) option"
  | NilStrategy

record env =
  e_subRules :: "(string \<times> rule list) list"
  e_providers :: "string \<Rightarrow> strategy option"
  e_regex_ok :: "string \<Rightarrow> bool"
  e_regex_match :: "string \<Rightarrow> string \<Rightarrow> bool"
  e_ToASCII :: "string \<Rightarrow> string"
  e_GeodataMode :: bool
  e_InitGeoIP :: bool
  e_InitGeoSite :: bool
  e_InitASN :: bool
  e_geoip :: "string \<Rightarrow> (addr \<Rightarrow> bool) option"
  e_geosite :: "string \<Rightarrow> (string \<Rightarrow> bool) option"
  e_LookupCode :: "bytes \<Rightarrow> string list"
  e_LookupASN :: "bytes \<Rightarrow> string \<times> string"
  e_IsFakeBroadcastIP :: "addr \<Rightarrow> bool"
  e_uid_platform :: bool

definition sub_rules :: "env \<Rightarrow> string \<Rightarrow> rule list" where
  "sub_rules e name = (case map_of (e_subRules e) name of None \<Rightarrow> [] | Some rs \<Rightarrow> rs)"

section \<open>Matching of the leaf rules\<close>

datatype match_error = OutOfFuel | IndexOutOfRange

type_synonym mres = "match_error + (bool \<times> string \<times> mstate)"

definition isLan :: "env \<Rightarrow> addr \<Rightarrow> bool" where
  "isLan e ip \<longleftrightarrow>
     IsPrivate ip \<or> IsUnspecified ip \<or> IsLoopback ip \<or> IsMulticast ip \<or> IsLinkLocalUnicast ip \<or>
     e_IsFakeBroadcastIP e ip"

text \<open>The common prologue of the IP rules: resolve when allowed, then pick the address.\<close>

definition pick_ip :: "bool \<Rightarrow> mstate \<Rightarrow> addr" where
  "pick_ip src s = (if src then md_SrcIP (ms_md s) else md_DstIP (ms_md s))"

definition resolve_for :: "bool \<Rightarrow> bool \<Rightarrow> helper \<Rightarrow> mstate \<Rightarrow> mstate" where
  "resolve_for noResolve src h s = (if \<not> noResolve \<and> \<not> src then call (h_ResolveIP h) s else s)"

definition geo_cache :: "bool \<Rightarrow> mstate \<Rightarrow> string list option" where
  "geo_cache src s = (if src then md_SrcGeoIP (ms_md s) else md_DstGeoIP (ms_md s))"

definition set_geo_cache :: "bool \<Rightarrow> string list \<Rightarrow> mstate \<Rightarrow> mstate" where
  "set_geo_cache src codes s =
     (if src then s\<lparr>ms_md := (ms_md s)\<lparr>md_SrcGeoIP := Some codes\<rparr>\<rparr>
      else s\<lparr>ms_md := (ms_md s)\<lparr>md_DstGeoIP := Some codes\<rparr>\<rparr>)"

text \<open>A nil slice and an empty one are told apart only by the check for a cached lookup.\<close>

definition cached :: "string list option \<Rightarrow> string list" where
  "cached c = (case c of None \<Rightarrow> [] | Some xs \<Rightarrow> xs)"

definition geoip_Match ::
  "env \<Rightarrow> string \<Rightarrow> string \<Rightarrow> bool \<Rightarrow> bool \<Rightarrow> helper \<Rightarrow> mstate \<Rightarrow> bool \<times> string \<times> mstate" where
  "geoip_Match e country adapter noResolve src h s0 =
     (let s = resolve_for noResolve src h s0; ip = pick_ip src s in
      if \<not> IsValid ip then (False, '''', s)
      else if country = ''lan'' then (isLan e ip, adapter, s)
      else if e_GeodataMode e then
        (if country \<in> set (cached (geo_cache src s)) then (True, adapter, s)
         else case e_geoip e country of
           None \<Rightarrow> (False, '''', s)
         | Some matcher \<Rightarrow>
             if matcher ip
             then (True, adapter, set_geo_cache src (cached (geo_cache src s) @ [country]) s)
             else (False, adapter, s))
      else case geo_cache src s of
        Some codes \<Rightarrow> (country \<in> set codes, adapter, s)
      | None \<Rightarrow>
          let codes = e_LookupCode e (AsSlice ip); s' = set_geo_cache src codes s in
          if country \<in> set codes then (True, adapter, s') else (False, '''', s'))"

definition geoip_MatchIp :: "env \<Rightarrow> string \<Rightarrow> addr \<Rightarrow> bool" where
  "geoip_MatchIp e country ip =
     (if \<not> IsValid ip then False
      else if country = ''lan'' then isLan e ip
      else if e_GeodataMode e then
        (case e_geoip e country of None \<Rightarrow> False | Some matcher \<Rightarrow> matcher ip)
      else country \<in> set (e_LookupCode e (AsSlice ip)))"

definition dnsFallbackFilter_MatchIp :: "env \<Rightarrow> string \<Rightarrow> addr \<Rightarrow> bool" where
  "dnsFallbackFilter_MatchIp e country ip =
     (if \<not> IsValid ip then False
      else if isLan e ip then False
      else if e_GeodataMode e then
        (case e_geoip e country of None \<Rightarrow> False | Some matcher \<Rightarrow> \<not> matcher ip)
      else country \<notin> set (e_LookupCode e (AsSlice ip)))"

definition geosite_MatchDomain :: "env \<Rightarrow> string \<Rightarrow> string \<Rightarrow> bool" where
  "geosite_MatchDomain e country domain =
     (if length domain = 0 then False
      else case e_geosite e country of None \<Rightarrow> False | Some matcher \<Rightarrow> matcher domain)"

definition asn_Match ::
  "env \<Rightarrow> string \<Rightarrow> string \<Rightarrow> bool \<Rightarrow> bool \<Rightarrow> helper \<Rightarrow> mstate \<Rightarrow> bool \<times> string \<times> mstate" where
  "asn_Match e asn adapter noResolve src h s0 =
     (let s = resolve_for noResolve src h s0; ip = pick_ip src s in
      if \<not> IsValid ip then (False, '''', s)
      else
        let (asn', aso) = e_LookupASN e (AsSlice ip); text = asn' @ '' '' @ aso;
            m = ms_md s;
            m' = (if src then m\<lparr>md_SrcIPASN := text\<rparr> else m\<lparr>md_DstIPASN := text\<rparr>) in
        (asn = asn', adapter, s\<lparr>ms_md := m'\<rparr>))"

definition ipcidr_Match ::
  "prefix \<Rightarrow> string \<Rightarrow> bool \<Rightarrow> bool \<Rightarrow> helper \<Rightarrow> mstate \<Rightarrow> bool \<times> string \<times> mstate" where
  "ipcidr_Match ipnet adapter src noResolve h s0 =
     (let s = resolve_for noResolve src h s0; ip = pick_ip src s in
      (IsValid ip \<and> pfx_Contains ipnet (WithZone ip ''''), adapter, s))"

text \<open>
  IPSuffix. \<open>xs[size - k]\<close> with \<open>k > size\<close> is a negative index, which panics; a shift of a byte by
  eight gives zero.
\<close>

definition at_from_end :: "'a list \<Rightarrow> nat \<Rightarrow> 'a option" where
  "at_from_end xs k = (if 0 < k \<and> k \<le> length xs then Some (xs ! (length xs - k)) else None)"

fun suffix_loop :: "bytes \<Rightarrow> bytes \<Rightarrow> nat \<Rightarrow> match_error + bool" where
  "suffix_loop a b 0 = Inr True"
| "suffix_loop a b (Suc i) =
     (case (at_from_end a (Suc i), at_from_end b (Suc i)) of
        (Some x, Some y) \<Rightarrow> if x \<noteq> y then Inr False else suffix_loop a b i
      | _ \<Rightarrow> Inl IndexOutOfRange)"

definition suffix_bits_Match :: "bytes \<Rightarrow> nat \<Rightarrow> bytes \<Rightarrow> match_error + bool" where
  "suffix_bits_Match ipBytes bits mIPBytes =
     (if length ipBytes \<noteq> length mIPBytes then Inr False
      else case suffix_loop ipBytes mIPBytes (bits div 8) of
        Inl err \<Rightarrow> Inl err
      | Inr False \<Rightarrow> Inr False
      | Inr True \<Rightarrow>
          (case (at_from_end ipBytes (bits div 8 + 1), at_from_end mIPBytes (bits div 8 + 1)) of
             (Some x, Some y) \<Rightarrow>
               Inr (push_bit (8 - bits mod 8) x = push_bit (8 - bits mod 8) y)
           | _ \<Rightarrow> Inl IndexOutOfRange))"

definition ipsuffix_Match ::
  "bytes \<Rightarrow> nat \<Rightarrow> string \<Rightarrow> bool \<Rightarrow> bool \<Rightarrow> helper \<Rightarrow> mstate \<Rightarrow> mres" where
  "ipsuffix_Match ipBytes bits adapter src noResolve h s0 =
     (let s = resolve_for noResolve src h s0 in
      case suffix_bits_Match ipBytes bits (AsSlice (pick_ip src s)) of
        Inl err \<Rightarrow> Inl err
      | Inr m \<Rightarrow> Inr (m, if m then adapter else '''', s))"

definition port_Match :: "rule_type \<Rightarrow> u16 range list \<Rightarrow> metadata \<Rightarrow> bool" where
  "port_Match t ranges m =
     (let targetPort = (case t of InPort \<Rightarrow> md_InPort m | SrcPort \<Rightarrow> md_SrcPort m | _ \<Rightarrow> md_DstPort m) in
      ranges_Check ranges targetPort)"

definition process_Match ::
  "env \<Rightarrow> string \<Rightarrow> string \<Rightarrow> bool \<Rightarrow> bool \<Rightarrow> helper \<Rightarrow> mstate \<Rightarrow> bool \<times> string \<times> mstate" where
  "process_Match e adapter process nameOnly regex h s0 =
     (let s = call (h_FindProcess h) s0; m = ms_md s;
          subject = (if nameOnly then md_Process m else md_ProcessPath m) in
      (if regex then e_regex_match e process subject else EqualFold subject process, adapter, s))"

definition uid_Match :: "u32 range list \<Rightarrow> string \<Rightarrow> helper \<Rightarrow> mstate \<Rightarrow> bool \<times> string \<times> mstate" where
  "uid_Match uids adapter h s0 =
     (let s = call (h_FindProcess h) s0; u = md_Uid (ms_md s) in
      if u \<noteq> 0 \<and> ranges_Check uids u then (True, adapter, s) else (False, '''', s))"

definition domain_Match :: "string \<Rightarrow> metadata \<Rightarrow> bool" where
  "domain_Match domain m \<longleftrightarrow> RuleHost m = domain"

definition domain_suffix_Match :: "string \<Rightarrow> metadata \<Rightarrow> bool" where
  "domain_suffix_Match suffix m \<longleftrightarrow> HasSuffix (RuleHost m) (CHR ''.'' # suffix) \<or> RuleHost m = suffix"

definition domain_keyword_Match :: "string \<Rightarrow> metadata \<Rightarrow> bool" where
  "domain_keyword_Match keyword m \<longleftrightarrow> Contains (RuleHost m) keyword"

definition domain_regex_Match :: "env \<Rightarrow> string \<Rightarrow> metadata \<Rightarrow> bool" where
  "domain_regex_Match e regex m \<longleftrightarrow> e_regex_match e regex (RuleHost m)"

definition domain_wildcard_Match :: "string \<Rightarrow> metadata \<Rightarrow> bool" where
  "domain_wildcard_Match pattern m \<longleftrightarrow> wildcard_Match pattern (md_Host m) = Some True"

definition geosite_Match :: "env \<Rightarrow> string \<Rightarrow> metadata \<Rightarrow> bool" where
  "geosite_Match e country m \<longleftrightarrow> geosite_MatchDomain e country (RuleHost m)"

definition dscp_Match :: "u8 range list \<Rightarrow> metadata \<Rightarrow> bool" where
  "dscp_Match ranges m \<longleftrightarrow> ranges_Check ranges (md_DSCP m)"

definition network_Match :: "network \<Rightarrow> metadata \<Rightarrow> bool" where
  "network_Match network m \<longleftrightarrow> network = md_NetWork m"

text \<open>A match that names its adapter only when it succeeds.\<close>

definition listed :: "bool \<Rightarrow> string \<Rightarrow> mstate \<Rightarrow> bool \<times> string \<times> mstate" where
  "listed found adapter s = (if found then (True, adapter, s) else (False, '''', s))"

definition in_name_Match :: "string list \<Rightarrow> string \<Rightarrow> mstate \<Rightarrow> bool \<times> string \<times> mstate" where
  "in_name_Match names adapter s = listed (md_InName (ms_md s) \<in> set names) adapter s"

definition in_type_Match :: "in_type list \<Rightarrow> string \<Rightarrow> mstate \<Rightarrow> bool \<times> string \<times> mstate" where
  "in_type_Match types adapter s = listed (md_Type (ms_md s) \<in> set types) adapter s"

definition in_user_Match :: "string list \<Rightarrow> string \<Rightarrow> mstate \<Rightarrow> bool \<times> string \<times> mstate" where
  "in_user_Match users adapter s = listed (md_InUser (ms_md s) \<in> set users) adapter s"

section \<open>Matching\<close>

text \<open>
  \<open>r_Match\<close> is the \<open>Match\<close> method of every rule; \<open>or_loop\<close>, \<open>and_loop\<close> are the loops of the
  logic rules (\<open>or_loop\<close> also that of a classical rule set) and \<open>matchSubRules\<close> the walk of a
  sub-rule list. Nested rules are structurally smaller; following a sub-rule name or a rule set
  name into its table is the only recursion that is not, and costs one unit of fuel. With no fuel
  left the result is \<open>Inl OutOfFuel\<close>: the code recurses there without a bound.
\<close>

function (sequential)
  r_Match :: "env \<Rightarrow> nat \<Rightarrow> helper \<Rightarrow> rule \<Rightarrow> mstate \<Rightarrow> mres" and
  or_loop :: "env \<Rightarrow> nat \<Rightarrow> helper \<Rightarrow> rule list \<Rightarrow> mstate \<Rightarrow> match_error + (bool \<times> mstate)" and
  and_loop :: "env \<Rightarrow> nat \<Rightarrow> helper \<Rightarrow> rule list \<Rightarrow> mstate \<Rightarrow> match_error + (bool \<times> mstate)" and
  matchSubRules :: "env \<Rightarrow> nat \<Rightarrow> helper \<Rightarrow> rule list \<Rightarrow> mstate \<Rightarrow> mres"
where
  "r_Match e n h (RDomain domain a) s = Inr (domain_Match domain (ms_md s), a, s)"
| "r_Match e n h (RDomainSuffix suffix a) s = Inr (domain_suffix_Match suffix (ms_md s), a, s)"
| "r_Match e n h (RDomainKeyword keyword a) s = Inr (domain_keyword_Match keyword (ms_md s), a, s)"
| "r_Match e n h (RDomainRegex regex a) s = Inr (domain_regex_Match e regex (ms_md s), a, s)"
| "r_Match e n h (RDomainWildcard pattern a) s = Inr (domain_wildcard_Match pattern (ms_md s), a, s)"
| "r_Match e n h (RGEOSITE country a) s = Inr (geosite_Match e country (ms_md s), a, s)"
| "r_Match e n h (RGEOIP country a noResolve src) s = Inr (geoip_Match e country a noResolve src h s)"
| "r_Match e n h (RASN asn a noResolve src) s = Inr (asn_Match e asn a noResolve src h s)"
| "r_Match e n h (RIPCIDR p a src noResolve) s = Inr (ipcidr_Match p a src noResolve h s)"
| "r_Match e n h (RIPSuffix bs bits p a src noResolve) s = ipsuffix_Match bs bits a src noResolve h s"
| "r_Match e n h (RPort a p t ranges) s = Inr (port_Match t ranges (ms_md s), a, s)"
| "r_Match e n h (RDSCP ranges p a) s = Inr (dscp_Match ranges (ms_md s), a, s)"
| "r_Match e n h (RProcess a p nameOnly regex) s = Inr (process_Match e a p nameOnly regex h s)"
| "r_Match e n h (RNetworkType network a) s = Inr (network_Match network (ms_md s), a, s)"
| "r_Match e n h (RUid uids p a) s = Inr (uid_Match uids a h s)"
| "r_Match e n h (RInName names a p) s = Inr (in_name_Match names a s)"
| "r_Match e n h (RInType types a p) s = Inr (in_type_Match types a s)"
| "r_Match e n h (RInUser users a p) s = Inr (in_user_Match users a s)"
| "r_Match e n h (RRuleSet name a src noResolve) s =
     (case e_providers e name of
        None \<Rightarrow> Inr (False, '''', s)
      | Some p \<Rightarrow>
          let h' = (if src \<or> noResolve then h\<lparr>h_ResolveIP := None\<rparr> else h);
              s1 = (if src then s\<lparr>ms_md := SwapSrcDst (ms_md s)\<rparr> else s);
              back = (\<lambda>t. if src then t\<lparr>ms_md := SwapSrcDst (ms_md t)\<rparr> else t) in
          case p of
            NilStrategy \<Rightarrow> Inr (False, a, back s1)
          | DomainStrategy ds \<Rightarrow>
              Inr ((case ds of None \<Rightarrow> False | Some has \<Rightarrow> has (RuleHost (ms_md s1))), a, back s1)
          | IPCIDRStrategy cs \<Rightarrow>
              let s2 = call (h_ResolveIP h') s1 in
              Inr ((case cs of None \<Rightarrow> False | Some has \<Rightarrow> has (md_DstIP (ms_md s2))), a, back s2)
          | Classical rs \<Rightarrow>
              (case n of
                 0 \<Rightarrow> Inl OutOfFuel
               | Suc n' \<Rightarrow>
                   (case or_loop e n' h' rs s1 of
                      Inl err \<Rightarrow> Inl err
                    | Inr (m, s2) \<Rightarrow> Inr (m, a, back s2))))"
| "r_Match e n h (RMatch a) s = Inr (True, a, s)"
| "r_Match e n h (RLogic t p a rs) s =
     (case t of
        SubRules \<Rightarrow>
          (case rs of
             [] \<Rightarrow> Inl IndexOutOfRange
           | r # _ \<Rightarrow>
               (case r_Match e n h r s of
                  Inl err \<Rightarrow> Inl err
                | Inr (m, _, s1) \<Rightarrow>
                    if m then (case n of 0 \<Rightarrow> Inl OutOfFuel
                               | Suc n' \<Rightarrow> matchSubRules e n' h (sub_rules e a) s1)
                    else Inr (False, '''', s1)))
      | NOT_t \<Rightarrow>
          (case rs of
             [] \<Rightarrow> Inl IndexOutOfRange
           | r # _ \<Rightarrow>
               (case r_Match e n h r s of
                  Inl err \<Rightarrow> Inl err
                | Inr (m, _, s1) \<Rightarrow> Inr (listed (\<not> m) a s1)))
      | OR_t \<Rightarrow>
          (case or_loop e n h rs s of Inl err \<Rightarrow> Inl err | Inr (m, s1) \<Rightarrow> Inr (listed m a s1))
      | AND_t \<Rightarrow>
          (case and_loop e n h rs s of Inl err \<Rightarrow> Inl err | Inr (m, s1) \<Rightarrow> Inr (m, a, s1))
      | _ \<Rightarrow> Inr (False, '''', s))"
| "or_loop e n h [] s = Inr (False, s)"
| "or_loop e n h (r # rs) s =
     (case r_Match e n h r s of
        Inl err \<Rightarrow> Inl err
      | Inr (m, _, s1) \<Rightarrow> if m then Inr (True, s1) else or_loop e n h rs s1)"
| "and_loop e n h [] s = Inr (True, s)"
| "and_loop e n h (r # rs) s =
     (case r_Match e n h r s of
        Inl err \<Rightarrow> Inl err
      | Inr (m, _, s1) \<Rightarrow> if \<not> m then Inr (False, s1) else and_loop e n h rs s1)"
| "matchSubRules e n h [] s = Inr (False, '''', s)"
| "matchSubRules e n h (r # rs) s =
     (case r_Match e n h r s of
        Inl err \<Rightarrow> Inl err
      | Inr (m, a, s1) \<Rightarrow>
          if m then
            (if RuleType r = SubRules
             then (case n of 0 \<Rightarrow> Inl OutOfFuel
                   | Suc n' \<Rightarrow> matchSubRules e n' h (sub_rules e (Adapter r)) s1)
             else Inr (m, a, s1))
          else matchSubRules e n h rs s1)"
  by pat_completeness auto
termination
  by (relation "measures
        [\<lambda>x. case x of Inl (Inl (e, n, h, r, s)) \<Rightarrow> n | Inl (Inr (e, n, h, rs, s)) \<Rightarrow> n
           | Inr (Inl (e, n, h, rs, s)) \<Rightarrow> n | Inr (Inr (e, n, h, rs, s)) \<Rightarrow> n,
         \<lambda>x. case x of Inl (Inl (e, n, h, r, s)) \<Rightarrow> size r | Inl (Inr (e, n, h, rs, s)) \<Rightarrow> size_list size rs
           | Inr (Inl (e, n, h, rs, s)) \<Rightarrow> size_list size rs | Inr (Inr (e, n, h, rs, s)) \<Rightarrow> size_list size rs]")
    auto

end
