(* ===== verification/RuleParser.thy ===== *)
theory RuleParser imports Rules begin

text \<open>
  rules/parser.go, rules/common/base.go and the parsing half of rules/logic/logic.go: from the
  text of a rule to a \<open>rule\<close>. Logic rules contain rules in brackets, so \<open>ParseRule\<close>,
  \<open>payloadToRule\<close> and \<open>parsePayload\<close> call each other; the nested text is always shorter.
\<close>

section \<open>base.go\<close>

definition ParseParams :: "string list \<Rightarrow> bool \<times> bool" where
  "ParseParams params =
     (let isSrc = ''src'' \<in> set params in
      (isSrc, if isSrc then True else ''no-resolve'' \<in> set params))"

definition trimArr :: "string list \<Rightarrow> string list" where
  "trimArr arr = map (\<lambda>e. Trim e '' '') arr"

definition comma_payload :: "string list" where
  "comma_payload = [''NOT'', ''OR'', ''AND'', ''SUB-RULE'', ''DOMAIN-REGEX'', ''PROCESS-NAME-REGEX'',
     ''PROCESS-PATH-REGEX'']"

definition ParseRulePayload ::
  "string \<Rightarrow> bool \<Rightarrow> string \<times> string \<times> string \<times> string list" where
  "ParseRulePayload ruleRaw needTarget =
     (let item = trimArr (Split ruleRaw CHR '',''); tp = ToUpper (hd item) in
      if length item > 1 then
        (if tp = ''MATCH'' then (tp, '''', item ! 1, [])
         else if tp \<in> set comma_payload then
           (let target = (if needTarget then last item else '''');
                item' = (if needTarget then butlast item else item) in
            (tp, Join (tl item') '','', target, []))
         else if length item > 2 then
           (if needTarget then (tp, item ! 1, item ! 2, drop 3 item)
            else (tp, item ! 1, '''', drop 2 item))
         else (tp, item ! 1, '''', []))
      else (tp, '''', '''', []))"

section \<open>The bracket structure of a logic payload\<close>

record brange =
  b_start :: nat
  b_end :: nat
  b_index :: nat

definition containRange :: "brange \<Rightarrow> nat \<Rightarrow> nat \<Rightarrow> bool" where
  "containRange r preStart preEnd \<longleftrightarrow> preStart < b_start r \<and> preEnd > b_end r"

datatype parse_error = MissingOpen | MissingClose | PayloadFormat | UnsupportedOnLogic string
  | FormatError string | MissingParameters string | UnsupportedRule string | OneRule
  | RegexError | ErrPayload | DSCPRange | EmptyName | BadInType | BadNetwork | NoGeoData
  | UidPlatform

text \<open>The loop of \<open>format\<close>: position, stack (top first), number of opened brackets, closed ranges.\<close>

fun format_loop ::
  "nat \<Rightarrow> brange list \<Rightarrow> nat \<Rightarrow> brange list \<Rightarrow> string \<Rightarrow> parse_error + (brange list \<times> brange list)" where
  "format_loop i stack num subRanges [] = Inr (stack, subRanges)"
| "format_loop i stack num subRanges (c # cs) =
     (if c = CHR ''('' then
        format_loop (i + 1) (\<lparr>b_start = i, b_end = 0, b_index = num\<rparr> # stack) (num + 1) subRanges cs
      else if c = CHR '')'' then
        (case stack of
           [] \<Rightarrow> Inl MissingOpen
         | sr # stack' \<Rightarrow> format_loop (i + 1) stack' num (subRanges @ [sr\<lparr>b_end := i\<rparr>]) cs)
      else format_loop (i + 1) stack num subRanges cs)"

definition format_payload :: "string \<Rightarrow> parse_error + brange list" where
  "format_payload payload =
     (case format_loop 0 [] 0 [] payload of
        Inl err \<Rightarrow> Inl err
      | Inr (stack, subRanges) \<Rightarrow>
          if stack \<noteq> [] then Inl MissingClose
          else Inr (fold (\<lambda>sr res. res[b_index sr := sr]) subRanges
                 (replicate (length subRanges) \<lparr>b_start = 0, b_end = 0, b_index = 0\<rparr>)))"

fun sub_range_loop :: "nat \<Rightarrow> brange list \<Rightarrow> brange list \<Rightarrow> brange list" where
  "sub_range_loop payloadLen found [] = found"
| "sub_range_loop payloadLen found (rr # rrs) =
     (if b_start rr = 0 \<and> b_end rr + 1 = payloadLen then sub_range_loop payloadLen found rrs
      else if list_ex (\<lambda>r. containRange rr (b_start r) (b_end r)) found
      then sub_range_loop payloadLen found rrs
      else sub_range_loop payloadLen (found @ [rr]) rrs)"

definition findSubRuleRange :: "string \<Rightarrow> brange list \<Rightarrow> brange list" where
  "findSubRuleRange payload ruleRanges = sub_range_loop (length payload) [] ruleRanges"

text \<open>\<open>payload[start+1 : end]\<close>, and the test that some line has a \<open>(\<close> with a \<open>)\<close> after it.\<close>

definition sub_text :: "string \<Rightarrow> brange \<Rightarrow> string" where
  "sub_text payload r = take (b_end r - (b_start r + 1)) (drop (b_start r + 1) payload)"

definition has_brackets :: "string \<Rightarrow> bool" where
  "has_brackets payload =
     list_ex (\<lambda>line. CHR '')'' \<in> set (dropWhile (\<lambda>c. c \<noteq> CHR ''('') line))
       (Split payload (CHR 0x0A))"

definition sub_payloads :: "string \<Rightarrow> parse_error + string list" where
  "sub_payloads payload =
     (if has_brackets payload then
        (case format_payload payload of
           Inl err \<Rightarrow> Inl err
         | Inr subAllRanges \<Rightarrow> Inr (map (sub_text payload) (findSubRuleRange payload subAllRanges)))
      else Inl PayloadFormat)"

section \<open>The constructors of the leaf rules\<close>

definition NewDomain :: "env \<Rightarrow> string \<Rightarrow> string \<Rightarrow> rule" where
  "NewDomain e domain adapter = RDomain (e_ToASCII e (ToLower domain)) adapter"

definition NewDomainSuffix :: "env \<Rightarrow> string \<Rightarrow> string \<Rightarrow> rule" where
  "NewDomainSuffix e suffix adapter = RDomainSuffix (e_ToASCII e (ToLower suffix)) adapter"

definition NewDomainKeyword :: "env \<Rightarrow> string \<Rightarrow> string \<Rightarrow> rule" where
  "NewDomainKeyword e keyword adapter = RDomainKeyword (e_ToASCII e (ToLower keyword)) adapter"

definition NewDomainRegex :: "env \<Rightarrow> string \<Rightarrow> string \<Rightarrow> parse_error + rule" where
  "NewDomainRegex e regex adapter =
     (if e_regex_ok e regex then Inr (RDomainRegex regex adapter) else Inl RegexError)"

definition NewDomainWildcard :: "string \<Rightarrow> string \<Rightarrow> parse_error + rule" where
  "NewDomainWildcard pattern adapter = Inr (RDomainWildcard (ToLower pattern) adapter)"

definition NewGEOSITE :: "env \<Rightarrow> string \<Rightarrow> string \<Rightarrow> parse_error + rule" where
  "NewGEOSITE e country adapter =
     (if \<not> e_InitGeoSite e then Inl NoGeoData
      else case e_geosite e country of None \<Rightarrow> Inl NoGeoData | Some _ \<Rightarrow> Inr (RGEOSITE country adapter))"

definition NewGEOIP :: "env \<Rightarrow> string \<Rightarrow> string \<Rightarrow> bool \<Rightarrow> bool \<Rightarrow> parse_error + rule" where
  "NewGEOIP e country0 adapter isSrc noResolveIP =
     (let country = ToLower country0; geoip = RGEOIP country adapter noResolveIP isSrc in
      if country = ''lan'' then Inr geoip
      else if \<not> e_InitGeoIP e then Inl NoGeoData
      else if e_GeodataMode e \<and> e_geoip e country = None then Inl NoGeoData
      else Inr geoip)"

definition NewIPASN :: "env \<Rightarrow> string \<Rightarrow> string \<Rightarrow> bool \<Rightarrow> bool \<Rightarrow> parse_error + rule" where
  "NewIPASN e asn adapter isSrc noResolveIP =
     (if e_InitASN e then Inr (RASN asn adapter noResolveIP isSrc) else Inl NoGeoData)"

definition NewIPCIDR :: "string \<Rightarrow> string \<Rightarrow> bool \<Rightarrow> bool \<Rightarrow> parse_error + rule" where
  "NewIPCIDR s adapter isSrc noResolve =
     (case ParsePrefix s of None \<Rightarrow> Inl ErrPayload | Some p \<Rightarrow> Inr (RIPCIDR p adapter isSrc noResolve))"

definition NewIPSuffix :: "string \<Rightarrow> string \<Rightarrow> bool \<Rightarrow> bool \<Rightarrow> parse_error + rule" where
  "NewIPSuffix payload adapter isSrc noResolveIP =
     (case ParsePrefix payload of
        None \<Rightarrow> Inl ErrPayload
      | Some p \<Rightarrow> Inr (RIPSuffix (AsSlice (pfx_addr p)) (pfx_bits p) payload adapter isSrc noResolveIP))"

definition NewPort :: "string \<Rightarrow> string \<Rightarrow> rule_type \<Rightarrow> parse_error + rule" where
  "NewPort port adapter t =
     (case NewUnsignedRanges port of
        Inl _ \<Rightarrow> Inl ErrPayload
      | Inr ranges \<Rightarrow> if length ranges = 0 then Inl ErrPayload else Inr (RPort adapter port t ranges))"

definition NewDSCP :: "string \<Rightarrow> string \<Rightarrow> parse_error + rule" where
  "NewDSCP dscp adapter =
     (case NewUnsignedRanges dscp of
        Inl _ \<Rightarrow> Inl ErrPayload
      | Inr ranges \<Rightarrow>
          if list_ex (\<lambda>r. r_end r > 63) ranges then Inl DSCPRange else Inr (RDSCP ranges dscp adapter))"

definition NewProcess :: "env \<Rightarrow> string \<Rightarrow> string \<Rightarrow> bool \<Rightarrow> bool \<Rightarrow> parse_error + rule" where
  "NewProcess e process adapter nameOnly regex =
     (if regex \<and> \<not> e_regex_ok e process then Inl RegexError
      else Inr (RProcess adapter process nameOnly regex))"

definition NewNetworkType :: "string \<Rightarrow> string \<Rightarrow> parse_error + rule" where
  "NewNetworkType network adapter =
     (if ToUpper network = ''TCP'' then Inr (RNetworkType TCP adapter)
      else if ToUpper network = ''UDP'' then Inr (RNetworkType UDP adapter)
      else Inl BadNetwork)"

definition NewUid :: "env \<Rightarrow> string \<Rightarrow> string \<Rightarrow> parse_error + rule" where
  "NewUid e oUid adapter =
     (if \<not> e_uid_platform e then Inl UidPlatform
      else case NewUnsignedRanges oUid of
        Inl _ \<Rightarrow> Inl ErrPayload
      | Inr ranges \<Rightarrow> if length ranges = 0 then Inl ErrPayload else Inr (RUid ranges oUid adapter))"

text \<open>The shared head of \<open>NewInName\<close>, \<open>NewInUser\<close> and \<open>NewInType\<close>.\<close>

definition slash_names :: "string \<Rightarrow> string list option" where
  "slash_names s =
     (let names = map TrimSpace (Split s CHR ''/'') in
      if list_ex (\<lambda>n. length n = 0) names then None else Some names)"

definition NewInName :: "string \<Rightarrow> string \<Rightarrow> parse_error + rule" where
  "NewInName iNames adapter =
     (case slash_names iNames of None \<Rightarrow> Inl EmptyName | Some ns \<Rightarrow> Inr (RInName ns adapter iNames))"

definition NewInUser :: "string \<Rightarrow> string \<Rightarrow> parse_error + rule" where
  "NewInUser iUsers adapter =
     (case slash_names iUsers of None \<Rightarrow> Inl EmptyName | Some us \<Rightarrow> Inr (RInUser us adapter iUsers))"

fun parseInTypes :: "string list \<Rightarrow> in_type list option" where
  "parseInTypes [] = Some []"
| "parseInTypes (tp # tps) =
     (let utp = ToUpper tp in
      if utp = ''SOCKS'' then map_option (\<lambda>ts. SOCKS4 # SOCKS5 # ts) (parseInTypes tps)
      else case ParseType utp of
        None \<Rightarrow> None
      | Some r \<Rightarrow> map_option (Cons r) (parseInTypes tps))"

definition NewInType :: "string \<Rightarrow> string \<Rightarrow> parse_error + rule" where
  "NewInType iTypes adapter =
     (case slash_names iTypes of
        None \<Rightarrow> Inl EmptyName
      | Some ts \<Rightarrow>
          (case parseInTypes ts of
             None \<Rightarrow> Inl BadInType
           | Some tps \<Rightarrow> Inr (RInType tps adapter (ToUpper iTypes))))"

section \<open>ParseRule\<close>

text \<open>
  The rule kinds that need no recursion, in the order of the switch; \<open>None\<close> for the four logic
  kinds and for an unknown kind.
\<close>

definition parse_leaf ::
  "env \<Rightarrow> string \<Rightarrow> string \<Rightarrow> string \<Rightarrow> string list \<Rightarrow> (parse_error + rule) option" where
  "parse_leaf e tp payload target params =
     (let (isSrc, noResolve) = ParseParams params in
      if tp = ''DOMAIN'' then Some (Inr (NewDomain e payload target))
      else if tp = ''DOMAIN-SUFFIX'' then Some (Inr (NewDomainSuffix e payload target))
      else if tp = ''DOMAIN-KEYWORD'' then Some (Inr (NewDomainKeyword e payload target))
      else if tp = ''DOMAIN-REGEX'' then Some (NewDomainRegex e payload target)
      else if tp = ''DOMAIN-WILDCARD'' then Some (NewDomainWildcard payload target)
      else if tp = ''GEOSITE'' then Some (NewGEOSITE e payload target)
      else if tp = ''GEOIP'' then Some (NewGEOIP e payload target isSrc noResolve)
      else if tp = ''SRC-GEOIP'' then Some (NewGEOIP e payload target True True)
      else if tp = ''IP-ASN'' then Some (NewIPASN e payload target isSrc noResolve)
      else if tp = ''SRC-IP-ASN'' then Some (NewIPASN e payload target True True)
      else if tp = ''IP-CIDR'' \<or> tp = ''IP-CIDR6'' then Some (NewIPCIDR payload target isSrc noResolve)
      else if tp = ''SRC-IP-CIDR'' then Some (NewIPCIDR payload target True True)
      else if tp = ''IP-SUFFIX'' then Some (NewIPSuffix payload target isSrc noResolve)
      else if tp = ''SRC-IP-SUFFIX'' then Some (NewIPSuffix payload target True True)
      else if tp = ''SRC-PORT'' then Some (NewPort payload target SrcPort)
      else if tp = ''DST-PORT'' then Some (NewPort payload target DstPort)
      else if tp = ''IN-PORT'' then Some (NewPort payload target InPort)
      else if tp = ''DSCP'' then Some (NewDSCP payload target)
      else if tp = ''PROCESS-NAME'' then Some (NewProcess e payload target True False)
      else if tp = ''PROCESS-PATH'' then Some (NewProcess e payload target False False)
      else if tp = ''PROCESS-NAME-REGEX'' then Some (NewProcess e payload target True True)
      else if tp = ''PROCESS-PATH-REGEX'' then Some (NewProcess e payload target False True)
      else if tp = ''NETWORK'' then Some (NewNetworkType payload target)
      else if tp = ''UID'' then Some (NewUid e payload target)
      else if tp = ''IN-TYPE'' then Some (NewInType payload target)
      else if tp = ''IN-USER'' then Some (NewInUser payload target)
      else if tp = ''IN-NAME'' then Some (NewInName payload target)
      else if tp = ''RULE-SET'' then Some (Inr (RRuleSet payload target isSrc noResolve))
      else if tp = ''MATCH'' then Some (Inr (RMatch target))
      else None)"

subsection \<open>Nested text is shorter\<close>

lemma length_Trim: "length (Trim s cs) \<le> length s"
  by (metis Trim_def trim_by_def length_dropWhile_le length_rev order.trans)

lemma length_Join_trimArr: "length (Join (trimArr ps) sep) \<le> length (Join ps sep)"
  by (induction ps sep rule: Join.induct) (auto simp: trimArr_def length_Trim add_mono)

lemma length_Join_tl: "ps \<noteq> [] \<Longrightarrow> length (Join ps [sep]) = length (hd ps) +
    (if tl ps = [] then 0 else 1 + length (Join (tl ps) [sep]))"
  by (induction ps "[sep]" rule: Join.induct) auto

lemma length_hd_Join: "ps \<noteq> [] \<Longrightarrow> length (hd ps) \<le> length (Join ps sep)"
  by (induction ps sep rule: Join.induct) auto

lemma ParseRulePayload_shorter:
  assumes "ParseRulePayload sub False = (tp, p, target, params)" and "tp \<noteq> ''''" and "p \<noteq> ''''"
  shows "length p + 2 \<le> length sub"
proof -
  define ps where "ps = Split sub CHR '',''"
  have ne: "ps \<noteq> []" by (simp add: ps_def)
  have tp: "tp = ToUpper (Trim (hd ps) '' '')"
    using assms(1) ne by (auto simp: ParseRulePayload_def Let_def trimArr_def hd_map ps_def split: if_splits)
  then have hd: "length (hd ps) \<ge> 1"
    using assms(2) length_Trim[of "hd ps" "'' ''"] by (cases "hd ps") (auto simp: ToUpper_def)
  have two: "tl ps \<noteq> []" and p: "p = Join (trimArr (tl ps)) '','' \<or> p = Trim (hd (tl ps)) '' ''"
    using assms(1,3) ne unfolding ParseRulePayload_def Let_def ps_def[symmetric]
    by (cases ps; cases "tl ps"; auto simp: trimArr_def split: if_splits)+
  have "length p \<le> length (Join (tl ps) '','')"
    using p length_Join_trimArr[of "tl ps" "'',''"] length_Trim[of "hd (tl ps)" "'' ''"]
      length_hd_Join[OF two, of "'',''"] by auto
  moreover have "length sub = length (hd ps) + 1 + length (Join (tl ps) '','')"
    using length_Join_tl[OF ne, of "CHR '',''"] two Join_Split[of sub "CHR '',''"] by (simp add: ps_def)
  ultimately show ?thesis using hd by simp
qed

lemma sub_payloads_shorter:
  assumes "sub_payloads payload = Inr subs" and "sub \<in> set subs"
  shows "length sub \<le> length payload - 1"
  using assms by (auto simp: sub_payloads_def sub_text_def split: if_splits sum.splits)

subsection \<open>The recursion\<close>

definition text_weight :: "string \<Rightarrow> nat" where
  "text_weight p = (if p = '''' then 0 else 3 * length p + 5)"

fun longest :: "string list \<Rightarrow> nat" where
  "longest [] = 0"
| "longest (s # ss) = max (length s) (longest ss)"

lemma longest_le: "(\<And>s. s \<in> set ss \<Longrightarrow> length s \<le> n) \<Longrightarrow> longest ss \<le> n"
  by (induction ss) auto

lemma parse_leaf_MATCH: "parse_leaf e ''MATCH'' payload target params \<noteq> None"
  by (simp add: parse_leaf_def split: prod.splits)

lemma leaf_None: "parse_leaf e tp payload target params = None \<Longrightarrow> tp \<noteq> ''MATCH''"
  using parse_leaf_MATCH by blast

lemma ParseRulePayload_tp: "ParseRulePayload '''' False = (tp, p, t, ps) \<Longrightarrow> tp = ''''"
  by (simp add: ParseRulePayload_def trimArr_def Trim_def trim_by_def ToUpper_def)

lemma text_weight_sub:
  assumes "ParseRulePayload sub False = (tp, p, t, ps)" and "tp \<noteq> ''''"
  shows "text_weight p < 3 * length sub"
proof (cases "p = ''''")
  case True
  have "sub \<noteq> ''''" using assms ParseRulePayload_tp by blast
  then show ?thesis using True by (simp add: text_weight_def)
next
  case False
  then show ?thesis using ParseRulePayload_shorter[OF assms False] by (simp add: text_weight_def)
qed

function (sequential)
  ParseRule :: "env \<Rightarrow> string \<Rightarrow> string \<Rightarrow> string \<Rightarrow> string list \<Rightarrow> parse_error + rule" and
  payloadToRule :: "env \<Rightarrow> string \<Rightarrow> parse_error + rule" and
  payload_loop :: "env \<Rightarrow> string list \<Rightarrow> parse_error + rule list" and
  parsePayload :: "env \<Rightarrow> string \<Rightarrow> parse_error + rule list"
where
  "ParseRule e tp payload target params =
     (if tp \<noteq> ''MATCH'' \<and> payload = '''' then Inl (MissingParameters tp)
      else case parse_leaf e tp payload target params of
        Some r \<Rightarrow> r
      | None \<Rightarrow>
          if tp = ''SUB-RULE'' then
            (case parsePayload e (CHR ''('' # payload @ '')'') of
               Inl err \<Rightarrow> Inl err
             | Inr rs \<Rightarrow> if length rs \<noteq> 1 then Inl OneRule else Inr (RLogic SubRules payload target rs))
          else if tp = ''AND'' then
            (case parsePayload e payload of
               Inl err \<Rightarrow> Inl err | Inr rs \<Rightarrow> Inr (RLogic AND_t payload target rs))
          else if tp = ''OR'' then
            (case parsePayload e payload of
               Inl err \<Rightarrow> Inl err | Inr rs \<Rightarrow> Inr (RLogic OR_t payload target rs))
          else if tp = ''NOT'' then
            (case parsePayload e payload of
               Inl err \<Rightarrow> Inl err
             | Inr rs \<Rightarrow> if length rs \<noteq> 1 then Inl OneRule else Inr (RLogic NOT_t payload target rs))
          else Inl (UnsupportedRule tp))"
| "payloadToRule e subPayload =
     (case ParseRulePayload subPayload False of (tp, payload, target, param) \<Rightarrow>
        if tp = ''MATCH'' \<or> tp = ''SUB-RULE'' then Inl (UnsupportedOnLogic tp)
        else if tp = '''' then Inl (FormatError subPayload)
        else ParseRule e tp payload target param)"
| "payload_loop e [] = Inr []"
| "payload_loop e (sub # subs) =
     (case payloadToRule e sub of
        Inl err \<Rightarrow> Inl err
      | Inr r \<Rightarrow> (case payload_loop e subs of Inl err \<Rightarrow> Inl err | Inr rs \<Rightarrow> Inr (r # rs)))"
| "parsePayload e payload =
     (case sub_payloads payload of Inl err \<Rightarrow> Inl err | Inr subs \<Rightarrow> payload_loop e subs)"
  by pat_completeness auto

termination
proof (relation "measures
    [\<lambda>x. case x of Inl (Inl (e, tp, p, t, ps)) \<Rightarrow> text_weight p | Inl (Inr (e, sub)) \<Rightarrow> 3 * length sub
       | Inr (Inl (e, subs)) \<Rightarrow> 3 * longest subs
       | Inr (Inr (e, p)) \<Rightarrow> 3 * (length p - 1) + 1,
     \<lambda>x. case x of Inr (Inl (e, subs)) \<Rightarrow> length subs + 1 | _ \<Rightarrow> 0]", goal_cases)
  case (6 e sub tp y p z t ps)
  then have "ParseRulePayload sub False = (tp, p, t, ps)" "tp \<noteq> ''''" by auto
  then show ?case using text_weight_sub by simp
next
  case (9 e payload subs)
  then have "longest subs \<le> length payload - 1"
    using sub_payloads_shorter longest_le by metis
  then show ?case by simp
qed (auto simp: text_weight_def dest: leaf_None)

end
