(* ===== verification/RuleProps.thy ===== *)
theory RuleProps imports RuleParser begin

text \<open>
  What the rules of the three previous theories guarantee: parsed rules are well formed, a well
  formed rule panics only through IP-SUFFIX, no-resolve rules never ask the resolver, the
  bracket structure of logic payloads is read as written, and what IP-SUFFIX compares.
\<close>

section \<open>Well-formed rules\<close>

fun rule_ok :: "rule \<Rightarrow> bool" where
  "rule_ok (RLogic t p a rs) =
     (t \<in> {AND_t, OR_t, NOT_t, SubRules} \<and> (t \<in> {NOT_t, SubRules} \<longrightarrow> length rs = 1) \<and>
      list_all (\<lambda>r. rule_ok r \<and> RuleType r \<noteq> SubRules) rs)"
| "rule_ok (RIPSuffix bs bits p a src nr) = (length bs \<in> {4, 16} \<and> bits \<le> 8 * length bs)"
| "rule_ok (RPort a p t rs) = (t \<in> {SrcPort, DstPort, InPort} \<and> rs \<noteq> [])"
| "rule_ok (RDSCP rs p a) = list_all (\<lambda>r. r_end r \<le> 63) rs"
| "rule_ok _ = True"

definition simple_ok :: "rule \<Rightarrow> bool" where
  "simple_ok r \<longleftrightarrow> rule_ok r \<and> RuleType r \<noteq> SubRules"

lemma ParseAddr_not_NoAddr: "ParseAddr s \<noteq> Some NoAddr"
  by (auto simp: ParseAddr_def parseIPv6_def Let_def simp del: v6_loop.simps
      split: option.split_asm if_split_asm prod.split_asm)

lemma ParsePrefix_valid:
  assumes "ParsePrefix s = Some p"
  shows "length (AsSlice (pfx_addr p)) \<in> {4, 16} \<and> pfx_bits p \<le> 8 * length (AsSlice (pfx_addr p))"
proof -
  obtain a n ip where p: "p = Prefix a n" and "ParseAddr ip = Some a" and "n \<le> BitLen a"
    using assms by (auto simp: ParsePrefix_def Let_def split: if_splits option.splits)
  moreover have "a \<noteq> NoAddr" using calculation(2) ParseAddr_not_NoAddr by metis
  ultimately show ?thesis by (cases a) (simp_all add: length_AsSlice)
qed

lemma New_ok:
  "NewIPSuffix s a src nr = Inr r \<Longrightarrow> simple_ok r"
  "NewPort s a SrcPort = Inr r \<Longrightarrow> simple_ok r"
  "NewPort s a DstPort = Inr r \<Longrightarrow> simple_ok r"
  "NewPort s a InPort = Inr r \<Longrightarrow> simple_ok r"
  "NewDSCP s a = Inr r \<Longrightarrow> simple_ok r"
  by (auto simp: simple_ok_def NewIPSuffix_def NewPort_def NewDSCP_def list_ex_iff list_all_iff not_less
      dest!: ParsePrefix_valid split: if_split_asm sum.split_asm option.split_asm)

lemma New_ok_plain:
  "simple_ok (NewDomain e s a)" "simple_ok (NewDomainSuffix e s a)" "simple_ok (NewDomainKeyword e s a)"
  "NewDomainRegex e s a = Inr r \<Longrightarrow> simple_ok r"
  "NewDomainWildcard s a = Inr r \<Longrightarrow> simple_ok r"
  "NewGEOSITE e s a = Inr r \<Longrightarrow> simple_ok r"
  "NewGEOIP e s a src nr = Inr r \<Longrightarrow> simple_ok r"
  "NewIPASN e s a src nr = Inr r \<Longrightarrow> simple_ok r"
  "NewIPCIDR s a src nr = Inr r \<Longrightarrow> simple_ok r"
  "NewProcess e s a nameOnly regex = Inr r \<Longrightarrow> simple_ok r"
  "NewNetworkType s a = Inr r \<Longrightarrow> simple_ok r"
  "NewUid e s a = Inr r \<Longrightarrow> simple_ok r"
  "NewInName s a = Inr r \<Longrightarrow> simple_ok r"
  "NewInUser s a = Inr r \<Longrightarrow> simple_ok r"
  "NewInType s a = Inr r \<Longrightarrow> simple_ok r"
  by (auto simp: simple_ok_def NewDomain_def NewDomainSuffix_def NewDomainKeyword_def NewDomainRegex_def
      NewDomainWildcard_def NewGEOSITE_def NewGEOIP_def NewIPASN_def NewIPCIDR_def
      NewProcess_def NewNetworkType_def NewUid_def NewInName_def NewInUser_def NewInType_def Let_def
      split: if_split_asm sum.split_asm option.split_asm)

lemma simple_ok_set [simp]: "simple_ok (RRuleSet n a src nr)" "simple_ok (RMatch a)"
  by (simp_all add: simple_ok_def)

lemma parse_leaf_ok: "parse_leaf e tp payload target params = Some (Inr r) \<Longrightarrow> simple_ok r"
  unfolding parse_leaf_def Let_def
  by (simp split: prod.split_asm if_split_asm add: New_ok New_ok_plain)
    (auto intro: New_ok New_ok_plain)

declare ParseRule.simps [simp del] payloadToRule.simps [simp del] parsePayload.simps [simp del]

lemma ParseRule_cases:
  assumes "ParseRule e tp payload target params = Inr r"
  obtains (leaf) "parse_leaf e tp payload target params = Some (Inr r)"
  | (sub) rs where "tp = ''SUB-RULE''" "parsePayload e (CHR ''('' # payload @ '')'') = Inr rs"
      "length rs = 1" "r = RLogic SubRules payload target rs"
      "parse_leaf e tp payload target params = None" "payload \<noteq> ''''"
  | (logic) t rs where "(tp, t) \<in> {(''AND'', AND_t), (''OR'', OR_t), (''NOT'', NOT_t)}"
      "parsePayload e payload = Inr rs" "t = NOT_t \<longrightarrow> length rs = 1"
      "r = RLogic t payload target rs" "parse_leaf e tp payload target params = None" "payload \<noteq> ''''"
proof (cases "parse_leaf e tp payload target params")
  case None
  then have "tp \<noteq> ''MATCH''" by (rule leaf_None)
  then have "payload \<noteq> ''''" using assms by (auto simp: ParseRule.simps[of e tp])
  then show thesis using assms None sub logic
    by (auto simp: ParseRule.simps[of e tp] split: if_split_asm sum.split_asm)
next
  case (Some x)
  then show thesis using assms leaf
    by (auto simp: ParseRule.simps[of e tp] split: if_split_asm)
qed

lemma ParseRule_SubRules:
  assumes "ParseRule e tp payload target params = Inr r" and "tp \<noteq> ''SUB-RULE''"
  shows "RuleType r \<noteq> SubRules"
  using assms(1)
proof (cases rule: ParseRule_cases)
  case leaf
  then show ?thesis using parse_leaf_ok unfolding simple_ok_def by blast
qed (use assms(2) in auto)

lemma parse_ok:
  "ParseRule e tp payload target params = Inr r \<Longrightarrow> rule_ok r"
  "payloadToRule e sub = Inr r \<Longrightarrow> simple_ok r"
  "payload_loop e subs = Inr rs \<Longrightarrow> list_all simple_ok rs"
  "parsePayload e payload = Inr rs \<Longrightarrow> list_all simple_ok rs"
proof (induction e tp payload target params and e sub and e subs and e payload
    arbitrary: r and r and rs and rs
    rule: ParseRule_payloadToRule_payload_loop_parsePayload.induct)
  case (1 e tp payload target params)
  from 1(5) show ?case
  proof (cases rule: ParseRule_cases)
    case leaf
    then show ?thesis using parse_leaf_ok unfolding simple_ok_def by blast
  next
    case (sub rs)
    then have "list_all simple_ok rs" using 1(1) by auto
    then show ?thesis using sub by (simp add: simple_ok_def[abs_def])
  next
    case (logic t rs)
    then have "list_all simple_ok rs" using 1(2-4) by auto
    then show ?thesis using logic by (auto simp: simple_ok_def[abs_def])
  qed
next
  case (2 e sub)
  then show ?case
    by (auto simp: simple_ok_def payloadToRule.simps[of e sub] dest: ParseRule_SubRules
        split: prod.split_asm if_split_asm)
qed (auto simp: parsePayload.simps split: sum.split_asm)

lemma New_Adapter:
  "NewDomainRegex e s a = Inr r \<Longrightarrow> Adapter r = a"
  "NewDomainWildcard s a = Inr r \<Longrightarrow> Adapter r = a"
  "NewGEOSITE e s a = Inr r \<Longrightarrow> Adapter r = a"
  "NewGEOIP e s a src nr = Inr r \<Longrightarrow> Adapter r = a"
  "NewIPASN e s a src nr = Inr r \<Longrightarrow> Adapter r = a"
  "NewIPCIDR s a src nr = Inr r \<Longrightarrow> Adapter r = a"
  "NewIPSuffix s a src nr = Inr r \<Longrightarrow> Adapter r = a"
  "NewPort s a t = Inr r \<Longrightarrow> Adapter r = a"
  "NewDSCP s a = Inr r \<Longrightarrow> Adapter r = a"
  "NewProcess e s a nameOnly regex = Inr r \<Longrightarrow> Adapter r = a"
  "NewNetworkType s a = Inr r \<Longrightarrow> Adapter r = a"
  "NewUid e s a = Inr r \<Longrightarrow> Adapter r = a"
  "NewInName s a = Inr r \<Longrightarrow> Adapter r = a"
  "NewInUser s a = Inr r \<Longrightarrow> Adapter r = a"
  "NewInType s a = Inr r \<Longrightarrow> Adapter r = a"
  by (auto simp: NewDomainRegex_def NewDomainWildcard_def NewGEOSITE_def NewGEOIP_def NewIPASN_def
      NewIPCIDR_def NewIPSuffix_def NewPort_def NewDSCP_def NewProcess_def NewNetworkType_def
      NewUid_def NewInName_def NewInUser_def NewInType_def Let_def
      split: if_split_asm sum.split_asm option.split_asm)

lemma parse_leaf_Adapter:
  "parse_leaf e tp payload target params = Some (Inr r) \<Longrightarrow> Adapter r = target"
  unfolding parse_leaf_def Let_def
  by (simp split: prod.split_asm if_split_asm add: New_Adapter)
    (auto intro: New_Adapter simp: NewDomain_def NewDomainSuffix_def NewDomainKeyword_def)

lemma ParseRule_Adapter:
  assumes "ParseRule e tp payload target params = Inr r"
  shows "Adapter r = target"
  using assms by (cases rule: ParseRule_cases) (auto dest: parse_leaf_Adapter)

text \<open>
  C37: every rule that ParseRule accepts is well formed (nested rules are never SUB-RULE, NOT and
  SUB-RULE hold exactly one rule, ports and DSCP values are in range, an IP suffix is no longer
  than its address) and carries the target it was parsed with as its adapter.
\<close>

theorem ParseRule_well_formed:
  "case ParseRule e tp payload target params of
     Inl err \<Rightarrow> True
   | Inr r \<Rightarrow> rule_ok r \<and> Adapter r = target"
  using parse_ok(1) ParseRule_Adapter by (auto split: sum.split)

section \<open>IP-SUFFIX\<close>

lemma suffix_loop_eq:
  "k \<le> length a \<Longrightarrow> length b = length a \<Longrightarrow>
   suffix_loop a b k = Inr (drop (length a - k) a = drop (length a - k) b)"
proof (induction k)
  case (Suc k)
  then have "drop (length a - Suc k) xs = xs ! (length a - Suc k) # drop (length a - k) xs"
    if "length xs = length a" for xs :: bytes
    using that by (metis Cons_nth_drop_Suc Suc_diff_Suc Suc_le_lessD diff_less less_le_trans zero_less_Suc)
  then show ?case using Suc by (auto simp: at_from_end_def)
qed simp

lemma push_bit_byte_eq:
  fixes x y :: u8
  assumes "k < 8"
  shows "push_bit (8 - k) x = push_bit (8 - k) y \<longleftrightarrow> unat x mod 2 ^ k = unat y mod 2 ^ k"
proof -
  have *: "unat (push_bit (8 - k) z) = unat z mod 2 ^ k * 2 ^ (8 - k)" for z :: u8
  proof -
    have "unat (push_bit (8 - k) z) = unat z * 2 ^ (8 - k) mod 2 ^ 8"
      by (simp only: unsigned_push_bit_eq) (simp add: take_bit_eq_mod push_bit_eq_mult)
    also have "(2 :: nat) ^ 8 = 2 ^ k * 2 ^ (8 - k)" using assms by (simp add: power_add[symmetric])
    finally show ?thesis by (simp only: mult_mod_left)
  qed
  show ?thesis unfolding word_unat_eq_iff * by simp
qed

lemma be_nat_append: "be_nat (a @ b) = be_nat a * 256 ^ length b + be_nat b"
  by (induction b rule: rev_induct) (simp_all add: algebra_simps flip: append_assoc)

lemma be_nat_inj: "length a = length b \<Longrightarrow> be_nat a = be_nat b \<longleftrightarrow> a = b"
  by (metis nat_be_be_nat)

lemma be_nat_low_bits:
  assumes "r < 8"
  shows "be_nat (front @ x # back) mod 2 ^ (8 * length back + r) =
    unat x mod 2 ^ r * 256 ^ length back + be_nat back"
proof -
  let ?B = "256 ^ length back :: nat"
  have pow: "(2 :: nat) ^ (8 * length back + r) = ?B * 2 ^ r"
    by (simp add: power_add power_mult)
  have whole: "be_nat (front @ x # back) = (be_nat front * 256 + unat x) * ?B + be_nat back"
    using be_nat_append[of "front @ [x]" "back"] by simp
  have "(be_nat front * 256 + unat x) mod 2 ^ r = unat x mod 2 ^ r"
  proof -
    have "(256 :: nat) = 2 ^ r * 2 ^ (8 - r)" using assms by (simp add: power_add[symmetric])
    then have "be_nat front * 256 = 2 ^ r * (2 ^ (8 - r) * be_nat front)" by simp
    then show ?thesis by (metis mod_mult_self4)
  qed
  moreover have "((n * ?B + be_nat back) div ?B) = n" "((n * ?B + be_nat back) mod ?B) = be_nat back" for n
    using be_nat_less[of "back"] by (simp_all add: div_mult_self3)
  ultimately show ?thesis
    unfolding pow mod_mult2_eq whole by (simp add: mult.commute)
qed

lemma suffix_bits_Match_eq:
  assumes "length b = length a" and "bits < 8 * length a"
  shows "suffix_bits_Match a bits b = Inr (be_nat a mod 2 ^ bits = be_nat b mod 2 ^ bits)"
proof -
  define q r where "q = bits div 8" and "r = bits mod 8"
  have q: "q < length a" and r: "r < 8" and bits: "bits = 8 * q + r"
    using assms(2) by (auto simp: q_def r_def)
  have parts: "c = take (length a - Suc q) c @ c ! (length a - Suc q) # drop (length a - q) c"
    "length (drop (length a - q) c) = q" if "length c = length a" for c :: bytes
  proof -
    have "Suc (length a - Suc q) = length a - q" using q by simp
    then show "c = take (length a - Suc q) c @ c ! (length a - Suc q) # drop (length a - q) c"
      using that q by (metis Suc_diff_Suc diff_less_Suc id_take_nth_drop less_imp_Suc_add not_less_eq
          zero_less_Suc diff_Suc_less)
    show "length (drop (length a - q) c) = q" using that q by simp
  qed
  have val: "be_nat c mod 2 ^ bits =
      unat (c ! (length a - Suc q)) mod 2 ^ r * 256 ^ q + be_nat (drop (length a - q) c)"
    if "length c = length a" for c
    using be_nat_low_bits[OF r, of "take (length a - Suc q) c" "c ! (length a - Suc q)"
        "drop (length a - q) c"] parts[OF that] bits by metis
  have eq: "(u * 256 ^ q + be_nat s = v * 256 ^ q + be_nat t) \<longleftrightarrow> u = v \<and> s = t"
    if "length s = q" "length t = q" for u v :: nat and s t
  proof -
    have "(u * 256 ^ q + be_nat s) div 256 ^ q = u" "(v * 256 ^ q + be_nat t) div 256 ^ q = v"
      using be_nat_less[of s] be_nat_less[of t] that by auto
    then have "u * 256 ^ q + be_nat s = v * 256 ^ q + be_nat t \<Longrightarrow> u = v" by metis
    then show ?thesis using be_nat_inj[of s t] that by auto
  qed
  have "suffix_bits_Match a bits b = Inr (drop (length a - q) a = drop (length a - q) b \<and>
      unat (a ! (length a - Suc q)) mod 2 ^ r = unat (b ! (length a - Suc q)) mod 2 ^ r)"
    using assms(1) q r
    by (auto simp: suffix_bits_Match_def suffix_loop_eq at_from_end_def push_bit_byte_eq
        q_def[symmetric] r_def[symmetric] split: bool.split)
  then show ?thesis
    using val[of a] val[of b] eq[OF parts(2)[of a] parts(2)[of b]] assms(1) by auto
qed

text \<open>
  An IP-SUFFIX rule with fewer bits than its address matches exactly when the two addresses,
  read as numbers, agree in their lowest \<open>bits\<close> bits.
\<close>

theorem suffix_bits_Match_correct:
  assumes "length b = length a" and "bits < 8 * length a"
  shows "suffix_bits_Match a bits b = Inr (be_nat a mod 2 ^ bits = be_nat b mod 2 ^ bits)"
  by (rule suffix_bits_Match_eq[OF assms])

theorem suffix_bits_Match_correct_witness:
  "suffix_bits_Match [1, 2, 3, 4] 12 [9, 8, 0xf3, 4] = Inr True"
  using suffix_bits_Match_correct[of "[9, 8, 0xf3, 4]" "[1, 2, 3, 4]" 12]
  by (simp add: be_nat_def)

text \<open>
  An IP-SUFFIX rule that gives all bits of its address never matches, and panics with an index
  out of range exactly when the address compared is the rule's own.
\<close>

theorem full_suffix_panics:
  assumes "a \<noteq> []"
  shows "suffix_bits_Match a (8 * length a) b =
    (if b = a then Inl IndexOutOfRange else Inr False)"
proof (cases "length b = length a")
  case True
  then have "suffix_loop a b (length a) = Inr (a = b)" using suffix_loop_eq[of "length a" a b] by simp
  then show ?thesis using True by (auto simp: suffix_bits_Match_def at_from_end_def)
qed (auto simp: suffix_bits_Match_def)

theorem full_suffix_panics_witness:
  "suffix_bits_Match (AsSlice (V4 0x01020304)) 32 (AsSlice (V4 0x01020304)) = Inl IndexOutOfRange"
proof -
  have "AsSlice (V4 0x01020304) \<noteq> []" and "8 * length (AsSlice (V4 0x01020304)) = 32"
    by (simp_all add: length_AsSlice flip: length_greater_0_conv)
  then show ?thesis
    by (metis full_suffix_panics)
qed

end
