(* ===== verification/RuleMatch.thy ===== *)
theory RuleMatch imports RuleProps begin

text \<open>
  What matching does and does not do: rules marked no-resolve never ask the resolver, a verified
  sub-rule table is walked in finitely many steps, rule lists have first-match semantics, and
  the logic rules are dual to each other.
\<close>

declare r_Match.simps [simp] or_loop.simps [simp] and_loop.simps [simp]

section \<open>no-resolve\<close>

text \<open>
  A rule that cannot start a DNS lookup: its IP rules are marked no-resolve or look at the source,
  and so do the rules nested in it. A SUB-RULE is one if the whole table is.
\<close>

fun quiet :: "rule \<Rightarrow> bool" where
  "quiet (RGEOIP c a nr src) = (nr \<or> src)"
| "quiet (RASN n a nr src) = (nr \<or> src)"
| "quiet (RIPCIDR p a src nr) = (nr \<or> src)"
| "quiet (RIPSuffix bs n p a src nr) = (nr \<or> src)"
| "quiet (RRuleSet n a src nr) = (nr \<or> src)"
| "quiet (RLogic t p a rs) = list_all quiet rs"
| "quiet _ = True"

definition quiet_table :: "env \<Rightarrow> bool" where
  "quiet_table e \<longleftrightarrow> list_all (\<lambda>(name, rs). list_all quiet rs) (e_subRules e)"

lemma quiet_sub_rules: "quiet_table e \<Longrightarrow> list_all quiet (sub_rules e name)"
proof (cases "map_of (e_subRules e) name")
  case (Some rs)
  then show "quiet_table e \<Longrightarrow> list_all quiet (sub_rules e name)"
    using map_of_SomeD[OF Some] by (auto simp: quiet_table_def sub_rules_def list_all_iff)
qed (simp add: sub_rules_def)

lemma resolve_for_quiet: "nr \<or> src \<Longrightarrow> resolve_for nr src h s = s"
  by (auto simp: resolve_for_def)

lemma quiet_ignores_resolver:
  assumes "quiet_table e"
  shows
  "quiet r \<Longrightarrow> r_Match e n (h\<lparr>h_ResolveIP := f\<rparr>) r s = r_Match e n h r s"
  "list_all quiet rs \<Longrightarrow> or_loop e n (h\<lparr>h_ResolveIP := f\<rparr>) rs s = or_loop e n h rs s"
  "list_all quiet rs \<Longrightarrow> and_loop e n (h\<lparr>h_ResolveIP := f\<rparr>) rs s = and_loop e n h rs s"
  "list_all quiet rs \<Longrightarrow> matchSubRules e n (h\<lparr>h_ResolveIP := f\<rparr>) rs s = matchSubRules e n h rs s"
  using assms
proof (induction e n h r s and e n h rs s and e n h rs s and e n h rs s
    rule: r_Match_or_loop_and_loop_matchSubRules.induct)
  case (19 e n h name a src noResolve s)
  then show ?case by (auto split: option.split)
next
  case (21 e n h t p a rs s)
  then show ?case
    by (auto simp: quiet_sub_rules split: rule_type.split list.split sum.split prod.split nat.split)
next
  case (27 e n h r rs s)
  then show ?case
    by (auto simp: quiet_sub_rules split: sum.split prod.split nat.split)
qed (auto simp: geoip_Match_def asn_Match_def ipcidr_Match_def ipsuffix_Match_def resolve_for_quiet
      process_Match_def uid_Match_def split: sum.split prod.split)

text \<open>An environment without any external data.\<close>

definition bare_env :: "(string \<times> rule list) list \<Rightarrow> env" where
  "bare_env subRules = \<lparr>e_subRules = subRules, e_providers = (\<lambda>_. None), e_regex_ok = (\<lambda>_. False),
     e_regex_match = (\<lambda>_ _. False), e_ToASCII = (\<lambda>s. s), e_GeodataMode = False, e_InitGeoIP = False,
     e_InitGeoSite = False, e_InitASN = False, e_geoip = (\<lambda>_. None), e_geosite = (\<lambda>_. None),
     e_LookupCode = (\<lambda>_. []), e_LookupASN = (\<lambda>_. ('''', '''')), e_IsFakeBroadcastIP = (\<lambda>_. False),
     e_uid_platform = True\<rparr>"

definition start_state :: mstate where
  "start_state = \<lparr>ms_md = zero_metadata, ms_resolved = False, ms_attempt = True\<rparr>"

text \<open>
  C30: matching a rule whose IP rules are all no-resolve (or about the source), over a sub-rule
  table of such rules, is the same with and without a resolver: no DNS lookup is made.
\<close>

theorem no_resolve_no_dns:
  assumes "quiet r" and "quiet_table e"
  shows "r_Match e n (h\<lparr>h_ResolveIP := f\<rparr>) r s = r_Match e n h r s"
  using quiet_ignores_resolver(1)[OF assms(2,1)] .

theorem no_resolve_no_dns_witness:
  "r_Match (bare_env []) 0 (\<lparr>h_ResolveIP = Some (\<lambda>s. s\<lparr>ms_resolved := True\<rparr>), h_FindProcess = None\<rparr>)
     (RIPCIDR (Prefix (V4 0) 8) ''P'' False True) start_state =
   r_Match (bare_env []) 0 (\<lparr>h_ResolveIP = None, h_FindProcess = None\<rparr>)
     (RIPCIDR (Prefix (V4 0) 8) ''P'' False True) start_state"
  using no_resolve_no_dns[where r = "RIPCIDR (Prefix (V4 0) 8) ''P'' False True" and e = "bare_env []"
      and h = "\<lparr>h_ResolveIP = None, h_FindProcess = None\<rparr>" and n = 0 and s = start_state
      and f = "Some (\<lambda>s. s\<lparr>ms_resolved := True\<rparr>)"]
  by (simp add: quiet_table_def bare_env_def)

section \<open>Panics\<close>

text \<open>Rules without a full-length IP suffix, in a table of such rules, never index out of range.\<close>

fun safe :: "rule \<Rightarrow> bool" where
  "safe (RIPSuffix bs bits p a src nr) = (bits < 8 * length bs)"
| "safe (RLogic t p a rs) = ((t \<in> {NOT_t, SubRules} \<longrightarrow> rs \<noteq> []) \<and> list_all safe rs)"
| "safe _ = True"

definition safe_env :: "env \<Rightarrow> bool" where
  "safe_env e \<longleftrightarrow> (\<forall>name. list_all safe (sub_rules e name)) \<and>
     (\<forall>name rs. e_providers e name = Some (Classical rs) \<longrightarrow> list_all safe rs)"

lemma suffix_bits_safe: "bits < 8 * length a \<Longrightarrow> suffix_bits_Match a bits b \<noteq> Inl err"
  using suffix_bits_Match_eq[of b a bits] by (auto simp: suffix_bits_Match_def)

lemma safe_no_panic:
  assumes "safe_env e"
  shows
  "safe r \<Longrightarrow> r_Match e n h r s \<noteq> Inl IndexOutOfRange"
  "list_all safe rs \<Longrightarrow> or_loop e n h rs s \<noteq> Inl IndexOutOfRange"
  "list_all safe rs \<Longrightarrow> and_loop e n h rs s \<noteq> Inl IndexOutOfRange"
  "list_all safe rs \<Longrightarrow> matchSubRules e n h rs s \<noteq> Inl IndexOutOfRange"
  using assms
proof (induction e n h r s and e n h rs s and e n h rs s and e n h rs s
    rule: r_Match_or_loop_and_loop_matchSubRules.induct)
  case (10 e n h bs bits p a src noResolve s)
  then show ?case by (auto simp: ipsuffix_Match_def Let_def suffix_bits_safe split: sum.split)
next
  case (19 e n h name a src noResolve s)
  then show ?case
    by (auto simp: safe_env_def Let_def split: option.split strategy.split nat.split sum.split prod.split)
next
  case (21 e n h t p a rs s)
  then show ?case
    by (auto simp: safe_env_def split: rule_type.split list.split sum.split prod.split nat.split)
next
  case (27 e n h r rs s)
  then show ?case
    by (auto simp: safe_env_def split: sum.split prod.split nat.split)
qed (auto split: sum.split prod.split)

fun short_suffixes :: "rule \<Rightarrow> bool" where
  "short_suffixes (RIPSuffix bs bits p a src nr) = (bits \<noteq> 8 * length bs)"
| "short_suffixes (RLogic t p a rs) = list_all short_suffixes rs"
| "short_suffixes _ = True"

lemma ok_short_safe: "rule_ok r \<Longrightarrow> short_suffixes r \<Longrightarrow> safe r"
proof (induction r rule: safe.induct)
  case (2 t p a rs)
  then show ?case by (auto simp: list_all_iff)
qed auto

definition good_rule :: "rule \<Rightarrow> bool" where
  "good_rule r \<longleftrightarrow> rule_ok r \<and> short_suffixes r"

definition good_env :: "env \<Rightarrow> bool" where
  "good_env e \<longleftrightarrow> (\<forall>name. list_all good_rule (sub_rules e name)) \<and>
     (\<forall>name rs. e_providers e name = Some (Classical rs) \<longrightarrow> list_all good_rule rs)"

lemma good_safe: "list_all good_rule rs \<Longrightarrow> list_all safe rs"
  by (auto simp: list_all_iff good_rule_def ok_short_safe)

text \<open>
  C29: well-formed rules none of which is a full-length IP suffix never index out of range,
  whatever the metadata and the helper, if the sub-rules and the classical rule sets they refer to
  are of the same kind.
\<close>

theorem good_rules_never_panic:
  assumes "good_rule r" and "good_env e"
  shows "r_Match e n h r s \<noteq> Inl IndexOutOfRange"
proof (rule safe_no_panic(1))
  show "safe_env e" using assms(2) by (auto simp: good_env_def safe_env_def good_safe)
  show "safe r" using assms(1) by (simp add: good_rule_def ok_short_safe)
qed

theorem good_rules_never_panic_witness:
  "r_Match (bare_env [(''s'', [RMatch ''P''])]) 5 (\<lparr>h_ResolveIP = None, h_FindProcess = None\<rparr>)
     (RLogic SubRules '''' ''s'' [RIPSuffix [1, 2, 3, 4] 24 '''' '''' False True]) start_state \<noteq> Inl IndexOutOfRange"
  using good_rules_never_panic[where r = "RLogic SubRules '''' ''s'' [RIPSuffix [1, 2, 3, 4] 24 '''' '''' False True]"
      and e = "bare_env [(''s'', [RMatch ''P''])]" and n = 5
      and h = "\<lparr>h_ResolveIP = None, h_FindProcess = None\<rparr>" and s = start_state]
  by (simp add: good_rule_def good_env_def bare_env_def sub_rules_def split: option.split)

section \<open>Sub-rule tables\<close>

text \<open>config.go: the check that sub-rules refer to existing sub-rules without a cycle.\<close>

datatype sub_error = SubRuleNotFound nat string string | CircularReferences "string list"

definition table_rules :: "(string \<times> rule list) list \<Rightarrow> string \<Rightarrow> rule list" where
  "table_rules subRules n = (case map_of subRules n of None \<Rightarrow> [] | Some rs \<Rightarrow> rs)"

text \<open>The loop of \<open>verifySubRuleCircularReferences\<close>; \<open>arr\<close> already ends with \<open>n\<close>.\<close>

function (sequential) verify_loop ::
  "(string \<times> rule list) list \<Rightarrow> string \<Rightarrow> string list \<Rightarrow> nat \<Rightarrow> rule list \<Rightarrow> sub_error + unit" where
  "verify_loop subRules n arr i [] = Inr ()"
| "verify_loop subRules n arr i (rule # rs) =
     (if RuleType rule = SubRules then
        (if map_of subRules (Adapter rule) = None then Inl (SubRuleNotFound i n (Adapter rule))
         else if Adapter rule \<in> set arr then Inl (CircularReferences (arr @ [Adapter rule]))
         else case verify_loop subRules (Adapter rule) (arr @ [Adapter rule]) 0
                (table_rules subRules (Adapter rule)) of
           Inl err \<Rightarrow> Inl err
         | Inr _ \<Rightarrow> verify_loop subRules n arr (i + 1) rs)
      else verify_loop subRules n arr (i + 1) rs)"
  by pat_completeness auto
termination
proof (relation "measures
    [\<lambda>(subRules, n, arr, i, rs). card (dom (map_of subRules) - set arr),
     \<lambda>(subRules, n, arr, i, rs). length rs]", goal_cases)
  case (2 subRules n arr i rule rs)
  then have "dom (map_of subRules) - set (arr @ [Adapter rule]) \<subset> dom (map_of subRules) - set arr" by auto
  then have "card (dom (map_of subRules) - set (arr @ [Adapter rule])) < card (dom (map_of subRules) - set arr)"
    by (rule psubset_card_mono[rotated]) (simp add: finite_dom_map_of)
  then show ?case by simp
qed auto

definition verifySubRuleCircularReferences ::
  "string \<Rightarrow> (string \<times> rule list) list \<Rightarrow> string list \<Rightarrow> sub_error + unit" where
  "verifySubRuleCircularReferences n subRules arr =
     verify_loop subRules n (arr @ [n]) 0 (table_rules subRules n)"

fun verify_names :: "(string \<times> rule list) list \<Rightarrow> string list \<Rightarrow> sub_error + unit" where
  "verify_names subRules [] = Inr ()"
| "verify_names subRules (name # names) =
     (case verifySubRuleCircularReferences name subRules [] of
        Inl err \<Rightarrow> Inl err
      | Inr _ \<Rightarrow> verify_names subRules names)"

definition verifySubRule :: "(string \<times> rule list) list \<Rightarrow> sub_error + unit" where
  "verifySubRule subRules = verify_names subRules (map fst subRules)"

text \<open>
  Rules that follow no name at all (\<open>plain\<close>), and rules that may follow a rule set name but no
  sub-rule name (\<open>leafy\<close>).
\<close>

fun plain :: "rule \<Rightarrow> bool" where
  "plain (RRuleSet n a src nr) = False"
| "plain (RLogic t p a rs) = (t \<noteq> SubRules \<and> list_all plain rs)"
| "plain _ = True"

fun leafy :: "rule \<Rightarrow> bool" where
  "leafy (RLogic t p a rs) = (t \<noteq> SubRules \<and> list_all leafy rs)"
| "leafy _ = True"

definition flat_providers :: "env \<Rightarrow> bool" where
  "flat_providers e \<longleftrightarrow> (\<forall>name rs. e_providers e name = Some (Classical rs) \<longrightarrow> list_all plain rs)"

lemma rule_ok_leafy: "rule_ok r \<Longrightarrow> RuleType r \<noteq> SubRules \<Longrightarrow> leafy r"
  by (induction r rule: leafy.induct) (auto simp: list_all_iff)

lemma suffix_no_fuel: "suffix_bits_Match a bits b \<noteq> Inl OutOfFuel"
proof -
  have "suffix_loop a b k \<noteq> Inl OutOfFuel" for k
    by (induction k) (auto split: option.split)
  then show ?thesis by (auto simp: suffix_bits_Match_def split: sum.split bool.split option.split)
qed

lemma plain_fuel:
  "plain r \<Longrightarrow> r_Match e n h r s \<noteq> Inl OutOfFuel"
  "list_all plain rs \<Longrightarrow> or_loop e n h rs s \<noteq> Inl OutOfFuel"
  "list_all plain rs \<Longrightarrow> and_loop e n h rs s \<noteq> Inl OutOfFuel"
  "matchSubRules e n h rs s = matchSubRules e n h rs s"
proof (induction e n h r s and e n h rs s and e n h rs s and e n h rs s
    rule: r_Match_or_loop_and_loop_matchSubRules.induct)
  case (10 e n h bs bits p a src noResolve s)
  then show ?case by (auto simp: ipsuffix_Match_def Let_def suffix_no_fuel split: sum.split)
next
  case (21 e n h t p a rs s)
  then show ?case
    by (auto split: rule_type.split list.split sum.split prod.split nat.split)
qed (auto split: sum.split prod.split)

lemma leafy_fuel:
  assumes "flat_providers e"
  shows
  "leafy r \<Longrightarrow> n > 0 \<Longrightarrow> r_Match e n h r s \<noteq> Inl OutOfFuel"
  "list_all leafy rs \<Longrightarrow> n > 0 \<Longrightarrow> or_loop e n h rs s \<noteq> Inl OutOfFuel"
  "list_all leafy rs \<Longrightarrow> n > 0 \<Longrightarrow> and_loop e n h rs s \<noteq> Inl OutOfFuel"
  "matchSubRules e n h rs s = matchSubRules e n h rs s"
  using assms
proof (induction e n h r s and e n h rs s and e n h rs s and e n h rs s
    rule: r_Match_or_loop_and_loop_matchSubRules.induct)
  case (10 e n h bs bits p a src noResolve s)
  then show ?case by (auto simp: ipsuffix_Match_def Let_def suffix_no_fuel split: sum.split)
next
  case (19 e n h name a src noResolve s)
  then show ?case
    by (auto simp: flat_providers_def Let_def plain_fuel(2)
        split: option.split strategy.split nat.split sum.split prod.split)
next
  case (21 e n h t p a rs s)
  then show ?case
    by (auto split: rule_type.split list.split sum.split prod.split nat.split)
qed (auto split: sum.split prod.split)

definition row_ok :: "rule \<Rightarrow> bool" where
  "row_ok r \<longleftrightarrow> leafy r \<and> RuleType r \<noteq> SubRules \<or> (\<exists>p a c. r = RLogic SubRules p a [c] \<and> leafy c)"

lemma rule_ok_row: "rule_ok r \<Longrightarrow> row_ok r"
proof (cases "RuleType r = SubRules")
  case True
  assume ok: "rule_ok r"
  then obtain p a rs where "r = RLogic SubRules p a rs"
    using True by (cases r) (auto split: if_splits)
  with ok obtain c where "r = RLogic SubRules p a [c]" "rule_ok c" "RuleType c \<noteq> SubRules"
    by (auto simp: length_Suc_conv)
  then show ?thesis by (auto simp: row_ok_def rule_ok_leafy)
qed (simp add: row_ok_def rule_ok_leafy)

definition rows_ok :: "env \<Rightarrow> bool" where
  "rows_ok e \<longleftrightarrow> (\<forall>name. list_all row_ok (sub_rules e name))"

lemma sub_rules_table: "sub_rules e = table_rules (e_subRules e)"
  by (auto simp: sub_rules_def table_rules_def fun_eq_iff)

lemma walk_ends:
  assumes "flat_providers e" and "rows_ok e" and "subRules = e_subRules e"
  shows "verify_loop subRules name arr i rs = Inr u \<Longrightarrow> list_all row_ok rs \<Longrightarrow>
    n > card (dom (map_of subRules) - set arr) \<Longrightarrow> matchSubRules e n h rs s \<noteq> Inl OutOfFuel"
  using assms(3)
proof (induction subRules name arr i rs arbitrary: n s u rule: verify_loop.induct)
  case (2 subRules name arr i rule rs)
  show ?case
  proof (cases "RuleType rule = SubRules")
    case True
    then obtain p a c where r: "rule = RLogic SubRules p a [c]" and c: "leafy c"
      using 2(5) by (auto simp: row_ok_def)
    have a: "a \<in> dom (map_of subRules)" "a \<notin> set arr"
      using 2(4) r by (auto split: if_splits)
    obtain n' where n': "n = Suc n'" using 2(6) by (cases n) auto
    have "dom (map_of subRules) - set (arr @ [a]) \<subset> dom (map_of subRules) - set arr"
      using a by auto
    then have "card (dom (map_of subRules) - set (arr @ [a])) < card (dom (map_of subRules) - set arr)"
      by (rule psubset_card_mono[rotated]) (simp add: finite_dom_map_of)
    then have fuel: "n' > card (dom (map_of subRules) - set (arr @ [a]))" using 2(6) n' by simp
    have rows: "list_all row_ok (table_rules subRules a)"
      using assms(2) 2(7) by (simp add: rows_ok_def sub_rules_table)
    obtain v where v: "verify_loop subRules a (arr @ [a]) 0 (table_rules subRules a) = Inr v"
      and w: "verify_loop subRules name arr (i + 1) rs = Inr u"
      using 2(4) True r a by (auto split: sum.splits if_splits)
    have inner: "matchSubRules e n' h (table_rules subRules a) t \<noteq> Inl OutOfFuel" for t
      using 2(1)[OF True, where n = n' and u = v and s = t] v rows fuel 2(7) r a by auto
    have rest: "matchSubRules e n h rs t \<noteq> Inl OutOfFuel" for t
      using 2(2)[OF True, where n = n and u = u and s = t] v w 2(5-7) r a by auto
    have cond: "r_Match e n h c t \<noteq> Inl OutOfFuel" for t
      using leafy_fuel(1)[OF assms(1) c] n' by simp
    show ?thesis
      using inner rest cond 2(7) n' r
      by (auto simp: sub_rules_table split: sum.split prod.split)
  next
    case False
    then have "r_Match e n h rule t \<noteq> Inl OutOfFuel" for t
      using 2(5,6) leafy_fuel(1)[OF assms(1)] by (auto simp: row_ok_def)
    moreover have "matchSubRules e n h rs t \<noteq> Inl OutOfFuel" for t
      using 2(3)[where n = n and u = u and s = t] 2(4-7) False by simp
    ultimately show ?thesis using False by (auto split: sum.split prod.split)
  qed
qed simp

lemma verify_names_in:
  "verify_names subRules names = Inr u \<Longrightarrow> name \<in> set names \<Longrightarrow>
   verifySubRuleCircularReferences name subRules [] = Inr ()"
  by (induction names) (auto split: sum.splits)

text \<open>
  In a configuration whose sub-rule table passes \<open>verifySubRule\<close> and whose classical rule sets
  name no rule set, matching any well-formed rule ends: as many units of fuel as there are
  sub-rule names, plus one, are enough, whatever the metadata and the helper.
\<close>

lemma verified_sub_rules_terminate:
  assumes "verifySubRule (e_subRules e) = Inr ()"
    and "list_all (\<lambda>(name, rs). list_all rule_ok rs) (e_subRules e)"
    and "flat_providers e" and "rule_ok r"
    and "n > card (fst ` set (e_subRules e))"
  shows "r_Match e n h r s \<noteq> Inl OutOfFuel"
proof -
  let ?T = "e_subRules e"
  have rows: "rows_ok e"
  proof -
    have "list_all row_ok (sub_rules e name)" for name
    proof (cases "map_of ?T name")
      case (Some rs)
      with assms(2) map_of_SomeD[OF Some] have "list_all rule_ok rs" by (auto simp: list_all_iff)
      then show ?thesis using Some by (auto simp: sub_rules_def list_all_iff rule_ok_row)
    qed (simp add: sub_rules_def)
    then show ?thesis by (simp add: rows_ok_def)
  qed
  have walk: "matchSubRules e n' h (sub_rules e a) t \<noteq> Inl OutOfFuel" if n': "n = Suc n'" for a n' t
  proof (cases "a \<in> fst ` set ?T")
    case True
    then have v: "verify_loop ?T a [a] 0 (table_rules ?T a) = Inr ()"
      using verify_names_in[of ?T "map fst ?T" "()" a] assms(1)
      by (simp add: verifySubRule_def verifySubRuleCircularReferences_def)
    have "card (dom (map_of ?T) - {a}) < card (dom (map_of ?T))"
      using True by (intro psubset_card_mono) (auto simp: dom_map_of_conv_image_fst)
    then have "n' > card (dom (map_of ?T) - set [a])"
      using assms(5) n' by (simp add: dom_map_of_conv_image_fst)
    then show ?thesis
      using walk_ends[OF assms(3) rows refl v] rows by (simp add: rows_ok_def sub_rules_table)
  next
    case False
    then have "map_of ?T a = None" by (simp add: map_of_eq_None_iff)
    then show ?thesis by (simp add: sub_rules_def)
  qed
  show ?thesis
  proof (cases "RuleType r = SubRules")
    case False
    then show ?thesis using leafy_fuel(1)[OF assms(3) rule_ok_leafy[OF assms(4)]] assms(5) by simp
  next
    case True
    then obtain p a c where r: "r = RLogic SubRules p a [c]" and c: "leafy c"
      using rule_ok_row[OF assms(4)] by (auto simp: row_ok_def)
    have "r_Match e n h c t \<noteq> Inl OutOfFuel" for t
      using leafy_fuel(1)[OF assms(3) c] assms(5) by simp
    moreover obtain n' where "n = Suc n'" using assms(5) by (cases n) auto
    ultimately show ?thesis using walk r by (auto split: sum.split prod.split)
  qed
qed

section \<open>Classical rule sets\<close>

definition classical_payloadToRule :: "env \<Rightarrow> string \<Rightarrow> parse_error + rule" where
  "classical_payloadToRule e rule =
     (case ParseRulePayload rule False of (tp, payload, target, params) \<Rightarrow>
        if tp = ''MATCH'' \<or> tp = ''RULE-SET'' \<or> tp = ''SUB-RULE'' then Inl (UnsupportedRule tp)
        else ParseRule e tp payload target params)"

text \<open>\<open>Insert\<close> on (rules, count), and \<open>rulesParseInline\<close> with a classical strategy.\<close>

definition classical_Insert :: "env \<Rightarrow> rule list \<times> nat \<Rightarrow> string \<Rightarrow> rule list \<times> nat" where
  "classical_Insert e c rule =
     (case classical_payloadToRule e rule of
        Inl _ \<Rightarrow> c
      | Inr r \<Rightarrow> (fst c @ [r], snd c + 1))"

definition classical_Reset :: "rule list \<times> nat" where
  "classical_Reset = ([], 0)"

definition rulesParseInline :: "env \<Rightarrow> string list \<Rightarrow> rule list \<times> nat" where
  "rulesParseInline e rs =
     fold (\<lambda>r c. if r \<noteq> '''' then classical_Insert e c r else c) rs classical_Reset"

lemma classical_count:
  "snd c = length (fst c) \<Longrightarrow> snd (classical_Insert e c r) = length (fst (classical_Insert e c r))"
  by (auto simp: classical_Insert_def split: sum.split)

lemma rulesParseInline_count:
  "snd (rulesParseInline e rs) = length (fst (rulesParseInline e rs))"
proof -
  have "snd c = length (fst c) \<Longrightarrow>
    snd (fold (\<lambda>r c. if r \<noteq> '''' then classical_Insert e c r else c) rs c) =
    length (fst (fold (\<lambda>r c. if r \<noteq> '''' then classical_Insert e c r else c) rs c))" for c
    by (induction rs arbitrary: c) (auto simp: classical_count)
  then show ?thesis by (simp add: rulesParseInline_def classical_Reset_def)
qed

text \<open>
  C36: a classical rule set may not contain a RULE-SET rule, but the check does not look inside
  logic rules: the set named \<open>s\<close> whose payload is \<open>AND,((RULE-SET,s))\<close> is accepted, and matching it
  never ends, with any amount of fuel.
\<close>

theorem nested_rule_set_diverges:
  "classical_payloadToRule e ''AND,((RULE-SET,s))'' =
     Inr (RLogic AND_t ''((RULE-SET,s))'' '''' [RRuleSet ''s'' '''' False False])
   \<and> r_Match (e\<lparr>e_providers := \<lambda>n. if n = ''s'' then
         Some (Classical [RLogic AND_t ''((RULE-SET,s))'' '''' [RRuleSet ''s'' '''' False False]]) else None\<rparr>)
       n h (RRuleSet ''s'' a False False) t = Inl OutOfFuel"
proof
  show "classical_payloadToRule e ''AND,((RULE-SET,s))'' =
     Inr (RLogic AND_t ''((RULE-SET,s))'' '''' [RRuleSet ''s'' '''' False False])"
  proof -
    have p: "ParseRulePayload ''AND,((RULE-SET,s))'' False = (''AND'', ''((RULE-SET,s))'', '''', [])"
      and q: "ParseRulePayload ''RULE-SET,s'' False = (''RULE-SET'', ''s'', '''', [])"
      and subs: "sub_payloads ''((RULE-SET,s))'' = Inr [''RULE-SET,s'']"
      by code_simp+
    have leaf: "parse_leaf e ''AND'' pl t ps = None"
        "parse_leaf e ''RULE-SET'' pl t [] = Some (Inr (RRuleSet pl t False False))" for pl t ps
      by (simp_all add: parse_leaf_def ParseParams_def)
    have "payloadToRule e ''RULE-SET,s'' = Inr (RRuleSet ''s'' '''' False False)"
      by (simp add: payloadToRule.simps q ParseRule.simps leaf)
    then show ?thesis
      by (simp add: classical_payloadToRule_def p ParseRule.simps[of e "''AND''"] leaf parsePayload.simps subs)
  qed
  show "r_Match (e\<lparr>e_providers := \<lambda>n. if n = ''s'' then
         Some (Classical [RLogic AND_t ''((RULE-SET,s))'' '''' [RRuleSet ''s'' '''' False False]]) else None\<rparr>)
       n h (RRuleSet ''s'' a False False) t = Inl OutOfFuel"
    by (induction n arbitrary: a) (simp_all add: Let_def)
qed

end
