(* ===== verification/Brackets.thy ===== *)
theory Brackets imports RuleMatch "HOL-Library.Multiset" begin

text \<open>
  The bracket structure of logic rule payloads: \<open>format\<close> accepts exactly the balanced payloads, and
  \<open>findSubRuleRange\<close> finds the rules written in a logic payload, in order.
\<close>

section \<open>Balanced text\<close>

fun balanced :: "nat \<Rightarrow> string \<Rightarrow> bool" where
  "balanced d [] = (d = 0)"
| "balanced d (c # cs) =
     (if c = CHR ''('' then balanced (d + 1) cs
      else if c = CHR '')'' then d > 0 \<and> balanced (d - 1) cs
      else balanced d cs)"

lemma format_loop_balanced:
  "(\<exists>subs. format_loop i stack num found s = Inr ([], subs)) \<longleftrightarrow> balanced (length stack) s"
proof (induction i stack num found s rule: format_loop.induct)
  case (2 i stack num found c cs)
  then show ?case by (cases stack) auto
qed auto

text \<open>
  C33: \<open>format\<close> accepts a payload exactly when its brackets are balanced.
\<close>

theorem format_accepts_balanced:
  "(case format_payload payload of Inl _ \<Rightarrow> False | Inr _ \<Rightarrow> True) = balanced 0 payload"
  using format_loop_balanced[of 0 "[]" 0 "[]" payload]
  by (auto simp: format_payload_def split: sum.splits)

text \<open>
  \<open>nest i k s rs tops\<close>: the text \<open>s\<close>, at position \<open>i\<close> of a payload after \<open>k\<close> opened brackets, has the
  bracket pairs \<open>rs\<close> (by opening position) and the outermost groups \<open>tops\<close>, each with its text.
\<close>

inductive nest :: "nat \<Rightarrow> nat \<Rightarrow> string \<Rightarrow> brange list \<Rightarrow> (brange \<times> string) list \<Rightarrow> bool" where
  nest_Nil: "nest i k [] [] []"
| nest_char: "c \<noteq> CHR ''('' \<Longrightarrow> c \<noteq> CHR '')'' \<Longrightarrow> nest (i + 1) k s rs tops \<Longrightarrow> nest i k (c # s) rs tops"
| nest_group: "nest (i + 1) (k + 1) s rs inner \<Longrightarrow>
    nest (i + 2 + length s) (k + 1 + length rs) t rs' tops \<Longrightarrow>
    r = \<lparr>b_start = i, b_end = i + 1 + length s, b_index = k\<rparr> \<Longrightarrow>
    nest i k (CHR ''('' # s @ CHR '')'' # t) (r # rs @ rs') ((r, s) # tops)"

lemma balanced_close:
  "balanced (Suc d) s \<Longrightarrow> \<exists>u v. s = u @ CHR '')'' # v \<and> balanced 0 u \<and> balanced d v"
proof (induction "length s" arbitrary: s d rule: less_induct)
  case less
  then obtain c cs where s: "s = c # cs" by (cases s) auto
  show ?case
  proof (cases "c = CHR ''(''")
    case True
    then have "balanced (Suc (Suc d)) cs" using less(2) s by simp
    then obtain u v where u: "cs = u @ CHR '')'' # v" "balanced 0 u" "balanced (Suc d) v"
      using less(1)[of cs "Suc d"] s by auto
    then obtain u' v' where v: "v = u' @ CHR '')'' # v'" "balanced 0 u'" "balanced d v'"
      using less(1)[of v d] s by auto
    have app: "balanced n x \<Longrightarrow> balanced (n + m) (x @ y) = balanced m y" for n m x y
      by (induction n x rule: balanced.induct) auto
    have "balanced 1 (u @ CHR '')'' # u')" using app[OF u(2), of 1] v by simp
    then have "balanced 0 (c # u @ CHR '')'' # u')" using True by simp
    then show ?thesis using s u v by (metis append.assoc append_Cons)
  next
    case False
    show ?thesis
    proof (cases "c = CHR '')''")
      case True
      then show ?thesis using less(2) s by (intro exI[of _ "[]"] exI[of _ cs]) simp
    next
      case no: False
      then obtain u v where "cs = u @ CHR '')'' # v" "balanced 0 u" "balanced d v"
        using less(1)[of cs d] less(2) s False by auto
      then show ?thesis using s False no by (intro exI[of _ "c # u"] exI[of _ v]) auto
    qed
  qed
qed

lemma balanced_nest: "balanced 0 s \<Longrightarrow> \<exists>rs tops. nest i k s rs tops"
proof (induction "length s" arbitrary: s i k rule: less_induct)
  case less
  show ?case
  proof (cases s)
    case Nil
    then show ?thesis using nest_Nil by blast
  next
    case (Cons c cs)
    show ?thesis
    proof (cases "c = CHR ''(''")
      case True
      then obtain u v where u: "cs = u @ CHR '')'' # v" "balanced 0 u" "balanced 0 v"
        using balanced_close[of 0 cs] less(2) Cons by auto
      obtain rs inner where 1: "nest (i + 1) (k + 1) u rs inner" using less(1)[of u "i + 1" "k + 1"] u Cons by auto
      obtain rs' tops where 2: "nest (i + 2 + length u) (k + 1 + length rs) v rs' tops"
        using less(1)[of v "i + 2 + length u" "k + 1 + length rs"] u Cons by auto
      show ?thesis using nest_group[OF 1 2 refl] Cons u True by auto
    next
      case False
      then have "c \<noteq> CHR '')''" "balanced 0 cs" using less(2) Cons by (auto split: if_splits)
      then obtain rs tops where "nest (i + 1) k cs rs tops" using less(1)[of cs "i + 1" k] Cons by auto
      then show ?thesis using Cons nest_char[OF False] \<open>c \<noteq> CHR '')''\<close> by blast
    qed
  qed
qed

section \<open>The ranges that \<open>format\<close> computes\<close>

lemma nest_loop:
  "nest i k s rs tops \<Longrightarrow> \<exists>out. mset out = mset rs \<and>
    (\<forall>stack found rest. format_loop i stack k found (s @ rest) =
      format_loop (i + length s) stack (k + length rs) (found @ out) rest)"
proof (induction rule: nest.induct)
  case (nest_group i k s rs inner t rs' tops r)
  then obtain o1 o2 where o: "mset o1 = mset rs" "mset o2 = mset rs'"
    "\<And>stack found rest. format_loop (i + 1) stack (k + 1) found (s @ rest) =
      format_loop (i + 1 + length s) stack (k + 1 + length rs) (found @ o1) rest"
    "\<And>stack found rest. format_loop (i + 2 + length s) stack (k + 1 + length rs) found (t @ rest) =
      format_loop (i + 2 + length s + length t) stack (k + 1 + length rs + length rs') (found @ o2) rest"
    by blast
  show ?case
    by (rule exI[of _ "o1 @ r # o2"])
      (use o(1,2) o(3)[simplified] o(4)[simplified] nest_group(3) in \<open>auto simp: ac_simps\<close>)
qed auto

lemma nest_index: "nest i k s rs tops \<Longrightarrow> j < length rs \<Longrightarrow> b_index (rs ! j) = k + j"
proof (induction arbitrary: j rule: nest.induct)
  case (nest_group i k s rs inner t rs' tops r)
  then show ?case
    by (cases j) (auto simp: nth_append)
qed auto

lemma fold_place:
  assumes "\<And>x. x \<in> set out \<Longrightarrow> b_index x < length rs \<and> rs ! b_index x = x" and "length res = length rs"
    and "j < length rs"
  shows "fold (\<lambda>sr res. res[b_index sr := sr]) out res ! j =
    (if j \<in> b_index ` set out then rs ! j else res ! j)"
  using assms
proof (induction out arbitrary: res)
  case (Cons x out)
  then show ?case by (auto simp: nth_list_update)
qed simp

lemma format_nest:
  assumes "nest 0 0 s rs tops"
  shows "format_payload s = Inr rs"
proof -
  obtain out where out: "mset out = mset rs"
    and loop: "format_loop 0 [] 0 [] s = Inr ([], out)"
    using nest_loop[OF assms] by (metis append.left_neutral append_Nil2 format_loop.simps(1))
  have set: "set out = set rs" and len: "length out = length rs"
    using out by (auto dest: mset_eq_setD mset_eq_length)
  have idx: "b_index x < length rs \<and> rs ! b_index x = x" if "x \<in> set out" for x
    using that set nest_index[OF assms] by (auto simp: in_set_conv_nth)
  let ?res = "replicate (length out) \<lparr>b_start = 0, b_end = 0, b_index = 0\<rparr>"
  have "fold (\<lambda>sr res. res[b_index sr := sr]) out ?res = rs"
  proof (rule nth_equalityI)
    have "length (fold (\<lambda>sr res. res[b_index sr := sr]) out res) = length res" for out and res :: "brange list"
      by (induction out arbitrary: res) auto
    then show L: "length (fold (\<lambda>sr res. res[b_index sr := sr]) out ?res) = length rs"
      using len by simp
    fix j assume "j < length (fold (\<lambda>sr res. res[b_index sr := sr]) out ?res)"
    then have j: "j < length rs" using L by simp
    then have "j \<in> b_index ` set out"
      using nest_index[OF assms j] set by (metis add_0 image_eqI nth_mem)
    then show "fold (\<lambda>sr res. res[b_index sr := sr]) out ?res ! j = rs ! j"
      using fold_place[OF idx, of out ?res j] j len by simp
  qed
  then show ?thesis using loop by (simp add: format_payload_def)
qed

section \<open>The ranges that \<open>findSubRuleRange\<close> keeps\<close>

lemma nest_bounds:
  "nest i k s rs tops \<Longrightarrow> r \<in> set rs \<Longrightarrow> i \<le> b_start r \<and> b_start r < b_end r \<and> b_end r < i + length s"
  by (induction rule: nest.induct) fastforce+

lemma sub_range_skip:
  assumes "f \<in> set found" and "\<And>r. r \<in> set rs \<Longrightarrow> b_start f < b_start r \<and> b_end r < b_end f"
  shows "sub_range_loop n found (rs @ rest) = sub_range_loop n found rest"
  using assms(2)
proof (induction rs)
  case (Cons r rs)
  then have "list_ex (\<lambda>f. containRange r (b_start f) (b_end f)) found"
    using assms(1) by (auto simp: list_ex_iff containRange_def)
  then show ?case using Cons by simp
qed simp

lemma sub_range_nest:
  "nest i k s rs tops \<Longrightarrow> 0 < i \<Longrightarrow> (\<And>f. f \<in> set found \<Longrightarrow> b_end f < i) \<Longrightarrow>
   sub_range_loop n found (rs @ rest) = sub_range_loop n (found @ map fst tops) rest"
proof (induction arbitrary: found rest rule: nest.induct)
  case (nest_char c i k s rs tops)
  then show ?case by (metis add.commute less_SucI plus_1_eq_Suc zero_less_Suc)
next
  case (nest_group i k s rs inner t rs' tops r)
  have no: "\<not> list_ex (\<lambda>f. containRange r (b_start f) (b_end f)) found"
    using nest_group(3,7) by (fastforce simp: list_ex_iff containRange_def)
  have "sub_range_loop n found (r # rs @ rs' @ rest) = sub_range_loop n (found @ [r]) (rs @ rs' @ rest)"
    using no nest_group(3,6) by simp
  also have "\<dots> = sub_range_loop n (found @ [r]) (rs' @ rest)"
    using nest_bounds[OF nest_group(1)] nest_group(3)
    by (intro sub_range_skip[of r]) fastforce+
  also have "\<dots> = sub_range_loop n ((found @ [r]) @ map fst tops) rest"
    using nest_group(3,6,7) by (intro nest_group(5)) fastforce+
  finally show ?case by simp
qed simp

lemma nest_texts:
  "nest i k s rs tops \<Longrightarrow> length pre = i \<Longrightarrow> map (sub_text (pre @ s @ post)) (map fst tops) = map snd tops"
proof (induction arbitrary: pre post rule: nest.induct)
  case (nest_char c i k s rs tops)
  then show ?case using nest_char(4)[of "pre @ [c]"] by simp
next
  case (nest_group i k s rs inner t rs' tops r)
  then have "sub_text (pre @ (CHR ''('' # s @ CHR '')'' # t) @ post) r = s"
    by (simp add: sub_text_def)
  moreover have "map (sub_text (pre @ (CHR ''('' # s @ CHR '')'' # t) @ post)) (map fst tops) = map snd tops"
    using nest_group(5)[of "pre @ CHR ''('' # s @ [CHR '')'']" post] nest_group(6) by simp
  ultimately show ?case by simp
qed simp

section \<open>Logic payloads\<close>

definition wrap :: "string \<Rightarrow> string" where
  "wrap p = CHR ''('' # p @ '')''"

lemma wrapped_payload:
  assumes "nest 1 1 body rs tops" and "CHR 0x0A \<notin> set body"
  shows "sub_payloads (wrap body) = Inr (map snd tops)"
proof -
  let ?r = "\<lparr>b_start = 0, b_end = 1 + length body, b_index = 0\<rparr>"
  have "nest 0 0 (wrap body) (?r # rs) [(?r, body)]"
    using nest_group[of 0 0 body rs tops "[]" "[]" "[]", OF _ nest_Nil] assms(1) by (simp add: wrap_def)
  then have fmt: "format_payload (wrap body) = Inr (?r # rs)" by (rule format_nest)
  have "findSubRuleRange (wrap body) (?r # rs) = map fst tops"
    using sub_range_nest[OF assms(1), of "[]" "length (wrap body)" "[]"]
    by (simp add: findSubRuleRange_def wrap_def)
  moreover have "map (sub_text (wrap body)) (map fst tops) = map snd tops"
    using nest_texts[OF assms(1), of "''(''" "'')''"] by (simp add: wrap_def)
  moreover have "has_brackets (wrap body)"
    using assms(2) by (simp add: has_brackets_def wrap_def Split_id)
  ultimately show ?thesis using fmt by (simp add: sub_payloads_def)
qed

lemma nest_append: "nest i k s rs tops \<Longrightarrow> nest (i + length s) (k + length rs) t rs' tops' \<Longrightarrow>
  nest i k (s @ t) (rs @ rs') (tops @ tops')"
proof (induction rule: nest.induct)
  case (nest_char c i k s rs tops)
  then show ?case using nest.nest_char by simp
next
  case (nest_group i k s rs inner u rs2 tops r)
  then show ?case
    using nest.nest_group[OF nest_group(1), of "u @ t" "rs2 @ rs'" "tops @ tops'" r] by (simp add: ac_simps)
qed (simp add: nest_Nil)

lemma nest_join:
  "list_all (balanced 0) ps \<Longrightarrow> \<exists>rs tops. nest i k (Join (map wrap ps) '','') rs tops \<and> map snd tops = ps"
proof (induction ps arbitrary: i k)
  case Nil
  then show ?case using nest_Nil by fastforce
next
  case (Cons p ps)
  obtain rs inner where p: "nest (i + 1) (k + 1) p rs inner"
    using balanced_nest[of p "i + 1" "k + 1"] Cons by auto
  let ?r = "\<lparr>b_start = i, b_end = i + 1 + length p, b_index = k\<rparr>"
  show ?case
  proof (cases ps)
    case Nil
    then show ?thesis using nest_group[OF p nest_Nil refl] by (fastforce simp: wrap_def)
  next
    case (Cons q qs)
    obtain rs' tops where t: "nest (i + 2 + length p + 1) (k + 1 + length rs) (Join (map wrap ps) '','') rs' tops"
      "map snd tops = ps" using Cons.IH[of "i + 2 + length p + 1" "k + 1 + length rs"] Cons.prems by auto
    have "nest (i + 2 + length p) (k + 1 + length rs) (CHR '','' # Join (map wrap ps) '','') rs' tops"
      using nest_char[of "CHR '',''"] t(1) by simp
    from nest_group[OF p this refl] show ?thesis using Cons t(2) by (force simp: wrap_def)
  qed
qed

text \<open>
  C28: a logic payload written as bracketed rules separated by commas and enclosed in brackets is
  read as just these rules, in their order, however deeply each of them nests.
\<close>

theorem parsePayload_reads_rules:
  assumes "list_all (balanced 0) ps" and "list_all (\<lambda>p. CHR 0x0A \<notin> set p) ps"
  shows "parsePayload e (wrap (Join (map wrap ps) '','')) = payload_loop e ps"
proof -
  obtain rs tops where "nest 1 1 (Join (map wrap ps) '','') rs tops" "map snd tops = ps"
    using nest_join[OF assms(1)] by blast
  moreover have "CHR 0x0A \<notin> set (Join (map wrap ps) '','')"
    using set_Join[of "map wrap ps" "'',''"] assms(2) by (auto simp: list_all_iff wrap_def split: if_splits)
  ultimately show ?thesis using wrapped_payload by (simp add: parsePayload.simps)
qed

theorem parsePayload_reads_rules_witness:
  "parsePayload (bare_env []) ''((DOMAIN,a.b),(NOT,((NETWORK,udp))))'' = payload_loop (bare_env []) [''DOMAIN,a.b'', ''NOT,((NETWORK,udp))'']"
proof -
  have "wrap (Join (map wrap [''DOMAIN,a.b'', ''NOT,((NETWORK,udp))'']) '','') =
      ''((DOMAIN,a.b),(NOT,((NETWORK,udp))))''" by code_simp
  moreover have "list_all (balanced 0) [''DOMAIN,a.b'', ''NOT,((NETWORK,udp))'']" by code_simp
  moreover have "list_all (\<lambda>p. CHR 0x0A \<notin> set p) [''DOMAIN,a.b'', ''NOT,((NETWORK,udp))'']" by code_simp
  ultimately show ?thesis
    using parsePayload_reads_rules[of "[''DOMAIN,a.b'', ''NOT,((NETWORK,udp))'']" "bare_env []"] by (simp only:)
qed

lemma single_brackets:
  assumes "set p \<inter> {CHR ''('', CHR '')'', CHR 0x0A} = {}"
  shows "parsePayload e (wrap p) = Inr []"
proof -
  have "nest i k p [] []" for i k
    using assms by (induction p arbitrary: i) (auto intro: nest_Nil nest_char)
  then show ?thesis using wrapped_payload[of p "[]" "[]"] assms by (simp add: parsePayload.simps)
qed

lemma logic_not_leaf:
  "parse_leaf e ''AND'' pl t ps = None" "parse_leaf e ''OR'' pl t ps = None"
  by (simp_all add: parse_leaf_def ParseParams_def)

text \<open>
  Written with one pair of brackets instead of two, an AND has no rules and matches every
  connection and an OR has none and matches no connection; both are accepted.
\<close>

theorem single_bracket_logic:
  assumes "set p \<inter> {CHR ''('', CHR '')'', CHR 0x0A} = {}"
  shows "ParseRule e ''AND'' (wrap p) a params = Inr (RLogic AND_t (wrap p) a [])
    \<and> r_Match e n h (RLogic AND_t (wrap p) a []) s = Inr (True, a, s)
    \<and> ParseRule e ''OR'' (wrap p) a params = Inr (RLogic OR_t (wrap p) a [])
    \<and> r_Match e n h (RLogic OR_t (wrap p) a []) s = Inr (False, '''', s)"
proof -
  have "wrap p \<noteq> ''''" by (simp add: wrap_def)
  then show ?thesis
    using single_brackets[OF assms]
    by (simp add: ParseRule.simps[of e "''AND''"] ParseRule.simps[of e "''OR''"] logic_not_leaf listed_def)
qed

theorem single_bracket_logic_witness:
  "ParseRule (bare_env []) ''AND'' ''(DOMAIN,a.com)'' ''PROXY'' [] = Inr (RLogic AND_t ''(DOMAIN,a.com)'' ''PROXY'' [])"
proof -
  have "wrap ''DOMAIN,a.com'' = ''(DOMAIN,a.com)''" by (simp add: wrap_def)
  then show ?thesis using single_bracket_logic[of "''DOMAIN,a.com''" "bare_env []" "''PROXY''" "[]"] by simp
qed

section \<open>Duality\<close>

lemma and_or_dual:
  "or_loop e n h (map (\<lambda>r. RLogic NOT_t q b [r]) rs) s =
   map_sum id (\<lambda>(m, s). (\<not> m, s)) (and_loop e n h rs s)"
  by (induction rs arbitrary: s) (auto simp: listed_def split: sum.split)

text \<open>
  NOT of an AND and OR of the NOTs of its rules are the same rule: same answer, same adapter,
  same metadata afterwards, same errors.
\<close>

theorem not_and_is_or_not:
  "r_Match e n h (RLogic NOT_t p a [RLogic AND_t q b rs]) s =
   r_Match e n h (RLogic OR_t p' a (map (\<lambda>r. RLogic NOT_t q' b' [r]) rs)) s"
  by (auto simp: and_or_dual split: sum.split)

end
