(* ===== verification/RuleConfig.thy ===== *)
theory RuleConfig imports Brackets begin

text \<open>
  config/config.go: the rule section of a configuration. \<open>parseRules\<close> reads a list of rule lines
  against the known proxies, rule providers and sub-rule names; \<open>parseSubRules\<close> builds the
  sub-rule table and verifies it. A Go map is a list of its entries, in the order of the walk.
\<close>

datatype rules_error = FormatInvalid nat | ProxyNotFound nat string | TargetSubRuleNotFound nat string
  | RuleError nat parse_error | RuleSetNotFound nat string | EmptyName | SubRuleError sub_error

fun parseRules_loop ::
  "env \<Rightarrow> nat \<Rightarrow> string list \<Rightarrow> string list \<Rightarrow> string list \<Rightarrow> string list \<Rightarrow> rules_error + rule list" where
  "parseRules_loop e idx [] proxies ruleProviders subRules = Inr []"
| "parseRules_loop e idx (line # lines) proxies ruleProviders subRules =
     (case ParseRulePayload line True of (tp, payload, target, params) \<Rightarrow>
        if target = '''' then Inl (FormatInvalid idx)
        else if target \<notin> set proxies \<and> tp \<noteq> ''SUB-RULE'' then Inl (ProxyNotFound idx target)
        else if target \<notin> set proxies \<and> target \<notin> set subRules then Inl (TargetSubRuleNotFound idx target)
        else case ParseRule e tp payload target params of
          Inl err \<Rightarrow> Inl (RuleError idx err)
        | Inr parsed \<Rightarrow>
            (case find (\<lambda>name. name \<notin> set ruleProviders) (ProviderNames parsed) of
               Some name \<Rightarrow> Inl (RuleSetNotFound idx name)
             | None \<Rightarrow>
                 (case parseRules_loop e (idx + 1) lines proxies ruleProviders subRules of
                    Inl err \<Rightarrow> Inl err
                  | Inr rules \<Rightarrow> Inr (parsed # rules))))"

definition parseRules ::
  "env \<Rightarrow> string list \<Rightarrow> string list \<Rightarrow> string list \<Rightarrow> string list \<Rightarrow> rules_error + rule list" where
  "parseRules e rulesConfig proxies ruleProviders subRules =
     parseRules_loop e 0 rulesConfig proxies ruleProviders subRules"

fun parseSubRules_loop ::
  "env \<Rightarrow> (string \<times> string list) list \<Rightarrow> string list \<Rightarrow> string list \<Rightarrow> string list \<Rightarrow>
   rules_error + (string \<times> rule list) list" where
  "parseSubRules_loop e [] proxies ruleProviders names = Inr []"
| "parseSubRules_loop e ((name, rawRules) # rest) proxies ruleProviders names =
     (if length name = 0 then Inl EmptyName
      else case parseRules e rawRules proxies ruleProviders names of
        Inl err \<Rightarrow> Inl err
      | Inr rules \<Rightarrow>
          (case parseSubRules_loop e rest proxies ruleProviders names of
             Inl err \<Rightarrow> Inl err
           | Inr subRules \<Rightarrow> Inr ((name, rules) # subRules)))"

definition parseSubRules ::
  "env \<Rightarrow> (string \<times> string list) list \<Rightarrow> string list \<Rightarrow> string list \<Rightarrow>
   rules_error + (string \<times> rule list) list" where
  "parseSubRules e cfg proxies ruleProviders =
     (case parseSubRules_loop e cfg proxies ruleProviders (map fst cfg) of
        Inl err \<Rightarrow> Inl err
      | Inr subRules \<Rightarrow>
          (case verifySubRule subRules of Inl err \<Rightarrow> Inl (SubRuleError err) | Inr _ \<Rightarrow> Inr subRules))"

section \<open>What an accepted configuration guarantees\<close>

text \<open>
  A rule of an accepted configuration: well formed, its target is a known proxy (or, of a SUB-RULE, a
  known sub-rule), and the rule sets it names exist.
\<close>

definition accepted :: "string list \<Rightarrow> string list \<Rightarrow> string list \<Rightarrow> rule \<Rightarrow> bool" where
  "accepted proxies ruleProviders subRules r \<longleftrightarrow>
     rule_ok r \<and> Adapter r \<noteq> '''' \<and>
     (Adapter r \<in> set proxies \<or> RuleType r = SubRules \<and> Adapter r \<in> set subRules) \<and>
     set (ProviderNames r) \<subseteq> set ruleProviders"

lemma ParseRule_is_SubRules:
  "ParseRule e ''SUB-RULE'' payload target params = Inr r \<Longrightarrow> RuleType r = SubRules"
  by (auto simp: parse_leaf_def ParseParams_def elim!: ParseRule_cases)

lemma parseRules_loop_accepted:
  "parseRules_loop e idx lines proxies ruleProviders subRules = Inr rs \<Longrightarrow>
   list_all (accepted proxies ruleProviders subRules) rs"
proof (induction e idx lines proxies ruleProviders subRules arbitrary: rs rule: parseRules_loop.induct)
  case (2 e idx line lines proxies ruleProviders subRules)
  obtain tp payload target params where p: "ParseRulePayload line True = (tp, payload, target, params)"
    by (metis prod_cases4)
  from 2(2) p obtain r rs' where r: "ParseRule e tp payload target params = Inr r"
    and t: "target \<noteq> ''''" "target \<in> set proxies \<or> tp = ''SUB-RULE'' \<and> target \<in> set subRules"
    and f: "find (\<lambda>name. name \<notin> set ruleProviders) (ProviderNames r) = None"
    and rest: "parseRules_loop e (idx + 1) lines proxies ruleProviders subRules = Inr rs'"
    and rs: "rs = r # rs'"
    by (auto split: if_split_asm sum.split_asm option.split_asm)
  have "accepted proxies ruleProviders subRules r"
    using parse_ok(1)[OF r] ParseRule_Adapter[OF r] t f r
    by (auto simp: accepted_def find_None_iff dest: ParseRule_is_SubRules)
  moreover have "list_all (accepted proxies ruleProviders subRules) rs'"
    using 2(1) p t r f rest by auto
  ultimately show ?case using rs by simp
qed auto

lemma parseSubRules_loop_accepted:
  "parseSubRules_loop e cfg proxies ruleProviders names = Inr subRules \<Longrightarrow>
   map fst subRules = map fst cfg \<and>
   list_all (\<lambda>(name, rs). name \<noteq> '''' \<and> list_all (accepted proxies ruleProviders names) rs) subRules"
  by (induction e cfg proxies ruleProviders names arbitrary: subRules rule: parseSubRules_loop.induct)
    (auto simp: parseRules_def dest: parseRules_loop_accepted split: if_split_asm sum.split_asm)

text \<open>
  C27: the rules of an accepted configuration name only targets and rule sets that exist, and so do
  those of its sub-rules.
\<close>

theorem parseRules_targets_exist:
  "case parseSubRules e cfg proxies ruleProviders of
     Inl err \<Rightarrow> True
   | Inr subRules \<Rightarrow>
       map fst subRules = map fst cfg \<and>
       list_all (\<lambda>(name, rs). name \<noteq> '''' \<and>
         list_all (accepted proxies ruleProviders (map fst cfg)) rs) subRules \<and>
       (case parseRules e lines proxies ruleProviders (map fst subRules) of
          Inl err \<Rightarrow> True
        | Inr rs \<Rightarrow> list_all (accepted proxies ruleProviders (map fst cfg)) rs)"
  by (auto simp: parseSubRules_def parseRules_def
      dest!: parseSubRules_loop_accepted parseRules_loop_accepted split: sum.split)

text \<open>
  C6: matching a rule of an accepted configuration ends if no classical rule set names another rule
  set: fuel for one step more than there are sub-rules is enough.
\<close>

theorem accepted_config_terminates:
  assumes "parseSubRules e cfg proxies ruleProviders = Inr (e_subRules e')"
    and "parseRules e lines proxies ruleProviders (map fst cfg) = Inr rs" and "r \<in> set rs"
    and "flat_providers e'" and "n > length cfg"
  shows "r_Match e' n h r s \<noteq> Inl OutOfFuel"
proof (rule verified_sub_rules_terminate)
  have loop: "parseSubRules_loop e cfg proxies ruleProviders (map fst cfg) = Inr (e_subRules e')"
    and verified: "verifySubRule (e_subRules e') = Inr ()"
    using assms(1) by (auto simp: parseSubRules_def split: sum.split_asm)
  show "verifySubRule (e_subRules e') = Inr ()" by (rule verified)
  show "list_all (\<lambda>(name, rs). list_all rule_ok rs) (e_subRules e')"
    using parseSubRules_loop_accepted[OF loop] by (auto simp: list_all_iff accepted_def)
  show "rule_ok r"
    using parseRules_loop_accepted assms(2,3) unfolding parseRules_def
    by (fastforce simp: list_all_iff accepted_def)
  have "fst ` set (e_subRules e') = set (map fst cfg)"
    using parseSubRules_loop_accepted[OF loop] by (metis list.set_map)
  then show "n > card (fst ` set (e_subRules e'))"
    using assms(5) card_length[of "map fst cfg"] by simp
qed (rule assms(4))

lemma demo_parse:
  "parseSubRules (bare_env []) [(''lan'', [''DOMAIN-SUFFIX,lan,DIRECT''])] [''DIRECT'', ''P''] [] =
     Inr [(''lan'', [RDomainSuffix ''lan'' ''DIRECT''])]"
  "parseRules (bare_env []) [''SUB-RULE,(NETWORK,UDP),lan'', ''MATCH,P''] [''DIRECT'', ''P''] [] [''lan''] =
     Inr [RLogic SubRules ''(NETWORK,UDP)'' ''lan'' [RNetworkType UDP ''''], RMatch ''P'']"
  by code_simp+

theorem accepted_config_terminates_witness:
  "r_Match (bare_env [(''lan'', [RDomainSuffix ''lan'' ''DIRECT''])]) 2
     \<lparr>h_ResolveIP = None, h_FindProcess = None\<rparr>
     (RLogic SubRules ''(NETWORK,UDP)'' ''lan'' [RNetworkType UDP '''']) start_state \<noteq> Inl OutOfFuel"
proof -
  let ?e = "bare_env [(''lan'', [RDomainSuffix ''lan'' ''DIRECT''])]"
  have 1: "parseSubRules (bare_env []) [(''lan'', [''DOMAIN-SUFFIX,lan,DIRECT''])] [''DIRECT'', ''P''] [] =
      Inr (e_subRules ?e)" using demo_parse(1) by (simp add: bare_env_def)
  have 2: "parseRules (bare_env []) [''SUB-RULE,(NETWORK,UDP),lan'', ''MATCH,P''] [''DIRECT'', ''P''] []
      (map fst [(''lan'', [''DOMAIN-SUFFIX,lan,DIRECT''])]) =
      Inr [RLogic SubRules ''(NETWORK,UDP)'' ''lan'' [RNetworkType UDP ''''], RMatch ''P'']"
    using demo_parse(2) by simp
  show ?thesis
    by (rule accepted_config_terminates[OF 1 2]) (simp_all add: flat_providers_def bare_env_def)
qed

end
