(* ===== verification/DomainTrie.thy ===== *)
theory DomainTrie imports GoStd "HOL-Library.AList" begin

text \<open>
  component/trie/node.go and component/trie/domain.go: the trie of domain patterns behind the
  DNS policies, the hosts table, the fake-ip filter and the domain rule sets. Names are stored
  label by label from the right. A node keeps a single child inline and switches to a map at the
  second one; the abstraction \<open>entries\<close> forgets that choice and the two levels are related by
  one lemma per operation. A label list here is already reversed (top-level label first).
\<close>

section \<open>node.go\<close>

text \<open>
  \<open>childMap\<close> is \<open>None\<close> for the nil map; \<open>n_data\<close> joins the fields \<open>data\<close> and \<open>inited\<close>
  (\<open>None\<close>: not initialised), which the code writes only together.
\<close>

datatype 'a node = Node
  (childMap: "(string \<times> 'a node) list option")
  (childNode: "'a node option")
  (childStr: string)
  (n_data: "'a option")

definition newNode :: "'a node" where
  "newNode = Node None None '''' None"

definition getChild :: "'a node \<Rightarrow> string \<Rightarrow> 'a node option" where
  "getChild n s =
     (case childMap n of
        None \<Rightarrow> (case childNode n of
                   Some c \<Rightarrow> if childStr n = s then Some c else None
                 | None \<Rightarrow> None)
      | Some m \<Rightarrow> map_of m s)"

definition hasChild :: "'a node \<Rightarrow> string \<Rightarrow> bool" where
  "hasChild n s \<longleftrightarrow> getChild n s \<noteq> None"

definition addChild :: "'a node \<Rightarrow> string \<Rightarrow> 'a node \<Rightarrow> 'a node" where
  "addChild n s child =
     (case childMap n of
        None \<Rightarrow> (case childNode n of
                   None \<Rightarrow> Node None (Some child) s (n_data n)
                 | Some c \<Rightarrow> Node (Some (AList.update s child [(childStr n, c)])) None '''' (n_data n))
      | Some m \<Rightarrow> Node (Some (AList.update s child m)) (childNode n) (childStr n) (n_data n))"

text \<open>The child (created when missing) and the parent that now points to it.\<close>

definition getOrNewChild :: "'a node \<Rightarrow> string \<Rightarrow> 'a node \<times> 'a node" where
  "getOrNewChild n s =
     (case getChild n s of
        Some c \<Rightarrow> (c, n)
      | None \<Rightarrow> (newNode, addChild n s newNode))"

text \<open>The parent after a write through the pointer to an existing child.\<close>

definition setChild :: "'a node \<Rightarrow> string \<Rightarrow> 'a node \<Rightarrow> 'a node" where
  "setChild n s c =
     (case childMap n of
        None \<Rightarrow> Node None (Some c) (childStr n) (n_data n)
      | Some m \<Rightarrow> Node (Some (AList.update s c m)) (childNode n) (childStr n) (n_data n))"

definition isEmpty :: "'a node option \<Rightarrow> bool" where
  "isEmpty n \<longleftrightarrow> (case n of None \<Rightarrow> True | Some m \<Rightarrow> n_data m = None)"

definition setData :: "'a node \<Rightarrow> 'a \<Rightarrow> 'a node" where
  "setData n d = Node (childMap n) (childNode n) (childStr n) (Some d)"

definition getChildren :: "'a node \<Rightarrow> (string \<times> 'a node) list" where
  "getChildren n =
     (case childMap n of
        None \<Rightarrow> (case childNode n of Some c \<Rightarrow> [(childStr n, c)] | None \<Rightarrow> [])
      | Some m \<Rightarrow> m)"

text \<open>\<open>optimize\<close>: a map with one entry goes back to the inline child, an empty one to nil.\<close>

fun optimize :: "'a node \<Rightarrow> 'a node" where
  "optimize (Node cm cn cs d) =
     (case cm of
        None \<Rightarrow> Node None (map_option optimize cn) cs d
      | Some [] \<Rightarrow> Node None (map_option optimize cn) cs d
      | Some [(k, c)] \<Rightarrow> Node None (Some (optimize c)) k d
      | Some m \<Rightarrow> Node (Some (map (\<lambda>(k, c). (k, optimize c)) m)) (map_option optimize cn) cs d)"

section \<open>domain.go\<close>

definition wildcard_part :: string where "wildcard_part = ''*''"
definition dotWildcard :: string where "dotWildcard = ''''"
definition complexWildcard :: string where "complexWildcard = ''+''"

definition ValidAndSplitDomain :: "string \<Rightarrow> string list option" where
  "ValidAndSplitDomain domain =
     (if domain \<noteq> '''' \<and> last domain = CHR ''.'' then None
      else if domain \<noteq> '''' \<and> is_space (hd domain) then None
      else if domain \<noteq> '''' \<and> is_space (last domain) then None
      else
        let parts = Split (ToLower domain) CHR ''.'' in
        if length parts = 1 then (if hd parts = '''' then None else Some parts)
        else if \<exists>part \<in> set (tl parts). part = '''' then None
        else Some parts)"

fun trie_insert :: "'a node \<Rightarrow> string list \<Rightarrow> 'a \<Rightarrow> 'a node" where
  "trie_insert n [] d = setData n d"
| "trie_insert n (p # ps) d =
     (case getOrNewChild n p of (c, n') \<Rightarrow> setChild n' p (trie_insert c ps d))"

datatype trie_error = ErrInvalidDomain

definition Insert :: "'a node \<Rightarrow> string \<Rightarrow> 'a \<Rightarrow> trie_error + 'a node" where
  "Insert t domain d =
     (case ValidAndSplitDomain domain of
        None \<Rightarrow> Inl ErrInvalidDomain
      | Some parts \<Rightarrow>
          if hd parts = complexWildcard then
            Inr (trie_insert (trie_insert t (rev (tl parts)) d) (rev (dotWildcard # tl parts)) d)
          else Inr (trie_insert t (rev parts) d))"

fun trie_search :: "'a node \<Rightarrow> string list \<Rightarrow> 'a node option" where
  "trie_search n [] = Some n"
| "trie_search n (p # ps) =
     (let r1 = (case getChild n p of None \<Rightarrow> None | Some c \<Rightarrow> trie_search c ps) in
      if \<not> isEmpty r1 then r1
      else
        let r2 = (case getChild n wildcard_part of None \<Rightarrow> None | Some c \<Rightarrow> trie_search c ps) in
        if \<not> isEmpty r2 then r2
        else getChild n dotWildcard)"

definition Search :: "'a node \<Rightarrow> string \<Rightarrow> 'a node option" where
  "Search t domain =
     (case ValidAndSplitDomain domain of
        None \<Rightarrow> None
      | Some parts \<Rightarrow>
          if hd parts = '''' then None
          else let n = trie_search t (rev parts) in if isEmpty n then None else n)"

definition trie_IsEmpty :: "'a node \<Rightarrow> bool" where
  "trie_IsEmpty t \<longleftrightarrow> length (getChildren t) = 0"

definition joinDomain :: "string list \<Rightarrow> string" where
  "joinDomain items = Join items ''.''"

definition recursion_name :: "string list \<Rightarrow> string" where
  "recursion_name items =
     (let domain = joinDomain items in
      if hd domain = CHR ''.'' then complexWildcard @ domain else domain)"

fun node_count :: "'a node \<Rightarrow> nat" where
  "node_count (Node cm cn cs d) =
     Suc ((case cm of None \<Rightarrow> 0 | Some m \<Rightarrow> sum_list (map (\<lambda>(k, c). node_count c) m)) +
          (case cn of None \<Rightarrow> 0 | Some c \<Rightarrow> node_count c))"

definition forest_count :: "(string \<times> 'a node) list \<Rightarrow> nat" where
  "forest_count cs = sum_list (map (\<lambda>(k, c). node_count c) cs)"

lemma node_count_pos: "0 < node_count n"
  by (cases n) simp

lemma forest_count_simps [simp]:
  "forest_count [] = 0" "forest_count ((k, c) # cs) = node_count c + forest_count cs"
  by (simp_all add: forest_count_def)

lemma forest_count_getChildren: "forest_count (getChildren n) < node_count n"
  by (cases n) (auto simp: getChildren_def forest_count_def split: option.splits)

text \<open>
  \<open>recursion\<close> over the children of a node, in the order in which the iteration yields them; the
  callback sees the name and the data and may stop the walk. The flag is the code's result.
\<close>

function recursion ::
  "string list \<Rightarrow> (string \<times> 'a node) list \<Rightarrow> (string \<Rightarrow> 'a \<Rightarrow> 's \<Rightarrow> bool \<times> 's) \<Rightarrow> 's \<Rightarrow> bool \<times> 's" where
  "recursion items [] fn s = (True, s)"
| "recursion items ((key, n) # rest) fn s =
     (let newItems = key # items;
          (go, s1) = (case n_data n of None \<Rightarrow> (True, s) | Some d \<Rightarrow> fn (recursion_name newItems) d s) in
      if \<not> go then (False, s1)
      else
        let (go2, s2) = recursion newItems (getChildren n) fn s1 in
        if \<not> go2 then (False, s2)
        else recursion items rest fn s2)"
  by pat_completeness auto
termination
proof (relation "measure (\<lambda>(items, cs, fn, s). forest_count cs)", goal_cases)
  case (2 items key n rest fn s)
  then show ?case using forest_count_getChildren[of n] by simp
next
  case (3 items key n rest fn s)
  then show ?case using node_count_pos[of n] by simp
qed simp

fun foreach_loop ::
  "(string \<times> 'a node) list \<Rightarrow> (string \<Rightarrow> 'a \<Rightarrow> 's \<Rightarrow> bool \<times> 's) \<Rightarrow> 's \<Rightarrow> 's" where
  "foreach_loop [] fn s = s"
| "foreach_loop ((key, n) # rest) fn s =
     (let s1 = snd (recursion [key] (getChildren n) fn s) in
      case n_data n of
        None \<Rightarrow> foreach_loop rest fn s1
      | Some d \<Rightarrow>
          (case fn (joinDomain [key]) d s1 of
             (go, s2) \<Rightarrow> if \<not> go then s2 else foreach_loop rest fn s2))"

definition Foreach :: "'a node \<Rightarrow> (string \<Rightarrow> 'a \<Rightarrow> 's \<Rightarrow> bool \<times> 's) \<Rightarrow> 's \<Rightarrow> 's" where
  "Foreach t fn s = foreach_loop (getChildren t) fn s"

section \<open>The abstraction: a map from reversed label lists to data\<close>

fun entries :: "'a node \<Rightarrow> string list \<Rightarrow> 'a option" where
  "entries n [] = n_data n"
| "entries n (p # ps) = (case getChild n p of None \<Rightarrow> None | Some c \<Rightarrow> entries c ps)"

lemma entries_Cons_Some:
  "entries t (k # ps) = Some d \<longleftrightarrow> (\<exists>n. getChild t k = Some n \<and> entries n ps = Some d)"
  by (auto split: option.splits)

lemma getChild_newNode [simp]: "getChild newNode s = None"
  by (simp add: getChild_def newNode_def)

lemma n_data_simps [simp]:
  "n_data newNode = None" "n_data (addChild n s c) = n_data n" "n_data (setChild n s c) = n_data n"
  "n_data (setData n d) = Some d"
  by (auto simp: newNode_def addChild_def setChild_def setData_def split: option.splits)

lemma getChild_setData [simp]: "getChild (setData n d) s = getChild n s"
  by (cases n) (auto simp: getChild_def setData_def split: option.splits)

lemma getChild_addChild:
  "getChild n s = None \<Longrightarrow> getChild (addChild n s c) s' = (if s' = s then Some c else getChild n s')"
  by (auto simp: getChild_def addChild_def update_conv' split: option.splits if_splits)

lemma getChild_setChild:
  "getChild n s \<noteq> None \<Longrightarrow> getChild (setChild n s c) s' = (if s' = s then Some c else getChild n s')"
  by (auto simp: getChild_def setChild_def update_conv' split: option.splits if_splits)

lemma entries_newNode [simp]: "entries newNode ps = None"
  by (cases ps) auto

lemma entries_empty_abs [absrel]: "entries newNode = Map.empty"
  by auto

lemma entries_trie_insert [absrel]: "entries (trie_insert n ps d) = (entries n)(ps \<mapsto> d)"
proof (induction n ps d rule: trie_insert.induct)
  case (1 n d)
  have "entries (setData n d) qs = ((entries n)([] \<mapsto> d)) qs" for qs by (cases qs) auto
  then show ?case by auto
next
  case (2 n p ps d)
  obtain c n' where g: "getOrNewChild n p = (c, n')" by fastforce
  have n': "getChild n' p = Some c" "n_data n' = n_data n"
    "q \<noteq> p \<Longrightarrow> getChild n' q = getChild n q" "entries c qs = entries n (p # qs)" for q qs
    using g by (auto simp: getOrNewChild_def getChild_addChild split: option.splits)
  have "entries (trie_insert n (p # ps) d) qs = ((entries n)(p # ps \<mapsto> d)) qs" for qs
    using "2.IH"[OF g[symmetric]] n' by (cases qs) (auto simp: g getChild_setChild)
  then show ?case by auto
qed

section \<open>Searching\<close>

text \<open>The same walk on the abstract map.\<close>

fun best :: "(string list \<Rightarrow> 'a option) \<Rightarrow> string list \<Rightarrow> 'a option" where
  "best m [] = m []"
| "best m (p # ps) =
     first_some (best (\<lambda>q. m (p # q)) ps)
       (first_some (best (\<lambda>q. m (wildcard_part # q)) ps) (m [dotWildcard]))"

definition node_data :: "'a node option \<Rightarrow> 'a option" where
  "node_data r = (case r of None \<Rightarrow> None | Some n \<Rightarrow> n_data n)"

lemma isEmpty_iff: "isEmpty r \<longleftrightarrow> node_data r = None"
  by (auto simp: isEmpty_def node_data_def split: option.splits)

lemma best_None [simp]: "best (\<lambda>q. None) ps = None"
  by (induction ps) auto

lemma trie_search_best [absrel]: "node_data (trie_search n ps) = best (entries n) ps"
proof (induction ps arbitrary: n)
  case Nil
  then show ?case by (simp add: node_data_def)
next
  case (Cons p ps)
  have sub: "node_data (case getChild n q of None \<Rightarrow> None | Some c \<Rightarrow> trie_search c ps) =
      best (\<lambda>r. entries n (q # r)) ps" for q
    using Cons.IH by (cases "getChild n q") (auto simp: node_data_def)
  have "node_data (getChild n q) = entries n [q]" for q
    by (auto simp: node_data_def split: option.splits)
  with sub show ?case
    by (auto simp: Let_def isEmpty_iff first_some_eq_Some simp del: entries.simps
        split: option.splits)
qed

text \<open>When a stored pattern matches a name (both reversed).\<close>

fun pat_matches :: "string list \<Rightarrow> string list \<Rightarrow> bool" where
  "pat_matches [] ps \<longleftrightarrow> ps = []"
| "pat_matches (q # qs) [] \<longleftrightarrow> False"
| "pat_matches (q # qs) (p # ps) \<longleftrightarrow>
     (q = dotWildcard \<and> qs = []) \<or> ((q = p \<or> q = wildcard_part) \<and> pat_matches qs ps)"

text \<open>The priority of the code: at the first label where two patterns differ, static before star
  before dot.\<close>

definition label_rank :: "string \<Rightarrow> string \<Rightarrow> nat" where
  "label_rank p q = (if q = p then 0 else if q = wildcard_part then 1 else 2)"

fun preferred :: "string list \<Rightarrow> string list \<Rightarrow> string list \<Rightarrow> bool" where
  "preferred (p # ps) (a # as) (b # bs) \<longleftrightarrow>
     (if a = b then preferred ps as bs else label_rank p a < label_rank p b)"
| "preferred _ _ _ \<longleftrightarrow> True"


lemma best_NoneD: "best m ps = None \<Longrightarrow> pat_matches pat ps \<Longrightarrow> m pat = None"
proof (induction ps arbitrary: m pat)
  case Nil
  then show ?case by (cases pat) auto
next
  case (Cons p ps)
  from Cons.prems(2) obtain q qs where pat: "pat = q # qs" by (cases pat) auto
  from Cons.prems(1) have
    "best (\<lambda>q. m (p # q)) ps = None" "best (\<lambda>q. m (wildcard_part # q)) ps = None" "m [dotWildcard] = None"
    by auto
  with Cons.IH[of _ qs] Cons.prems(2) pat show ?case by auto
qed

lemma best_SomeD:
  "best m ps = Some v \<Longrightarrow> '''' \<notin> set ps \<Longrightarrow>
   \<exists>pat. m pat = Some v \<and> pat_matches pat ps \<and>
     (\<forall>pat'. m pat' \<noteq> None \<and> pat_matches pat' ps \<longrightarrow> preferred ps pat pat')"
proof (induction ps arbitrary: m)
  case Nil
  then show ?case by (intro exI[of _ "[]"]) auto
next
  case (Cons p ps)
  have p: "p \<noteq> ''''" and ne: "wildcard_part \<noteq> ''''" using Cons.prems(2) by (auto simp: wildcard_part_def)
  have label: "preferred (p # ps) (a # as) pat'"
    if pref: "\<forall>bs. m (a # bs) \<noteq> None \<and> pat_matches bs ps \<longrightarrow> preferred ps as bs"
      and a: "a = p \<or> (a = wildcard_part \<and> best (\<lambda>q. m (p # q)) ps = None)"
      and pat': "m pat' \<noteq> None" "pat_matches pat' (p # ps)" for a as pat'
  proof -
    obtain b bs where b: "pat' = b # bs" using pat'(2) by (cases pat') auto
    show ?thesis
    proof (cases "a = b")
      case True
      then have "pat_matches bs ps" using a b p ne pat'(2) by (auto simp: dotWildcard_def)
      with True b pref pat'(1) show ?thesis by simp
    next
      case False
      have "b \<noteq> p" if "a \<noteq> p"
      proof
        assume "b = p"
        then have "pat_matches bs ps"
          using p pat'(2) b by (auto simp: dotWildcard_def)
        with that a best_NoneD[of "\<lambda>q. m (p # q)" ps bs] pat'(1) b \<open>b = p\<close> show False by auto
      qed
      with False a b show ?thesis by (auto simp: label_rank_def)
    qed
  qed
  consider
    (static) "best (\<lambda>q. m (p # q)) ps = Some v"
  | (star) "best (\<lambda>q. m (p # q)) ps = None" "best (\<lambda>q. m (wildcard_part # q)) ps = Some v"
  | (dot) "best (\<lambda>q. m (p # q)) ps = None" "best (\<lambda>q. m (wildcard_part # q)) ps = None"
      "m [dotWildcard] = Some v"
    using Cons.prems(1) by (auto simp: first_some_eq_Some)
  then show ?case
  proof cases
    case static
    with Cons.IH[of "\<lambda>q. m (p # q)"] Cons.prems(2) obtain as where "m (p # as) = Some v"
      "pat_matches as ps" "\<forall>bs. m (p # bs) \<noteq> None \<and> pat_matches bs ps \<longrightarrow> preferred ps as bs"
      by auto
    then show ?thesis using label[of p as] by (intro exI[of _ "p # as"]) auto
  next
    case star
    with Cons.IH[of "\<lambda>q. m (wildcard_part # q)"] Cons.prems(2) obtain as where
      "m (wildcard_part # as) = Some v" "pat_matches as ps"
      "\<forall>bs. m (wildcard_part # bs) \<noteq> None \<and> pat_matches bs ps \<longrightarrow> preferred ps as bs" by auto
    then show ?thesis using label[of wildcard_part as] star(1)
      by (intro exI[of _ "wildcard_part # as"]) auto
  next
    case dot
    have "preferred (p # ps) [dotWildcard] pat'"
      if "m pat' \<noteq> None" "pat_matches pat' (p # ps)" for pat'
    proof -
      from that(2) obtain b bs where b: "pat' = b # bs" by (cases pat') auto
      with that dot(1,2) best_NoneD[of "\<lambda>q. m (p # q)" ps bs]
        best_NoneD[of "\<lambda>q. m (wildcard_part # q)" ps bs]
      have "b = dotWildcard \<and> bs = []" by auto
      with b show ?thesis by simp
    qed
    with dot(3) show ?thesis by (intro exI[of _ "[dotWildcard]"]) auto
  qed
qed

lemma valid_parts:
  assumes "ValidAndSplitDomain domain = Some parts"
  shows "parts = Split (ToLower domain) CHR ''.''" and "parts \<noteq> []" and "'''' \<notin> set (tl parts)"
proof -
  show p: "parts = Split (ToLower domain) CHR ''.''"
    using assms by (auto simp: ValidAndSplitDomain_def Let_def split: if_splits)
  then show "parts \<noteq> []" by simp
  show "'''' \<notin> set (tl parts)"
  proof (cases "length parts = 1")
    case True
    then have "tl parts = []" by (cases parts) auto
    then show ?thesis by simp
  next
    case False
    then show ?thesis using assms p
      by (auto simp: ValidAndSplitDomain_def Let_def split: if_splits)
  qed
qed

lemma node_data_Search:
  "node_data (Search t domain) =
     (case ValidAndSplitDomain domain of
        None \<Rightarrow> None
      | Some parts \<Rightarrow> if hd parts = '''' then None else best (entries t) (rev parts))"
  by (cases "ValidAndSplitDomain domain")
     (auto simp: Search_def Let_def isEmpty_iff trie_search_best, simp_all add: node_data_def)

text \<open>
  C7: Searching the trie for a valid name returns data exactly when some stored pattern covers
  the name, and then the data of the pattern that is preferred to every other covering one:
  compared from the top-level label down, a static label wins over a star and a star over the
  dot wildcard, backtracking included.
\<close>

theorem Search_correct:
  assumes "ValidAndSplitDomain domain = Some parts" and "hd parts \<noteq> ''''"
  shows "case node_data (Search t domain) of
      None \<Rightarrow> \<forall>pat. pat_matches pat (rev parts) \<longrightarrow> entries t pat = None
    | Some v \<Rightarrow> \<exists>pat. entries t pat = Some v \<and> pat_matches pat (rev parts) \<and>
        (\<forall>pat'. entries t pat' \<noteq> None \<and> pat_matches pat' (rev parts) \<longrightarrow>
           preferred (rev parts) pat pat')"
proof -
  have e: "'''' \<notin> set (rev parts)"
    using valid_parts(2,3)[OF assms(1)] assms(2) by (cases parts) auto
  show ?thesis
  proof (cases "best (entries t) (rev parts)")
    case None
    with best_NoneD[OF None] assms show ?thesis by (simp add: node_data_Search)
  next
    case (Some v)
    with best_SomeD[OF Some e] assms show ?thesis by (simp add: node_data_Search)
  qed
qed

theorem Search_correct_witness:
  "\<exists>pat. entries (trie_insert newNode [''b'', ''*''] (7 :: nat)) pat = Some 7 \<and>
     pat_matches pat [''b'', ''x'']"
proof -
  let ?t = "trie_insert newNode [''b'', ''*''] (7 :: nat)"
  have v: "ValidAndSplitDomain ''x.b'' = Some [''x'', ''b'']" by code_simp
  have d: "node_data (Search ?t ''x.b'') = Some 7" by code_simp
  show ?thesis using Search_correct[OF v, of ?t] unfolding d by auto
qed


section \<open>Inserting\<close>

text \<open>
  What one pattern string stores: with a leading plus the name itself and all names below it,
  otherwise the pattern as it is.
\<close>

definition stored :: "string list \<Rightarrow> string list set" where
  "stored parts =
     (if hd parts = complexWildcard then {rev (tl parts), rev (dotWildcard # tl parts)}
      else {rev parts})"

text \<open>
  C32: Insert refuses exactly the invalid domains; otherwise the trie maps the pattern (for a
  leading plus: the bare name and its dot wildcard) to the new data and nothing else changes,
  whatever mixture of inline children and maps the nodes on the path are in.
\<close>

theorem Insert_correct:
  "case ValidAndSplitDomain domain of
      None \<Rightarrow> Insert t domain d = Inl ErrInvalidDomain
    | Some parts \<Rightarrow> \<exists>t'. Insert t domain d = Inr t' \<and>
        entries t' = (\<lambda>pat. if pat \<in> stored parts then Some d else entries t pat)"
  by (auto simp: Insert_def stored_def entries_trie_insert fun_eq_iff split: option.splits)

section \<open>Optimize\<close>

text \<open>A node with a map has no inline child: true of every node the operations build.\<close>

fun node_ok :: "'a node \<Rightarrow> bool" where
  "node_ok (Node cm cn cs d) \<longleftrightarrow>
     (cm \<noteq> None \<longrightarrow> cn = None) \<and>
     (case cm of None \<Rightarrow> True
      | Some m \<Rightarrow> distinct (map fst m) \<and> (\<forall>kc \<in> set m. node_ok (snd kc))) \<and>
     (case cn of None \<Rightarrow> True | Some c \<Rightarrow> node_ok c)"

lemma node_ok_newNode [simp]: "node_ok newNode"
  by (simp add: newNode_def)

lemma node_ok_setData [simp]: "node_ok (setData n d) = node_ok n"
  by (cases n) (simp add: setData_def)

lemma node_ok_update:
  "distinct (map fst m) \<and> (\<forall>kc \<in> set m. node_ok (snd kc)) \<Longrightarrow> node_ok c \<Longrightarrow>
   distinct (map fst (AList.update s c m)) \<and> (\<forall>kc \<in> set (AList.update s c m). node_ok (snd kc))"
proof (induction m)
  case (Cons kc m)
  then show ?case by (cases kc) (auto simp: dom_update image_iff)
qed simp

lemma node_ok_addChild: "node_ok n \<Longrightarrow> node_ok c \<Longrightarrow> node_ok (addChild n s c)"
  using node_ok_update[of "[(childStr n, the (childNode n))]" c s]
  by (cases n) (auto simp: addChild_def node_ok_update split: option.splits)

lemma node_ok_setChild: "node_ok n \<Longrightarrow> node_ok c \<Longrightarrow> node_ok (setChild n s c)"
  by (cases n) (auto simp: setChild_def node_ok_update split: option.splits)

lemma node_ok_getChild: "node_ok n \<Longrightarrow> getChild n s = Some c \<Longrightarrow> node_ok c"
  by (cases n) (auto simp: getChild_def split: option.splits if_splits dest: map_of_SomeD)

lemma node_ok_trie_insert: "node_ok n \<Longrightarrow> node_ok (trie_insert n ps d)"
proof (induction n ps d rule: trie_insert.induct)
  case (2 n p ps d)
  then show ?case
    by (cases "getChild n p")
      (auto simp: getOrNewChild_def intro!: node_ok_addChild node_ok_setChild dest: node_ok_getChild)
qed simp

lemma Insert_ok: "node_ok t \<Longrightarrow> Insert t domain d = Inr t' \<Longrightarrow> node_ok t'"
  by (auto simp: Insert_def node_ok_trie_insert split: option.splits if_splits)

lemma map_of_map_snd: "map_of (map (\<lambda>(k, c). (k, f c)) m) s = map_option f (map_of m s)"
  by (induction m) auto

lemma getChild_optimize:
  assumes "node_ok n"
  shows "getChild (optimize n) s = map_option optimize (getChild n s)"
proof -
  obtain cm cn cs d where n: "n = Node cm cn cs d" by (cases n)
  consider "cm = None" | "cm = Some []" | k c where "cm = Some [(k, c)]"
    | a b r where "cm = Some (a # b # r)"
    by (metis list.exhaust not_None_eq surj_pair)
  then show ?thesis
  proof cases
    case 1
    then show ?thesis by (auto simp: n getChild_def split: option.splits)
  next
    case 2
    with assms show ?thesis by (simp add: n getChild_def)
  next
    case 3
    with assms show ?thesis by (simp add: n getChild_def)
  next
    case 4
    have "optimize n = Node (Some (map (\<lambda>(k, c). (k, optimize c)) (a # b # r))) (map_option optimize cn) cs d"
      by (cases a) (simp add: n 4)
    then show ?thesis by (simp only: getChild_def n 4 node.sel option.case map_of_map_snd)
  qed
qed

lemma n_data_optimize [simp]: "n_data (optimize n) = n_data n"
  by (cases n) (auto split: option.splits list.splits)

lemma entries_optimize [absrel]: "node_ok n \<Longrightarrow> entries (optimize n) ps = entries n ps"
proof (induction ps arbitrary: n)
  case (Cons p ps)
  then show ?case
    by (cases "getChild n p") (auto simp: getChild_optimize dest: node_ok_getChild)
qed simp

text \<open>
  C33: Optimize, which drops one-entry maps and reallocates the others, changes no stored pattern
  and no search result of a trie the operations built.
\<close>

theorem optimize_preserves:
  assumes "node_ok t"
  shows "entries (optimize t) = entries t \<and>
    node_data (Search (optimize t) domain) = node_data (Search t domain)"
proof -
  have "entries (optimize t) = entries t" using entries_optimize[OF assms] by auto
  then show ?thesis by (auto simp: node_data_Search split: option.split)
qed

theorem optimize_preserves_witness:
  "entries (optimize (trie_insert (trie_insert newNode [''b'', ''a''] 1) [''b''] (2::nat))) [''b'', ''a'']
   = Some 1"
proof -
  have "node_ok (trie_insert (trie_insert newNode [''b'', ''a''] 1) [''b''] (2::nat))"
    by (intro node_ok_trie_insert node_ok_newNode)
  from optimize_preserves[OF this] show ?thesis by (simp add: entries_trie_insert del: trie_insert.simps entries.simps)
qed

section \<open>Walking\<close>

text \<open>The patterns below a forest, with the path that leads to it, in the order of the walk.\<close>

function forest_list :: "string list \<Rightarrow> (string \<times> 'a node) list \<Rightarrow> (string list \<times> 'a) list" where
  "forest_list items [] = []"
| "forest_list items ((key, n) # rest) =
     (case n_data n of None \<Rightarrow> [] | Some d \<Rightarrow> [(key # items, d)]) @
     forest_list (key # items) (getChildren n) @ forest_list items rest"
  by pat_completeness auto
termination
proof (relation "measure (\<lambda>(items, cs). forest_count cs)", goal_cases)
  case (2 items key n rest)
  then show ?case using forest_count_getChildren[of n] by simp
next
  case (3 items key n rest)
  then show ?case using node_count_pos[of n] by simp
qed simp

text \<open>A callback run over a list until it asks to stop.\<close>

fun walk :: "('b \<Rightarrow> 's \<Rightarrow> bool \<times> 's) \<Rightarrow> 'b list \<Rightarrow> 's \<Rightarrow> bool \<times> 's" where
  "walk f [] s = (True, s)"
| "walk f (x # xs) s = (case f x s of (go, s') \<Rightarrow> if go then walk f xs s' else (False, s'))"

lemma walk_append:
  "walk f (xs @ ys) s = (case walk f xs s of (go, s') \<Rightarrow> if go then walk f ys s' else (False, s'))"
  by (induction xs arbitrary: s) (auto split: prod.splits)

lemma recursion_walk:
  "recursion items cs fn s =
     walk (\<lambda>(p, d). fn (recursion_name p) d) (forest_list items cs) s"
proof (induction items cs fn s rule: recursion.induct)
  case (2 items key n rest fn s)
  show ?case
    using "2.IH" by (cases "n_data n") (auto simp: walk_append split: prod.splits)
qed simp

lemma getChildren_iff: "node_ok n \<Longrightarrow> (s, c) \<in> set (getChildren n) \<longleftrightarrow> getChild n s = Some c"
  by (cases n) (auto simp: getChildren_def getChild_def split: option.splits)

lemma getChildren_ok: "node_ok n \<Longrightarrow> (s, c) \<in> set (getChildren n) \<Longrightarrow> node_ok c"
  using getChildren_iff node_ok_getChild by metis

lemma children_paths:
  assumes "node_ok n"
  shows "(\<exists>k c ps. (k, c) \<in> set (getChildren n) \<and> path = rev (k # ps) @ key # items \<and>
         entries c ps = Some d) \<longleftrightarrow>
    (\<exists>ps. ps \<noteq> [] \<and> path = rev (key # ps) @ items \<and> entries n ps = Some d)"
proof
  assume "\<exists>k c ps. (k, c) \<in> set (getChildren n) \<and> path = rev (k # ps) @ key # items \<and>
       entries c ps = Some d"
  then obtain k c ps where "getChild n k = Some c" "path = rev (k # ps) @ key # items"
    "entries c ps = Some d" by (auto simp: getChildren_iff[OF assms])
  then show "\<exists>ps. ps \<noteq> [] \<and> path = rev (key # ps) @ items \<and> entries n ps = Some d"
    by (intro exI[of _ "k # ps"]) simp
next
  assume "\<exists>ps. ps \<noteq> [] \<and> path = rev (key # ps) @ items \<and> entries n ps = Some d"
  then obtain k ps where "path = rev (key # k # ps) @ items" "entries n (k # ps) = Some d"
    by (metis neq_Nil_conv)
  then show "\<exists>k c ps. (k, c) \<in> set (getChildren n) \<and> path = rev (k # ps) @ key # items \<and>
       entries c ps = Some d"
    by (auto simp: getChildren_iff[OF assms] split: option.splits)
qed

lemma forest_list_iff:
  "(\<And>k n. (k, n) \<in> set cs \<Longrightarrow> node_ok n) \<Longrightarrow>
   (path, d) \<in> set (forest_list items cs) \<longleftrightarrow>
     (\<exists>k n ps. (k, n) \<in> set cs \<and> path = rev (k # ps) @ items \<and> entries n ps = Some d)"
proof (induction items cs rule: forest_list.induct)
  case (2 items key n rest)
  have ok: "node_ok n" using "2.prems"[of key n] by simp
  have "(path, d) \<in> set (forest_list (key # items) (getChildren n)) \<longleftrightarrow>
      (\<exists>k c ps. (k, c) \<in> set (getChildren n) \<and> path = rev (k # ps) @ key # items \<and>
         entries c ps = Some d)"
    by (rule "2.IH"(1)) (rule getChildren_ok[OF ok])
  also have "\<dots> \<longleftrightarrow> (\<exists>ps. ps \<noteq> [] \<and> path = rev (key # ps) @ items \<and> entries n ps = Some d)"
    by (rule children_paths[OF ok])
  finally have sub: "(path, d) \<in> set (forest_list (key # items) (getChildren n)) \<longleftrightarrow>
      (\<exists>ps. ps \<noteq> [] \<and> path = rev (key # ps) @ items \<and> entries n ps = Some d)" .
  have "(path, d) \<in> set (case n_data n of None \<Rightarrow> [] | Some d \<Rightarrow> [(key # items, d)]) \<longleftrightarrow>
      path = key # items \<and> entries n [] = Some d"
    by (auto split: option.splits)
  then have "(path, d) \<in> set (forest_list items ((key, n) # rest)) \<longleftrightarrow>
      (\<exists>ps. path = rev (key # ps) @ items \<and> entries n ps = Some d) \<or>
      (path, d) \<in> set (forest_list items rest)"
    unfolding forest_list.simps set_append Un_iff sub
    by (metis append_Cons append_Nil rev.simps)
  also have "(path, d) \<in> set (forest_list items rest) \<longleftrightarrow>
      (\<exists>k n ps. (k, n) \<in> set rest \<and> path = rev (k # ps) @ items \<and> entries n ps = Some d)"
    by (rule "2.IH"(2)) (use "2.prems" in auto)
  finally show ?case by auto
qed simp

lemma forest_list_children:
  assumes "node_ok n"
  shows "(path, d) \<in> set (forest_list (key # items) (getChildren n)) \<longleftrightarrow>
      (\<exists>ps. ps \<noteq> [] \<and> path = rev (key # ps) @ items \<and> entries n ps = Some d)"
    (is "_ \<longleftrightarrow> ?R")
proof -
  have "(path, d) \<in> set (forest_list (key # items) (getChildren n)) \<longleftrightarrow>
      (\<exists>k c ps. (k, c) \<in> set (getChildren n) \<and> path = rev (k # ps) @ key # items \<and>
         entries c ps = Some d)"
    by (rule forest_list_iff) (rule getChildren_ok[OF assms])
  also have "\<dots> \<longleftrightarrow> ?R"
    by (rule children_paths[OF assms])
  finally show ?thesis .
qed

text \<open>The name under which Foreach reports a pattern of the trie.\<close>

definition reported_name :: "string list \<Rightarrow> string" where
  "reported_name labels = (if length labels = 1 then joinDomain labels else recursion_name labels)"

definition collect :: "string \<Rightarrow> 'a \<Rightarrow> (string \<times> 'a) list \<Rightarrow> bool \<times> (string \<times> 'a) list" where
  "collect name d acc = (True, (name, d) # acc)"

lemma collect_iff: "collect name d acc = (go, s) \<longleftrightarrow> go \<and> s = (name, d) # acc"
  by (auto simp: collect_def)

lemma walk_collect:
  "walk (\<lambda>(p, d). collect (g p) d) xs acc = (True, rev (map (\<lambda>(p, d). (g p, d)) xs) @ acc)"
  by (induction xs arbitrary: acc) (auto simp: collect_def)

definition below :: "string \<Rightarrow> 'a node \<Rightarrow> (string \<times> 'a) list" where
  "below k n = map (\<lambda>(p, d). (recursion_name p, d)) (forest_list [k] (getChildren n)) @
     (case n_data n of None \<Rightarrow> [] | Some d \<Rightarrow> [(joinDomain [k], d)])"

lemma foreach_collect:
  "foreach_loop cs collect acc = rev (concat (map (\<lambda>(k, n). below k n) cs)) @ acc"
proof (induction cs arbitrary: acc)
  case (Cons kn cs)
  obtain k n where kn: "kn = (k, n)" by fastforce
  show ?case
    by (cases "n_data n")
       (auto simp: kn below_def recursion_walk walk_collect Cons.IH collect_iff split: prod.splits)
qed simp

lemma set_below:
  assumes "node_ok n"
  shows "(name, d) \<in> set (below k n) \<longleftrightarrow>
    (\<exists>ps. entries n ps = Some d \<and> name = reported_name (rev (k # ps)))"
proof -
  have "(name, d) \<in> set (below k n) \<longleftrightarrow>
      (\<exists>p. (p, d) \<in> set (forest_list [k] (getChildren n)) \<and> name = recursion_name p) \<or>
      (entries n [] = Some d \<and> name = joinDomain [k])"
    by (auto simp: below_def image_iff split: option.splits)
  also have "\<dots> \<longleftrightarrow> (\<exists>ps. ps \<noteq> [] \<and> entries n ps = Some d \<and> name = recursion_name (rev (k # ps))) \<or>
      (entries n [] = Some d \<and> name = joinDomain [k])"
    by (auto simp: forest_list_children[OF assms])
  also have "\<dots> \<longleftrightarrow> (\<exists>ps. entries n ps = Some d \<and> name = reported_name (rev (k # ps)))"
    by (auto simp: reported_name_def)
  finally show ?thesis .
qed

text \<open>
  With a callback that never stops, Foreach reports exactly the stored patterns, each under
  its dotted name (a dot wildcard below a name comes back as the plus pattern) and with its data.
\<close>

theorem Foreach_complete:
  assumes "node_ok t"
  shows "set (Foreach t collect []) =
    {(reported_name (rev pat), d) | pat d. pat \<noteq> [] \<and> entries t pat = Some d}"
proof -
  have "(name, d) \<in> set (Foreach t collect []) \<longleftrightarrow>
      (\<exists>pat. pat \<noteq> [] \<and> entries t pat = Some d \<and> name = reported_name (rev pat))" for name d
  proof -
    have "(name, d) \<in> set (Foreach t collect []) \<longleftrightarrow>
        (\<exists>k n. (k, n) \<in> set (getChildren t) \<and> (name, d) \<in> set (below k n))"
      by (auto simp: Foreach_def foreach_collect)
    also have "\<dots> \<longleftrightarrow> (\<exists>k n. getChild t k = Some n \<and>
        (\<exists>ps. entries n ps = Some d \<and> name = reported_name (rev (k # ps))))"
      by (simp add: getChildren_iff[OF assms] set_below node_ok_getChild[OF assms] cong: conj_cong)
    also have "\<dots> \<longleftrightarrow> (\<exists>k ps. entries t (k # ps) = Some d \<and> name = reported_name (rev (k # ps)))"
      unfolding entries_Cons_Some by blast
    also have "\<dots> \<longleftrightarrow> (\<exists>pat. pat \<noteq> [] \<and> entries t pat = Some d \<and> name = reported_name (rev pat))"
      unfolding neq_Nil_conv by blast
    finally show ?thesis .
  qed
  then show ?thesis by auto
qed


theorem Foreach_complete_witness:
  "set (Foreach (trie_insert (trie_insert newNode [''b'', ''a''] (1::nat)) [''c'', ''''] 2) collect [])
   = {(reported_name (rev pat), d) | pat d. pat \<noteq> [] \<and>
        entries (trie_insert (trie_insert newNode [''b'', ''a''] (1::nat)) [''c'', ''''] 2) pat = Some d}"
  by (rule Foreach_complete) (intro node_ok_trie_insert node_ok_newNode)

text \<open>
  A callback's wish to stop is lost below the top level: Foreach discards what the recursion
  returns, so on a trie with two names under different top-level labels a callback that asks to
  stop at once is still called for both.
\<close>

theorem Foreach_ignores_stop:
  "Foreach (trie_insert (trie_insert newNode [''a'', ''x''] (1::nat)) [''b'', ''y''] 2)
     (\<lambda>name d called. (False, called @ [name])) [] = [''x.a'', ''y.b'']"
  by (simp add: Foreach_def getChildren_def getOrNewChild_def getChild_def addChild_def setChild_def
      setData_def newNode_def recursion_name_def joinDomain_def)

end
