(* ===== verification/Hosts.thy ===== *)
theory Hosts imports DomainTrie NetIP begin

text \<open>
  component/resolver/host.go and \<open>parseHosts\<close> of config/config.go: the hosts table, a domain trie
  whose values are address lists or aliases. Following aliases is a loop that ends only if
  the alias chain does, so the search is a partial function: \<open>None\<close> is a search that never returns.
\<close>

section \<open>Host values\<close>

record host_value =
  hv_IsDomain :: bool
  hv_IPs :: "addr list"
  hv_Domain :: string

text \<open>A configuration value: a string, a sequence of strings, or something else.\<close>

datatype host_any = HString string | HSlice "string list" | HOther

fun ToStringSlice :: "host_any \<Rightarrow> string list option" where
  "ToStringSlice (HString s) = Some [s]"
| "ToStringSlice (HSlice ss) = Some ss"
| "ToStringSlice HOther = None"

definition NewHostValueByIPs :: "addr list \<Rightarrow> host_value option" where
  "NewHostValueByIPs ips =
     (if length ips = 0 then None else Some \<lparr>hv_IsDomain = False, hv_IPs = ips, hv_Domain = ''''\<rparr>)"

definition NewHostValueByDomain :: "string \<Rightarrow> host_value option" where
  "NewHostValueByDomain domain0 =
     (let domain = Trim domain0 ''.''; item = Split domain CHR ''.'' in
      if length item < 2 then None else Some \<lparr>hv_IsDomain = True, hv_IPs = [], hv_Domain = domain\<rparr>)"

definition NewHostValue :: "host_any \<Rightarrow> host_value option" where
  "NewHostValue value =
     (case ToStringSlice value of
        None \<Rightarrow> None
      | Some valueArr \<Rightarrow>
          if length valueArr > 1 then
            (case all_some (map (\<lambda>s. map_option Unmap (ParseAddr s)) valueArr) of
               None \<Rightarrow> None
             | Some ips \<Rightarrow> NewHostValueByIPs ips)
          else if length valueArr = 1 then
            (case ParseAddr (hd valueArr) of
               Some ip \<Rightarrow> NewHostValueByIPs [Unmap ip]
             | None \<Rightarrow> NewHostValueByDomain (hd valueArr))
          else NewHostValueByDomain '''')"

text \<open>\<open>RandIP\<close>, with the random number drawn as an argument.\<close>

definition RandIP :: "host_value \<Rightarrow> nat \<Rightarrow> addr option" where
  "RandIP hv rnd = (if hv_IsDomain hv then None else Some (hv_IPs hv ! (rnd mod length (hv_IPs hv))))"

section \<open>Search\<close>

text \<open>The data found under a domain; \<open>Search\<close> of the trie returns only nodes that hold some.\<close>

definition host_lookup :: "host_value node \<Rightarrow> string \<Rightarrow> host_value option" where
  "host_lookup t domain = (case Search t domain of None \<Rightarrow> None | Some n \<Rightarrow> n_data n)"

partial_function (option) hosts_loop ::
  "host_value node \<Rightarrow> bool \<Rightarrow> host_value \<Rightarrow> host_value option" where
  "hosts_loop t isDomain hostValue =
     (if isDomain \<and> hv_IsDomain hostValue then Some hostValue
      else case host_lookup t (hv_Domain hostValue) of
        Some v \<Rightarrow> hosts_loop t isDomain v
      | None \<Rightarrow> Some hostValue)"

text \<open>
  \<open>Hosts.Search\<close>: the value found and whether it is of the kind asked for. The static hosts
  file of the system (already switched by its two flags) is the argument \<open>static\<close>.
\<close>

definition hosts_Search ::
  "(string \<Rightarrow> host_any option) \<Rightarrow> host_value node \<Rightarrow> string \<Rightarrow> bool \<Rightarrow> (host_value option \<times> bool) option" where
  "hosts_Search static t domain isDomain =
     (case host_lookup t domain of
        Some hostValue \<Rightarrow>
          map_option (\<lambda>hv. (Some hv, isDomain = hv_IsDomain hv)) (hosts_loop t isDomain hostValue)
      | None \<Rightarrow>
          if \<not> isDomain then
            (case Option.bind (static domain) NewHostValue of
               Some hv \<Rightarrow> Some (Some hv, True)
             | None \<Rightarrow> Some (None, False))
          else Some (None, False))"

section \<open>parseHosts\<close>

text \<open>The cycle check: \<open>Some True\<close> when the chain comes back to \<open>domain\<close>.\<close>

partial_function (option) cycle_loop :: "host_value node \<Rightarrow> string \<Rightarrow> host_value option \<Rightarrow> bool option" where
  "cycle_loop t domain v =
     (case v of
        None \<Rightarrow> Some False
      | Some hv \<Rightarrow>
          if \<not> hv_IsDomain hv then Some False
          else if hv_Domain hv = domain then Some True
          else cycle_loop t domain (host_lookup t (hv_Domain hv)))"

datatype hosts_error = NotValidValue | AliasCycle string

fun hosts_entries ::
  "string list option \<Rightarrow> host_value node \<Rightarrow> (string \<times> host_any) list \<Rightarrow> (hosts_error + host_value node) option" where
  "hosts_entries lan tree [] = Some (Inr tree)"
| "hosts_entries lan tree ((domain, anyValue) # rest) =
     (let anyValue' = (if anyValue = HString ''lan'' then
                         (case lan of None \<Rightarrow> anyValue | Some ips \<Rightarrow> HSlice ips) else anyValue) in
      case NewHostValue anyValue' of
        None \<Rightarrow> Some (Inl NotValidValue)
      | Some value \<Rightarrow>
          let go = (case Insert tree domain value of
                      Inl _ \<Rightarrow> hosts_entries lan tree rest
                    | Inr tree' \<Rightarrow> hosts_entries lan tree' rest) in
          if hv_IsDomain value then
            (case cycle_loop tree domain (host_lookup tree (hv_Domain value)) of
               None \<Rightarrow> None
             | Some True \<Rightarrow> Some (Inl (AliasCycle domain))
             | Some False \<Rightarrow> go)
          else go)"

definition localhost_value :: host_value where
  "localhost_value = \<lparr>hv_IsDomain = False, hv_IPs = [V4 0x7f000001], hv_Domain = ''''\<rparr>"

definition parseHosts ::
  "string list option \<Rightarrow> (string \<times> host_any) list \<Rightarrow> (hosts_error + host_value node) option" where
  "parseHosts lan hosts =
     (let tree = (case Insert newNode ''localhost'' localhost_value of Inl _ \<Rightarrow> newNode | Inr t \<Rightarrow> t) in
      map_option (map_sum id optimize) (hosts_entries lan tree hosts))"

declare hosts_loop.simps [code] cycle_loop.simps [code]

section \<open>What a search returns\<close>

definition alias_step :: "host_value node \<Rightarrow> host_value \<Rightarrow> host_value \<Rightarrow> bool" where
  "alias_step t v w \<longleftrightarrow> host_lookup t (hv_Domain v) = Some w"

lemma loop_sound_aux:
  assumes "hosts_loop t b v = Some w"
  shows "\<not> b \<longrightarrow> (alias_step t)\<^sup>*\<^sup>* v w \<and> host_lookup t (hv_Domain w) = None"
  using assms
proof (rule hosts_loop.raw_induct[where P = "\<lambda>t b v w. \<not> b \<longrightarrow>
    (alias_step t)\<^sup>*\<^sup>* v w \<and> host_lookup t (hv_Domain w) = None", rotated])
  fix f t b v w
  assume IH: "\<And>t b v w. f t b v = Some w \<Longrightarrow> \<not> b \<longrightarrow>
      (alias_step t)\<^sup>*\<^sup>* v w \<and> host_lookup t (hv_Domain w) = None"
    and "(if b \<and> hv_IsDomain v then Some v
      else case host_lookup t (hv_Domain v) of None \<Rightarrow> Some v | Some x \<Rightarrow> f t b x) = Some w"
  then show "\<not> b \<longrightarrow> (alias_step t)\<^sup>*\<^sup>* v w \<and> host_lookup t (hv_Domain w) = None"
    by (auto simp: alias_step_def[abs_def] split: if_splits option.splits
        dest!: IH intro: converse_rtranclp_into_rtranclp)
qed

lemmas loop_sound = loop_sound_aux[where b = False, simplified]

lemma loop_complete:
  "(alias_step t)\<^sup>*\<^sup>* v w \<Longrightarrow> host_lookup t (hv_Domain w) = None \<Longrightarrow> hosts_loop t False v = Some w"
proof (induction rule: converse_rtranclp_induct)
  case base
  then show ?case by (simp add: hosts_loop.simps[of t False w])
next
  case (step v u)
  then show ?case by (simp add: hosts_loop.simps[of t False v] alias_step_def)
qed

text \<open>
  C35: a search for addresses under a domain of the table returns exactly when the chain of aliases
  from its value ends, and then it returns the last value, accepted if that is an address list.
\<close>

theorem hosts_Search_follows_aliases:
  "host_lookup t domain \<noteq> None \<and> hosts_Search static t domain False = Some (Some w, ok) \<longleftrightarrow>
   (\<exists>v. host_lookup t domain = Some v \<and> (alias_step t)\<^sup>*\<^sup>* v w \<and> host_lookup t (hv_Domain w) = None \<and>
     ok = (\<not> hv_IsDomain w))"
  by (auto simp: hosts_Search_def dest: loop_sound loop_complete split: option.split)

text \<open>
  If the aliases of the table can be ranked so that each points to a value of smaller rank, every
  search returns, for addresses and for aliases.
\<close>

theorem hosts_Search_terminates:
  fixes rank :: "host_value \<Rightarrow> nat"
  assumes "\<And>v w. host_lookup t (hv_Domain v) = Some w \<Longrightarrow> rank w < rank v"
  shows "hosts_Search static t domain isDomain \<noteq> None"
proof -
  have "hosts_loop t isDomain v \<noteq> None" for v
  proof (induction "rank v" arbitrary: v rule: less_induct)
    case less
    then show ?case
      using assms by (subst hosts_loop.simps) (auto split: option.split)
  qed
  then show ?thesis by (auto simp: hosts_Search_def split: option.split)
qed

text \<open>The one-entry table the witness and the counterexample below use.\<close>

definition one_alias :: "string \<Rightarrow> host_value node" where
  "one_alias target = (case Insert newNode ''a.com'' \<lparr>hv_IsDomain = True, hv_IPs = [], hv_Domain = target\<rparr> of
     Inl _ \<Rightarrow> newNode | Inr t \<Rightarrow> t)"

lemma host_lookup_data: "host_lookup t domain = node_data (Search t domain)"
  by (simp add: host_lookup_def node_data_def)

lemma host_lookup_stored:
  assumes "host_lookup t domain = Some w"
  shows "\<exists>pat. entries t pat = Some w"
proof -
  have w: "node_data (Search t domain) = Some w" using assms by (simp only: host_lookup_data)
  obtain parts where p: "ValidAndSplitDomain domain = Some parts"
    using w by (cases "ValidAndSplitDomain domain") (simp_all add: node_data_Search)
  have ne: "hd parts \<noteq> ''''" and best: "best (entries t) (rev parts) = Some w"
    using w p by (simp_all add: node_data_Search split: if_splits)
  have "'''' \<notin> set (rev parts)" using valid_parts(2,3)[OF p] ne by (cases parts) auto
  then show ?thesis using best_SomeD[OF best] by blast
qed

lemma one_alias_value:
  "host_lookup (one_alias d) domain = Some w \<Longrightarrow> w = \<lparr>hv_IsDomain = True, hv_IPs = [], hv_Domain = d\<rparr>"
proof -
  have "one_alias d = trie_insert newNode [''com'', ''a''] \<lparr>hv_IsDomain = True, hv_IPs = [], hv_Domain = d\<rparr>"
  proof -
    have "ValidAndSplitDomain ''a.com'' = Some [''a'', ''com'']" by code_simp
    then show ?thesis by (simp add: one_alias_def Insert_def complexWildcard_def del: trie_insert.simps)
  qed
  then show "host_lookup (one_alias d) domain = Some w \<Longrightarrow> w = \<lparr>hv_IsDomain = True, hv_IPs = [], hv_Domain = d\<rparr>"
    by (auto simp del: trie_insert.simps simp: entries_trie_insert entries_empty_abs dest!: host_lookup_stored split: if_splits)
qed

theorem hosts_Search_terminates_witness:
  "hosts_Search (\<lambda>_. None) (one_alias ''b.com'') ''a.com'' False \<noteq> None"
proof (rule hosts_Search_terminates[where
    rank = "\<lambda>v. if host_lookup (one_alias ''b.com'') (hv_Domain v) = None then 0 else 1"])
  fix v w assume "host_lookup (one_alias ''b.com'') (hv_Domain v) = Some w"
  moreover have "host_lookup (one_alias ''b.com'') ''b.com'' = None" by code_simp
  ultimately show "(if host_lookup (one_alias ''b.com'') (hv_Domain w) = None then 0 else 1 :: nat) <
      (if host_lookup (one_alias ''b.com'') (hv_Domain v) = None then 0 else 1)"
    using one_alias_value by fastforce
qed

lemma self_alias_diverges:
  assumes "host_lookup t (hv_Domain v) = Some v"
  shows "hosts_loop t False v = None"
proof -
  have "(alias_step t)\<^sup>*\<^sup>* v w \<Longrightarrow> w = v" for w
    by (induction rule: rtranclp_induct) (use assms in \<open>auto simp: alias_step_def\<close>)
  then show ?thesis using loop_sound[of t v] assms by (cases "hosts_loop t False v") fastforce+
qed

lemma cycle_loop_diverges:
  assumes "host_lookup t (hv_Domain v) = Some v" and "hv_IsDomain v" and "hv_Domain v \<noteq> domain"
  shows "cycle_loop t domain (Some v) = None"
proof -
  have False if "cycle_loop t domain (Some v) = Some r" for r
  proof -
    have "\<not> (d = domain \<and> u = Some v \<and> t' = t)" if "cycle_loop t' d u = Some r" for t' d and u :: "host_value option" and r
      using that
    proof (rule cycle_loop.raw_induct[where P = "\<lambda>t' d u r. \<not> (d = domain \<and> u = Some v \<and> t' = t)", rotated])
      fix f t' d and u :: "host_value option" and r
      assume "\<And>t' d u r. f t' d u = Some r \<Longrightarrow> \<not> (d = domain \<and> u = Some v \<and> t' = t)"
        and "(case u of None \<Rightarrow> Some False | Some hv \<Rightarrow>
          if \<not> hv_IsDomain hv then Some False
          else if hv_Domain hv = d then Some True
          else f t' d (host_lookup t' (hv_Domain hv))) = Some r"
      then show "\<not> (d = domain \<and> u = Some v \<and> t' = t)"
        using assms by (auto split: if_splits) blast
    qed
    then show False using that by blast
  qed
  then show ?thesis by (cases "cycle_loop t domain (Some v)") auto
qed

text \<open>
  The cycle check misses an alias that points to its own name: \<open>a.com: a.com\<close> is accepted, a
  search for \<open>a.com\<close> in the resulting table never returns, and a further alias to \<open>a.com\<close>
  makes reading the configuration itself never return.
\<close>

theorem self_alias_accepted:
  "(case parseHosts lan [(''a.com'', HString ''a.com'')] of
      Some (Inr t) \<Rightarrow> hosts_Search static t ''a.com'' False = None
    | _ \<Rightarrow> False) \<and>
   parseHosts lan [(''a.com'', HString ''a.com''), (''c.com'', HString ''a.com'')] = None"
proof -
  let ?v = "\<lparr>hv_IsDomain = True, hv_IPs = [], hv_Domain = ''a.com''\<rparr>"
  obtain t0 where t0: "Insert newNode ''localhost'' localhost_value = Inr t0"
    and free: "cycle_loop t0 ''a.com'' (host_lookup t0 ''a.com'') = Some False"
  proof -
    have "case Insert newNode ''localhost'' localhost_value of Inr t0 \<Rightarrow>
        cycle_loop t0 ''a.com'' (host_lookup t0 ''a.com'') = Some False | Inl _ \<Rightarrow> False" by code_simp
    then show thesis using that by (auto split: sum.splits)
  qed
  obtain t1 where t1: "Insert t0 ''a.com'' ?v = Inr t1" "host_lookup t1 ''a.com'' = Some ?v"
      "host_lookup (optimize t1) ''a.com'' = Some ?v"
  proof -
    have "case Insert newNode ''localhost'' localhost_value of Inr t0 \<Rightarrow>
        (case Insert t0 ''a.com'' ?v of Inr t1 \<Rightarrow> host_lookup t1 ''a.com'' = Some ?v \<and>
          host_lookup (optimize t1) ''a.com'' = Some ?v | Inl _ \<Rightarrow> False) | Inl _ \<Rightarrow> False" by code_simp
    then show thesis using that t0 by (auto split: sum.splits)
  qed
  have val: "NewHostValue (HString ''a.com'') = Some ?v" by code_simp
  have first: "hosts_entries lan t0 ((''a.com'', HString ''a.com'') # rest) = hosts_entries lan t1 rest" for rest
    using val free t1(1) by simp
  have "cycle_loop t1 ''c.com'' (Some ?v) = None"
    using t1(2) by (intro cycle_loop_diverges) auto
  then have second: "hosts_entries lan t1 [(''c.com'', HString ''a.com'')] = None"
    using val t1(2) by simp
  have "hosts_loop (optimize t1) False ?v = None" using t1(3) by (intro self_alias_diverges) simp
  then have "hosts_Search static (optimize t1) ''a.com'' False = None"
    using t1(3) by (simp add: hosts_Search_def)
  then show ?thesis using first second t0 by (simp add: parseHosts_def Let_def)
qed

end
