(* ===== verification/Tunnel.thy ===== *)
theory Tunnel imports RuleConfig Hosts begin

text \<open>
  tunnel/tunnel.go, tunnel/mode.go, tunnel/status.go and component/resolver/enhancer.go: what the
  core does with one incoming connection, from the status check over the hosts and fake-ip
  preprocessing and the choice of the proxy to the metadata it dials with, and the retry loop.
\<close>

section \<open>Mode and status\<close>

datatype tunnel_mode = Global | Rule | Direct

fun mode_String :: "tunnel_mode \<Rightarrow> string" where
  "mode_String Global = ''global''"
| "mode_String Rule = ''rule''"
| "mode_String Direct = ''direct''"

definition ModeMapping :: "string \<Rightarrow> tunnel_mode option" where
  "ModeMapping = map_of (map (\<lambda>m. (mode_String m, m)) [Global, Rule, Direct])"

definition mode_UnmarshalText :: "string \<Rightarrow> tunnel_mode option" where
  "mode_UnmarshalText data = ModeMapping (ToLower data)"

datatype tunnel_status = Suspend | Inner | Running

fun status_String :: "tunnel_status \<Rightarrow> string" where
  "status_String Suspend = ''suspend''"
| "status_String Inner = ''inner''"
| "status_String Running = ''running''"

definition StatusMapping :: "string \<Rightarrow> tunnel_status option" where
  "StatusMapping = map_of (map (\<lambda>s. (status_String s, s)) [Suspend, Inner, Running])"

definition status_UnmarshalText :: "string \<Rightarrow> tunnel_status option" where
  "status_UnmarshalText data = StatusMapping (ToLower data)"

definition isHandle :: "tunnel_status \<Rightarrow> in_type \<Rightarrow> bool" where
  "isHandle status t \<longleftrightarrow> status = Running \<or> (status = Inner \<and> t = INNER)"

section \<open>The host mapper\<close>

text \<open>The \<open>Enhancer\<close> interface that the DNS component implements, as the record of its methods.\<close>

record enhancer =
  en_FakeIPEnabled :: bool
  en_MappingEnabled :: bool
  en_IsFakeIP :: "addr \<Rightarrow> bool"
  en_IsFakeBroadcastIP :: "addr \<Rightarrow> bool"
  en_IsExistFakeIP :: "addr \<Rightarrow> bool"
  en_FindHostByIP :: "addr \<Rightarrow> string option"

definition FakeIPEnabled :: "enhancer option \<Rightarrow> bool" where
  "FakeIPEnabled mapper = (case mapper of Some m \<Rightarrow> en_FakeIPEnabled m | None \<Rightarrow> False)"

definition MappingEnabled :: "enhancer option \<Rightarrow> bool" where
  "MappingEnabled mapper = (case mapper of Some m \<Rightarrow> en_MappingEnabled m | None \<Rightarrow> False)"

definition IsFakeIP :: "enhancer option \<Rightarrow> addr \<Rightarrow> bool" where
  "IsFakeIP mapper ip = (case mapper of Some m \<Rightarrow> en_IsFakeIP m ip | None \<Rightarrow> False)"

definition IsFakeBroadcastIP :: "enhancer option \<Rightarrow> addr \<Rightarrow> bool" where
  "IsFakeBroadcastIP mapper ip = (case mapper of Some m \<Rightarrow> en_IsFakeBroadcastIP m ip | None \<Rightarrow> False)"

definition IsExistFakeIP :: "enhancer option \<Rightarrow> addr \<Rightarrow> bool" where
  "IsExistFakeIP mapper ip = (case mapper of Some m \<Rightarrow> en_IsExistFakeIP m ip | None \<Rightarrow> False)"

definition FindHostByIP :: "enhancer option \<Rightarrow> addr \<Rightarrow> string option" where
  "FindHostByIP mapper ip = (case mapper of Some m \<Rightarrow> en_FindHostByIP m ip | None \<Rightarrow> None)"

section \<open>Proxies\<close>

datatype adapter_type = A_Direct | A_Reject | A_RejectDrop | A_Compatible | A_Pass | A_Dns | A_Relay
  | A_Selector | A_Fallback | A_URLTest | A_LoadBalance | A_Outbound

text \<open>
  What the tunnel sees of a proxy: name, type, UDP support and \<open>Unwrap(metadata, false)\<close>. The types of
  the single outbounds, which the tunnel does not tell apart, are one constructor.
\<close>

datatype proxy = Proxy
  (p_Name: string) (p_Type: adapter_type) (p_SupportUDP: bool) (p_Unwrap: "metadata \<Rightarrow> proxy option")

text \<open>The walk through nested groups looking for Pass.\<close>

primrec unwraps_to_Pass :: "proxy \<Rightarrow> metadata \<Rightarrow> bool" where
  "unwraps_to_Pass (Proxy name t udp unwrap) =
     (\<lambda>m. if t = A_Pass then True
          else (case map_option unwraps_to_Pass (unwrap m) of None \<Rightarrow> False | Some rest \<Rightarrow> rest m))"

datatype find_process_mode = FindProcessAlways | FindProcessStrict | FindProcessOff

record tunnel =
  t_status :: tunnel_status
  t_mode :: tunnel_mode
  t_findProcessMode :: find_process_mode
  t_proxies :: "string \<Rightarrow> proxy option"
  t_rules :: "rule list"
  t_env :: env
  t_mapper :: "enhancer option"
  t_hosts :: "host_value node"
  t_static :: "string \<Rightarrow> host_any option"
  t_rand :: nat
  t_ResolveIP :: "string \<Rightarrow> addr option"
  t_CMFA :: bool
  t_FindProcessName :: "string \<Rightarrow> addr \<Rightarrow> u16 \<Rightarrow> (u32 \<times> string) option"
  t_FindPackageName :: "metadata \<Rightarrow> string option"

text \<open>
  \<open>t_ResolveIP\<close> is the DNS resolver, \<open>t_FindProcessName\<close> and \<open>t_FindPackageName\<close> the platform's lookups,
  \<open>t_rand\<close> the random number of \<open>RandIP\<close>, \<open>t_static\<close> the system's hosts file. A hosts search that
  does not return makes the operations below return nothing (\<open>Inl Diverged\<close>).
\<close>

datatype tunnel_error = Diverged | MatchFailed match_error | NoProxy string | FakeRecordMissing addr
  | NotHandled | InvalidMetadata | SniffFailed

definition search_hosts :: "tunnel \<Rightarrow> string \<Rightarrow> bool \<Rightarrow> (host_value option \<times> bool) option" where
  "search_hosts t domain isDomain = hosts_Search (t_static t) (t_hosts t) domain isDomain"

text \<open>\<open>RandIP\<close> with its error ignored: the zero address for an alias.\<close>

definition rand_ip :: "tunnel \<Rightarrow> host_value \<Rightarrow> addr" where
  "rand_ip t hv = (case RandIP hv (t_rand t) of Some ip \<Rightarrow> ip | None \<Rightarrow> NoAddr)"

section \<open>Preprocessing\<close>

definition fixMetadata :: "metadata \<Rightarrow> metadata" where
  "fixMetadata m0 =
     (let m = m0\<lparr>md_DstIP := Unmap (md_DstIP m0)\<rparr> in
      case ParseAddr (md_Host m) of
        Some ip \<Rightarrow> m\<lparr>md_DstIP := Unmap ip, md_Host := ''''\<rparr>
      | None \<Rightarrow> m)"

definition needLookupIP :: "tunnel \<Rightarrow> metadata \<Rightarrow> bool" where
  "needLookupIP t m \<longleftrightarrow> MappingEnabled (t_mapper t) \<and> md_Host m = '''' \<and> IsValid (md_DstIP m)"

definition preHandleMetadata :: "tunnel \<Rightarrow> metadata \<Rightarrow> (tunnel_error option \<times> metadata) option" where
  "preHandleMetadata t m =
     (if needLookupIP t m then
        (case FindHostByIP (t_mapper t) (md_DstIP m) of
           Some host \<Rightarrow>
             let m1 = m\<lparr>md_Host := host, md_DNSMode := DNSMapping\<rparr> in
             if FakeIPEnabled (t_mapper t) then
               Some (None, m1\<lparr>md_DstIP := NoAddr, md_DNSMode := DNSFakeIP\<rparr>)
             else (case search_hosts t host False of
                 None \<Rightarrow> None
               | Some (Some node, True) \<Rightarrow> Some (None, m1\<lparr>md_DstIP := rand_ip t node\<rparr>)
               | Some (Some node, False) \<Rightarrow>
                   Some (None, if hv_IsDomain node then m1\<lparr>md_Host := hv_Domain node\<rparr> else m1)
               | Some (None, _) \<Rightarrow> Some (None, m1))
         | None \<Rightarrow>
             Some (if IsFakeIP (t_mapper t) (md_DstIP m) then Some (FakeRecordMissing (md_DstIP m)) else None, m))
      else (case search_hosts t (md_Host m) True of
          None \<Rightarrow> None
        | Some (Some node, True) \<Rightarrow> Some (None, m\<lparr>md_Host := hv_Domain node\<rparr>)
        | Some _ \<Rightarrow> Some (None, m)))"

section \<open>Choosing the proxy\<close>

text \<open>\<open>filepath.Base\<close>: the last element, \<open>.\<close> for an empty path and \<open>/\<close> for a path of slashes.\<close>

definition filepath_Base :: "string \<Rightarrow> string" where
  "filepath_Base path =
     (if path = '''' then ''.''
      else
        let p = rev (dropWhile (\<lambda>c. c = CHR ''/'') (rev path)) in
        if p = '''' then ''/'' else rev (takeWhile (\<lambda>c. c \<noteq> CHR ''/'') (rev p)))"

text \<open>The two closures of the match helper.\<close>

definition helper_ResolveIP :: "tunnel \<Rightarrow> mstate \<Rightarrow> mstate" where
  "helper_ResolveIP t s =
     (let m = ms_md s in
      if \<not> ms_resolved s \<and> md_Host m \<noteq> '''' \<and> \<not> Resolved m then
        (case t_ResolveIP t (md_Host m) of
           None \<Rightarrow> s\<lparr>ms_resolved := True\<rparr>
         | Some ip \<Rightarrow> s\<lparr>ms_md := m\<lparr>md_DstIP := ip\<rparr>, ms_resolved := True\<rparr>)
      else s)"

definition helper_FindProcess :: "tunnel \<Rightarrow> mstate \<Rightarrow> mstate" where
  "helper_FindProcess t s =
     (if ms_attempt s then
        let m = ms_md s; s1 = s\<lparr>ms_attempt := False\<rparr> in
        if \<not> t_CMFA t then
          (case t_FindProcessName t (network_String (md_NetWork m)) (md_SrcIP m) (md_SrcPort m) of
             None \<Rightarrow> s1
           | Some (uid, path) \<Rightarrow>
               let m1 = m\<lparr>md_Process := filepath_Base path, md_ProcessPath := path, md_Uid := uid\<rparr> in
               (case t_FindPackageName t m1 of
                  None \<Rightarrow> s1\<lparr>ms_md := m1\<rparr>
                | Some pkg \<Rightarrow> s1\<lparr>ms_md := m1\<lparr>md_Process := pkg\<rparr>\<rparr>))
        else
          (case t_FindPackageName t m of
             None \<Rightarrow> s1
           | Some pkg \<Rightarrow> s1\<lparr>ms_md := m\<lparr>md_Process := pkg\<rparr>\<rparr>)
      else s)"

definition getRules :: "tunnel \<Rightarrow> metadata \<Rightarrow> rule list" where
  "getRules t m =
     (case map_of (e_subRules (t_env t)) (md_SpecialRules m) of Some sr \<Rightarrow> sr | None \<Rightarrow> t_rules t)"

text \<open>The loop of \<open>match\<close>, with fuel \<open>n\<close> for each rule.\<close>

fun match_loop ::
  "tunnel \<Rightarrow> nat \<Rightarrow> helper \<Rightarrow> rule list \<Rightarrow> mstate \<Rightarrow> match_error + (proxy option \<times> rule option \<times> mstate)" where
  "match_loop t n h [] s = Inr (t_proxies t ''DIRECT'', None, s)"
| "match_loop t n h (rule # rules) s =
     (case r_Match (t_env t) n h rule s of
        Inl err \<Rightarrow> Inl err
      | Inr (matched, ada, s1) \<Rightarrow>
          if matched then
            (case t_proxies t ada of
               None \<Rightarrow> match_loop t n h rules s1
             | Some adapter \<Rightarrow>
                 if unwraps_to_Pass adapter (ms_md s1) then match_loop t n h rules s1
                 else if md_NetWork (ms_md s1) = UDP \<and> \<not> p_SupportUDP adapter then match_loop t n h rules s1
                 else Inr (Some adapter, Some rule, s1))
          else match_loop t n h rules s1)"

definition tunnel_match ::
  "tunnel \<Rightarrow> nat \<Rightarrow> helper \<Rightarrow> mstate \<Rightarrow> match_error + (proxy option \<times> rule option \<times> mstate)" where
  "tunnel_match t n h s = match_loop t n h (getRules t (ms_md s)) s"

definition resolveMetadata ::
  "tunnel \<Rightarrow> nat \<Rightarrow> metadata \<Rightarrow> tunnel_error + (proxy option \<times> rule option \<times> metadata)" where
  "resolveMetadata t n m =
     (if md_SpecialProxy m \<noteq> '''' then
        (case t_proxies t (md_SpecialProxy m) of
           None \<Rightarrow> Inl (NoProxy (md_SpecialProxy m))
         | Some p \<Rightarrow> Inr (Some p, None, m))
      else case search_hosts t (md_Host m) False of
        None \<Rightarrow> Inl Diverged
      | Some (node, ok) \<Rightarrow>
          let s0 = (case (node, ok) of
              (Some hv, True) \<Rightarrow> \<lparr>ms_md = m\<lparr>md_DstIP := rand_ip t hv\<rparr>, ms_resolved = True,
                 ms_attempt = (md_Type m \<noteq> INNER)\<rparr>
            | _ \<Rightarrow> \<lparr>ms_md = m, ms_resolved = False, ms_attempt = (md_Type m \<noteq> INNER)\<rparr>);
              h0 = \<lparr>h_ResolveIP = Some (helper_ResolveIP t), h_FindProcess = Some (helper_FindProcess t)\<rparr>;
              (s1, h) = (case t_findProcessMode t of
                  FindProcessAlways \<Rightarrow> (helper_FindProcess t s0, h0\<lparr>h_FindProcess := None\<rparr>)
                | FindProcessOff \<Rightarrow> (s0, h0\<lparr>h_FindProcess := None\<rparr>)
                | FindProcessStrict \<Rightarrow> (s0, h0)) in
          (case t_mode t of
             Direct \<Rightarrow> Inr (t_proxies t ''DIRECT'', None, ms_md s1)
           | Global \<Rightarrow> Inr (t_proxies t ''GLOBAL'', None, ms_md s1)
           | Rule \<Rightarrow>
               (case tunnel_match t n h s1 of
                  Inl err \<Rightarrow> Inl (MatchFailed err)
                | Inr (p, r, s2) \<Rightarrow> Inr (p, r, ms_md s2))))"

section \<open>One connection\<close>

text \<open>
  \<open>handleTCPConn\<close> up to the dial: the proxy, the rule, the connection's metadata afterwards and the
  metadata dialled with. \<open>sniff\<close> is the sniffer (None when sniffing is off or finds nothing,
  otherwise the metadata with the sniffed domain). The hosts address is written into the
  connection's metadata too, since both are one object until \<open>Pure\<close> copies it.
\<close>

definition handleTCPConn ::
  "tunnel \<Rightarrow> nat \<Rightarrow> (metadata \<Rightarrow> metadata option) \<Rightarrow> metadata \<Rightarrow>
   tunnel_error + (proxy option \<times> rule option \<times> metadata \<times> metadata)" where
  "handleTCPConn t n sniff m0 =
     (if \<not> isHandle (t_status t) (md_Type m0) then Inl NotHandled
      else if \<not> md_Valid m0 then Inl InvalidMetadata
      else case preHandleMetadata t (fixMetadata m0) of
        None \<Rightarrow> Inl Diverged
      | Some (err, m1) \<Rightarrow>
          (case (sniff m1, err) of
             (None, Some e) \<Rightarrow> Inl e
           | (sniffed, _) \<Rightarrow>
               let m2 = (case sniffed of Some m \<Rightarrow> m | None \<Rightarrow> m1) in
               (case resolveMetadata t n m2 of
                  Inl e \<Rightarrow> Inl e
                | Inr (p, r, m3) \<Rightarrow>
                    if length (md_Host m3) > 0 then
                      (case search_hosts t (md_Host m3) False of
                         None \<Rightarrow> Inl Diverged
                       | Some (Some node, True) \<Rightarrow>
                           let dstIp = rand_ip t node in
                           if \<not> IsFakeIP (t_mapper t) dstIp then
                             let m4 = m3\<lparr>md_DstIP := dstIp, md_DNSMode := DNSHosts\<rparr> in
                             Inr (p, r, m4, Pure m4)
                           else Inr (p, r, m3, m3)
                       | Some _ \<Rightarrow> Inr (p, r, m3, m3))
                    else Inr (p, r, m3, m3))))"

text \<open>
  \<open>handleUDPConn\<close> for a packet without an entry in the NAT table: the proxy, the rule, and the
  metadata to listen with.
\<close>

definition handleUDPConn ::
  "tunnel \<Rightarrow> nat \<Rightarrow> (metadata \<Rightarrow> metadata option) \<Rightarrow> metadata \<Rightarrow>
   tunnel_error + (proxy option \<times> rule option \<times> metadata)" where
  "handleUDPConn t n DoSniff m0 =
     (if \<not> isHandle (t_status t) (md_Type m0) then Inl NotHandled
      else if \<not> md_Valid m0 then Inl InvalidMetadata
      else
        let m = fixMetadata m0 in
        case preHandleMetadata t m of
          None \<Rightarrow> Inl Diverged
        | Some (Some e, _) \<Rightarrow> Inl e
        | Some (None, _) \<Rightarrow>
            (case DoSniff m of
               None \<Rightarrow> Inl SniffFailed
             | Some m' \<Rightarrow>
                 (case preHandleMetadata t m' of
                    None \<Rightarrow> Inl Diverged
                  | Some (_, m1) \<Rightarrow>
                      (case resolveMetadata t n m1 of
                         Inl e \<Rightarrow> Inl e
                       | Inr (p, r, m2) \<Rightarrow> Inr (p, r, Pure m2)))))"

section \<open>Retrying\<close>

datatype dial_error = ErrIPNotFound | ErrIPVersion | ErrIPv6Disabled | ErrReject | OtherError string

fun shouldStopRetry :: "dial_error \<Rightarrow> bool" where
  "shouldStopRetry ErrIPNotFound = True"
| "shouldStopRetry ErrIPVersion = True"
| "shouldStopRetry ErrIPv6Disabled = True"
| "shouldStopRetry ErrReject = True"
| "shouldStopRetry (OtherError e) = False"

text \<open>
  \<open>retry\<close>: \<open>ft\<close> is the attempt, \<open>wait\<close> the pause (False when the context has ended), both acting on a
  state; the list of errors is what \<open>fe\<close> was called with.
\<close>

fun retry_loop ::
  "nat \<Rightarrow> ('s \<Rightarrow> (dial_error + 't) \<times> 's) \<Rightarrow> ('s \<Rightarrow> bool \<times> 's) \<Rightarrow> dial_error list \<Rightarrow> 's \<Rightarrow>
   (dial_error + 't) option \<times> dial_error list \<times> 's" where
  "retry_loop 0 ft wait errs s = (None, errs, s)"
| "retry_loop (Suc i) ft wait errs s =
     (case ft s of
        (Inr t, s1) \<Rightarrow> (Some (Inr t), errs, s1)
      | (Inl err, s1) \<Rightarrow>
          if shouldStopRetry err then (Some (Inl err), errs @ [err], s1)
          else (case wait s1 of
              (True, s2) \<Rightarrow>
                if i = 0 then (Some (Inl err), errs @ [err], s2)
                else retry_loop i ft wait (errs @ [err]) s2
            | (False, s2) \<Rightarrow> (Some (Inl err), errs @ [err], s2)))"

definition retry ::
  "('s \<Rightarrow> (dial_error + 't) \<times> 's) \<Rightarrow> ('s \<Rightarrow> bool \<times> 's) \<Rightarrow> 's \<Rightarrow>
   (dial_error + 't) option \<times> dial_error list \<times> 's" where
  "retry ft wait s = retry_loop 10 ft wait [] s"

end
