(* ===== verification/TunnelProps.thy ===== *)
theory TunnelProps imports Tunnel begin

text \<open>
  What the tunnel guarantees: rule lists have first-match semantics with the fall-through cases of
  the code, the lookups of one connection are made once, fake addresses are translated back or
  refused, and the retry loop is bounded.
\<close>

section \<open>First match\<close>

text \<open>A matched rule is used unless its target is unknown, unwraps to Pass, or lacks UDP for a UDP flow.\<close>

definition usable :: "tunnel \<Rightarrow> mstate \<Rightarrow> string \<Rightarrow> proxy \<Rightarrow> bool" where
  "usable t s ada p \<longleftrightarrow> t_proxies t ada = Some p \<and> \<not> unwraps_to_Pass p (ms_md s) \<and>
     (md_NetWork (ms_md s) = UDP \<longrightarrow> p_SupportUDP p)"

text \<open>\<open>passes t n h rs s s'\<close>: all rules of \<open>rs\<close>, evaluated in turn from \<open>s\<close> to \<open>s'\<close>, were passed over.\<close>

inductive passes :: "tunnel \<Rightarrow> nat \<Rightarrow> helper \<Rightarrow> rule list \<Rightarrow> mstate \<Rightarrow> mstate \<Rightarrow> bool"
  for t n h where
  passes_Nil: "passes t n h [] s s"
| passes_Cons: "r_Match (t_env t) n h r s = Inr (m, ada, s1) \<Longrightarrow> m \<longrightarrow> (\<forall>p. \<not> usable t s1 ada p) \<Longrightarrow>
    passes t n h rs s1 s2 \<Longrightarrow> passes t n h (r # rs) s s2"

inductive_simps passes_Nil_iff [simp]: "passes t n h [] s s'"
inductive_simps passes_Cons_iff: "passes t n h (r # rs) s s'"

lemma usable_iff:
  "(\<exists>p. usable t s ada p) \<longleftrightarrow> (case t_proxies t ada of None \<Rightarrow> False
     | Some p \<Rightarrow> \<not> unwraps_to_Pass p (ms_md s) \<and> \<not> (md_NetWork (ms_md s) = UDP \<and> \<not> p_SupportUDP p))"
  by (auto simp: usable_def split: option.split)

lemma usable_proxy: "usable t s ada p \<Longrightarrow> t_proxies t ada = Some p"
  by (simp add: usable_def)

lemma usable_unique: "usable t s ada p \<Longrightarrow> usable t s ada q \<Longrightarrow> p = q"
  by (simp add: usable_def)

lemma match_loop_used:
  "match_loop t n h rs s = Inr (Some p, Some r, s') \<longleftrightarrow>
   (\<exists>pre post s1 ada. rs = pre @ r # post \<and> passes t n h pre s s1 \<and>
      r_Match (t_env t) n h r s1 = Inr (True, ada, s') \<and> usable t s' ada p)"
  (is "?L rs s \<longleftrightarrow> ?R rs s")
proof (induction rs arbitrary: s)
  case Nil
  then show ?case by simp
next
  case (Cons x rs)
  have R: "?R (x # rs) s \<longleftrightarrow>
      (x = r \<and> (\<exists>ada. r_Match (t_env t) n h r s = Inr (True, ada, s') \<and> usable t s' ada p)) \<or>
      (\<exists>m ada s1. r_Match (t_env t) n h x s = Inr (m, ada, s1) \<and> (m \<longrightarrow> (\<forall>p. \<not> usable t s1 ada p)) \<and> ?R rs s1)"
    (is "_ \<longleftrightarrow> ?now \<or> ?later")
  proof
    assume "?R (x # rs) s"
    then obtain pre post s1 ada where *: "x # rs = pre @ r # post" "passes t n h pre s s1"
      "r_Match (t_env t) n h r s1 = Inr (True, ada, s')" "usable t s' ada p" by blast
    show "?now \<or> ?later"
    proof (cases pre)
      case Nil
      then show ?thesis using * by auto
    next
      case (Cons y ys)
      then have "x = y" and rs: "rs = ys @ r # post" and "passes t n h (y # ys) s s1" using * by auto
      then obtain m ada' s2 where "r_Match (t_env t) n h x s = Inr (m, ada', s2)"
          "m \<longrightarrow> (\<forall>p. \<not> usable t s2 ada' p)" "passes t n h ys s2 s1"
        by (auto simp: passes_Cons_iff)
      then show ?thesis using *(3,4) rs by blast
    qed
  next
    assume "?now \<or> ?later"
    then show "?R (x # rs) s"
    proof
      assume ?now
      then show ?thesis by (intro exI[of _ "[]"] exI[of _ rs]) auto
    next
      assume ?later
      then obtain m ada s1 pre post s2 ada' where *: "r_Match (t_env t) n h x s = Inr (m, ada, s1)"
        "m \<longrightarrow> (\<forall>p. \<not> usable t s1 ada p)" "rs = pre @ r # post" "passes t n h pre s1 s2"
        "r_Match (t_env t) n h r s2 = Inr (True, ada', s')" "usable t s' ada' p" by blast
      then have "passes t n h (x # pre) s s2" and "x # rs = (x # pre) @ r # post"
        by (auto simp: passes_Cons_iff)
      then show ?thesis using *(5,6) by blast
    qed
  qed
  show ?case
  proof (cases "r_Match (t_env t) n h x s")
    case (Inl e)
    then show ?thesis unfolding R by auto
  next
    case (Inr y)
    obtain m ada s1 where y: "y = (m, ada, s1)" by (cases y)
    have L: "?L (x # rs) s \<longleftrightarrow> (if m \<and> (\<exists>q. usable t s1 ada q)
        then t_proxies t ada = Some p \<and> x = r \<and> s1 = s' else ?L rs s1)"
      using Inr y by (auto simp: usable_iff split: option.split)
    show ?thesis
    proof (cases "m \<and> (\<exists>q. usable t s1 ada q)")
      case True
      then obtain q where q: "m" "usable t s1 ada q" by blast
      have "t_proxies t ada = Some q" using usable_proxy[OF q(2)] .
      then have "?L (x # rs) s \<longleftrightarrow> q = p \<and> x = r \<and> s1 = s'"
        using L True by (simp del: match_loop.simps)
      moreover have "?R (x # rs) s \<longleftrightarrow> x = r \<and> s1 = s' \<and> usable t s1 ada p"
        unfolding R using Inr y q by auto
      ultimately show ?thesis using q usable_unique by blast
    next
      case False
      define Q where "Q = (\<lambda>s1. ?R rs s1)"
      have "?R (x # rs) s \<longleftrightarrow> Q s1"
        unfolding R fun_cong[OF Q_def, symmetric] using Inr y False by auto
      then have "?R (x # rs) s \<longleftrightarrow> ?R rs s1" by (simp only: Q_def)
      then show ?thesis using L False Cons.IH[of s1] by argo
    qed
  qed
qed

lemma match_loop_default:
  "match_loop t n h rs s = Inr (p, None, s') \<longleftrightarrow> passes t n h rs s s' \<and> p = t_proxies t ''DIRECT''"
proof (induction rs arbitrary: s)
  case (Cons x rs)
  show ?case
  proof (cases "r_Match (t_env t) n h x s")
    case (Inr y)
    obtain m ada s1 where y: "y = (m, ada, s1)" by (cases y)
    have "match_loop t n h (x # rs) s = Inr (p, None, s') \<longleftrightarrow>
        \<not> (m \<and> (\<exists>q. usable t s1 ada q)) \<and> match_loop t n h rs s1 = Inr (p, None, s')"
      using Inr y by (auto simp: usable_iff split: option.split)
    then show ?thesis using Cons.IH[of s1] Inr y by (auto simp: passes_Cons_iff)
  qed (auto simp: passes_Cons_iff)
qed auto

text \<open>
  C5: \<open>match\<close> returns a rule exactly when it is the first whose match is usable, all before it having
  been passed over (not matched, target unknown, Pass, or no UDP support for a UDP flow), and
  DIRECT without a rule exactly when all are passed over.
\<close>

theorem match_is_first_usable:
  "(tunnel_match t n h s = Inr (Some p, Some r, s') \<longleftrightarrow>
     (\<exists>pre post s1 ada. getRules t (ms_md s) = pre @ r # post \<and> passes t n h pre s s1 \<and>
        r_Match (t_env t) n h r s1 = Inr (True, ada, s') \<and> usable t s' ada p)) \<and>
   (tunnel_match t n h s = Inr (q, None, s') \<longleftrightarrow>
     passes t n h (getRules t (ms_md s)) s s' \<and> q = t_proxies t ''DIRECT'')"
  unfolding tunnel_match_def match_loop_used match_loop_default by simp

section \<open>Lookups\<close>

text \<open>
  However often the rules of one connection ask, the name is resolved and the process looked up
  once: a second call of either helper changes nothing.
\<close>

theorem helpers_idempotent:
  "helper_ResolveIP t (helper_ResolveIP t s) = helper_ResolveIP t s \<and>
   helper_FindProcess t (helper_FindProcess t s) = helper_FindProcess t s"
  by (auto simp: helper_ResolveIP_def helper_FindProcess_def Let_def Resolved_def
      split: option.split prod.split)

text \<open>A platform that knows one process, and a classical rule set that looks for it.\<close>

definition owner_tunnel :: tunnel where
  "owner_tunnel = \<lparr>t_status = Running, t_mode = Rule, t_findProcessMode = FindProcessStrict,
     t_proxies = (\<lambda>n. Some (Proxy n A_Outbound True (\<lambda>_. None))), t_rules = [],
     t_env = (bare_env [])\<lparr>e_providers := \<lambda>n. Some (Classical [RProcess '''' ''app'' True False])\<rparr>,
     t_mapper = None, t_hosts = newNode, t_static = (\<lambda>_. None), t_rand = 0, t_ResolveIP = (\<lambda>_. None),
     t_CMFA = False,
     t_FindProcessName = (\<lambda>net ip port. if ip = V4 0x0a000002 \<and> port = 4000 then Some (1000, ''/bin/app'') else None),
     t_FindPackageName = (\<lambda>_. None)\<rparr>"

definition owner_metadata :: metadata where
  "owner_metadata = zero_metadata\<lparr>md_SrcIP := V4 0x0a000002, md_SrcPort := 4000,
     md_DstIP := V4 0x01010101, md_DstPort := 443\<rparr>"

text \<open>The rule of a result.\<close>

definition chosen_rule :: "tunnel_error + (proxy option \<times> rule option \<times> metadata) \<Rightarrow> rule option" where
  "chosen_rule r = (case r of Inl _ \<Rightarrow> None | Inr (_, rule, _) \<Rightarrow> rule)"

text \<open>
  While a rule set marked \<open>src\<close> is matched, source and destination are swapped, and a process rule
  in the set looks up the owner of the swapped addresses: with the real owner of the connection
  known to the platform, the set and every later process rule miss it.
\<close>

theorem src_rule_set_hides_process:
  "chosen_rule (resolveMetadata (owner_tunnel\<lparr>t_rules := [RProcess ''B'' ''app'' True False]\<rparr>) 1 owner_metadata)
     = Some (RProcess ''B'' ''app'' True False) \<and>
   chosen_rule (resolveMetadata (owner_tunnel\<lparr>t_rules :=
     [RRuleSet ''p'' ''A'' True True, RProcess ''B'' ''app'' True False]\<rparr>) 1 owner_metadata) = None"
  by code_simp

section \<open>Fake addresses\<close>

text \<open>
  C38: in fake-ip mode a connection that arrives with an address only leaves preprocessing with an
  address that is not fake: a known fake address is replaced by its host name, an unknown one is
  refused.
\<close>

theorem no_fake_ip_after_preHandle:
  assumes "t_mapper t = Some en" and "en_MappingEnabled en" and "en_FakeIPEnabled en"
    and "\<not> en_IsFakeIP en NoAddr" and "md_Host m = ''''"
    and "preHandleMetadata t m = Some (None, m')"
  shows "\<not> en_IsFakeIP en (md_DstIP m')"
proof (cases "IsValid (md_DstIP m)")
  case True
  then have "needLookupIP t m" using assms by (simp add: needLookupIP_def MappingEnabled_def)
  then show ?thesis
    using assms by (auto simp: preHandleMetadata_def FakeIPEnabled_def FindHostByIP_def IsFakeIP_def
        split: option.splits if_splits)
next
  case False
  then have m: "md_DstIP m = NoAddr" by (simp add: IsValid_def)
  have "\<not> needLookupIP t m" using False by (simp add: needLookupIP_def)
  then have "md_DstIP m' = NoAddr"
    using assms(6) m by (auto simp: preHandleMetadata_def split: option.splits bool.splits)
  then show ?thesis using assms(4) by simp
qed

definition demo_enhancer :: enhancer where
  "demo_enhancer = \<lparr>en_FakeIPEnabled = True, en_MappingEnabled = True,
     en_IsFakeIP = (\<lambda>a. a = V4 0xc6120001), en_IsFakeBroadcastIP = (\<lambda>_. False),
     en_IsExistFakeIP = (\<lambda>a. a = V4 0xc6120001),
     en_FindHostByIP = (\<lambda>a. if a = V4 0xc6120001 then Some ''a.b'' else None)\<rparr>"

theorem no_fake_ip_after_preHandle_witness:
  "\<not> en_IsFakeIP demo_enhancer
     (md_DstIP (zero_metadata\<lparr>md_Host := ''a.b'', md_DstIP := NoAddr, md_DNSMode := DNSFakeIP\<rparr>))"
proof (rule no_fake_ip_after_preHandle)
  show "preHandleMetadata (owner_tunnel\<lparr>t_mapper := Some demo_enhancer\<rparr>)
      (zero_metadata\<lparr>md_DstIP := V4 0xc6120001\<rparr>) =
    Some (None, zero_metadata\<lparr>md_Host := ''a.b'', md_DstIP := NoAddr, md_DNSMode := DNSFakeIP\<rparr>)"
    by (simp add: preHandleMetadata_def needLookupIP_def MappingEnabled_def FindHostByIP_def FakeIPEnabled_def
        demo_enhancer_def zero_metadata_def IsValid_def)
qed (simp_all add: demo_enhancer_def zero_metadata_def)

section \<open>Retry\<close>

lemma retry_loop_ok:
  "retry_loop (Suc i) ft wait errs s = (r, errs', s') \<Longrightarrow>
   r \<noteq> None \<and> length errs' \<le> length errs + Suc i \<and>
   (list_all (\<lambda>e. \<not> shouldStopRetry e) errs \<longrightarrow> list_all (\<lambda>e. \<not> shouldStopRetry e) (butlast errs')) \<and>
   (case r of Some (Inl e) \<Rightarrow> errs' \<noteq> [] \<and> last errs' = e
    | Some (Inr v) \<Rightarrow> length errs' < length errs + Suc i \<and>
        (list_all (\<lambda>e. \<not> shouldStopRetry e) errs \<longrightarrow> list_all (\<lambda>e. \<not> shouldStopRetry e) errs')
    | None \<Rightarrow> False)"
proof (induction i arbitrary: errs s)
  case 0
  then show ?case by (auto simp: list_all_iff split: prod.splits sum.splits if_splits bool.splits dest: in_set_butlastD)
next
  case (Suc i)
  obtain x s1 where x: "ft s = (x, s1)" by fastforce
  show ?case
  proof (cases x)
    case (Inr v)
    then show ?thesis using Suc.prems x by (auto simp: list_all_iff dest: in_set_butlastD)
  next
    case (Inl e)
    show ?thesis
    proof (cases "shouldStopRetry e \<or> \<not> fst (wait s1)")
      case True
      then show ?thesis using Suc.prems x Inl
        by (auto split: if_splits prod.splits bool.splits)
    next
      case False
      then obtain s2 where "retry_loop (Suc i) ft wait (errs @ [e]) s2 = (r, errs', s')"
        using Suc.prems x Inl by (auto simp del: retry_loop.simps(2) simp: retry_loop.simps(2)[of "Suc i"]
            split: if_splits prod.splits bool.splits)
      from Suc.IH[OF this] False show ?thesis by (auto split: option.splits sum.splits)
    qed
  qed
qed

text \<open>
  C37: \<open>retry\<close> always produces a result after at most ten attempts, reports every failure, stops at the
  first error that retrying cannot mend, and an error it returns is the last one reported.
\<close>

theorem retry_bounded:
  "case retry ft wait s of (r, errs, s') \<Rightarrow>
     r \<noteq> None \<and> length errs \<le> 10 \<and> list_all (\<lambda>e. \<not> shouldStopRetry e) (butlast errs) \<and>
     (case r of Some (Inl e) \<Rightarrow> errs \<noteq> [] \<and> last errs = e
      | Some (Inr v) \<Rightarrow> length errs < 10 \<and> list_all (\<lambda>e. \<not> shouldStopRetry e) errs
      | None \<Rightarrow> False)"
proof -
  obtain r errs s' where "retry_loop (Suc 9) ft wait [] s = (r, errs, s')" by (metis prod_cases3)
  from retry_loop_ok[OF this] this show ?thesis
    by (auto simp: retry_def numeral_eq_Suc simp del: retry_loop.simps split: option.splits sum.splits)
qed

section \<open>Modes\<close>

text \<open>
  The text of a mode or status, in any case of letters, reads back as that mode or status, and
  nothing else reads as one.
\<close>

theorem mode_status_text:
  "(mode_UnmarshalText s = Some m \<longleftrightarrow> ToLower s = mode_String m) \<and>
   (status_UnmarshalText s = Some st \<longleftrightarrow> ToLower s = status_String st)"
  by (cases m; cases st) (auto simp: mode_UnmarshalText_def ModeMapping_def status_UnmarshalText_def StatusMapping_def)

end
