(* ===== verification/ProxyGroups.thy ===== *)
theory ProxyGroups imports Metadata begin

text \<open>
  adapter/outboundgroup: how a proxy group collects its proxies from its providers and which of
  them it uses. \<open>GetProxies\<close> with its filters and its cache, and the choices of the
  selector, fallback and url-test groups and of the round-robin strategy. The health of
  the proxies, which tests change between calls, is the argument \<open>w\<close>.
\<close>

section \<open>Proxies and their health\<close>

record gproxy =
  gp_id :: nat
  gp_Name :: string
  gp_Type :: string

text \<open>What \<open>AliveForTestUrl\<close> and \<open>LastDelayForTestUrl\<close> answer for each proxy object.\<close>

record health =
  h_alive :: "nat \<Rightarrow> string \<Rightarrow> bool"
  h_delay :: "nat \<Rightarrow> string \<Rightarrow> u16"

abbreviation alive :: "health \<Rightarrow> string \<Rightarrow> gproxy \<Rightarrow> bool" where
  "alive w url p \<equiv> h_alive w (gp_id p) url"

abbreviation delay :: "health \<Rightarrow> string \<Rightarrow> gproxy \<Rightarrow> u16" where
  "delay w url p \<equiv> h_delay w (gp_id p) url"

section \<open>GroupBase\<close>

record proxy_provider =
  pv_Version :: u32
  pv_Compatible :: bool
  pv_Proxies :: "gproxy list"

text \<open>A compiled regular expression is the set of names it matches.\<close>

record group_base =
  gb_filterRegs :: "(string \<Rightarrow> bool) list"
  gb_excludeFilterRegs :: "(string \<Rightarrow> bool) list"
  gb_excludeTypeArray :: "string list option"
  gb_providerVersions :: "u32 list"
  gb_providerProxies :: "gproxy list"

text \<open>
  The filter loops: for each expression in turn the matching proxies whose name is not yet taken.
  The set of names and the list built so far are threaded through.
\<close>

fun filter_step :: "(string \<Rightarrow> bool) \<Rightarrow> gproxy list \<Rightarrow> string list \<times> gproxy list \<Rightarrow> string list \<times> gproxy list" where
  "filter_step f [] acc = acc"
| "filter_step f (p # ps) (names, out) =
     (if f (gp_Name p) \<and> gp_Name p \<notin> set names
      then filter_step f ps (gp_Name p # names, out @ [p])
      else filter_step f ps (names, out))"

fun filter_all :: "(string \<Rightarrow> bool) list \<Rightarrow> gproxy list \<Rightarrow> string list \<times> gproxy list \<Rightarrow> string list \<times> gproxy list" where
  "filter_all [] ps acc = acc"
| "filter_all (f # fs) ps acc = filter_all fs ps (filter_step f ps acc)"

definition provider_part :: "group_base \<Rightarrow> proxy_provider \<Rightarrow> gproxy list" where
  "provider_part gb pd =
     (if gb_filterRegs gb = [] \<or> pv_Compatible pd then pv_Proxies pd
      else snd (filter_all (gb_filterRegs gb) (pv_Proxies pd) ([], [])))"

definition reorder :: "group_base \<Rightarrow> proxy_provider list \<Rightarrow> gproxy list \<Rightarrow> gproxy list" where
  "reorder gb providers proxies =
     (if length providers > 1 \<and> length (gb_filterRegs gb) > 1
      then snd (filter_step (\<lambda>_. True) proxies (filter_all (gb_filterRegs gb) proxies ([], [])))
      else proxies)"

definition exclude_names :: "group_base \<Rightarrow> gproxy list \<Rightarrow> gproxy list" where
  "exclude_names gb proxies = filter (\<lambda>p. \<not> list_ex (\<lambda>f. f (gp_Name p)) (gb_excludeFilterRegs gb)) proxies"

definition exclude_types :: "group_base \<Rightarrow> gproxy list \<Rightarrow> gproxy list" where
  "exclude_types gb proxies =
     (case gb_excludeTypeArray gb of
        None \<Rightarrow> proxies
      | Some types \<Rightarrow> filter (\<lambda>p. \<not> list_ex (EqualFold (gp_Type p)) types) proxies)"

text \<open>\<open>GetProxies\<close>; \<open>compatible\<close> is the built-in proxy COMPATIBLE.\<close>

definition GetProxies :: "gproxy \<Rightarrow> proxy_provider list \<Rightarrow> group_base \<Rightarrow> gproxy list \<times> group_base" where
  "GetProxies compatible providers gb =
     (let versions = map pv_Version providers in
      if versions = gb_providerVersions gb then (gb_providerProxies gb, gb)
      else
        let proxies = exclude_types gb (exclude_names gb
              (reorder gb providers (concat (map (provider_part gb) providers)))) in
        if length proxies = 0 then ([compatible], gb)
        else (proxies, gb\<lparr>gb_providerVersions := versions, gb_providerProxies := proxies\<rparr>))"

section \<open>A source of proxies\<close>

text \<open>
  What the groups rely on when they ask for their proxies: there is always one, asking keeps the
  source in order, and asking again gives the same.
\<close>

locale proxy_source =
  fixes get :: "'g \<Rightarrow> gproxy list \<times> 'g"
    and ready :: "'g \<Rightarrow> bool"
  assumes some_proxy: "ready g \<Longrightarrow> fst (get g) \<noteq> []"
    and stays_ready: "ready g \<Longrightarrow> ready (snd (get g))"
    and stable: "ready g \<Longrightarrow> fst (get (snd (get g))) = fst (get g)"
begin

lemma head_is_proxy: "ready g \<Longrightarrow> hd (fst (get g)) \<in> set (fst (get g))"
  using some_proxy by simp

lemma tail_length: "ready g \<Longrightarrow> length (fst (get g)) = Suc (length (tl (fst (get g))))"
  using some_proxy by simp

lemma found_or_first:
  assumes "ready g"
  shows "(case find Q (fst (get g)) of Some p \<Rightarrow> p | None \<Rightarrow> hd (fst (get g))) \<in> set (fst (get g))"
  using head_is_proxy[OF assms] by (auto simp: find_Some_iff split: option.split)

lemma asked_twice: "ready g \<Longrightarrow> find Q (fst (get (snd (get g)))) = find Q (fst (get g))"
  using stable by simp

end

text \<open>The group base is ready when it has providers and its cache, once filled, is not empty.\<close>

definition gb_ready :: "proxy_provider list \<Rightarrow> group_base \<Rightarrow> bool" where
  "gb_ready providers gb \<longleftrightarrow> providers \<noteq> [] \<and> (gb_providerVersions gb \<noteq> [] \<longrightarrow> gb_providerProxies gb \<noteq> [])"

interpretation gb: proxy_source "GetProxies compatible providers" "gb_ready providers"
  for compatible providers
  by unfold_locales
    (auto simp: GetProxies_def gb_ready_def Let_def exclude_types_def exclude_names_def reorder_def
      provider_part_def)

section \<open>Selector\<close>

record selector =
  s_base :: group_base
  s_selected :: string

definition find_by_name :: "string \<Rightarrow> gproxy list \<Rightarrow> gproxy option" where
  "find_by_name name proxies = find (\<lambda>p. gp_Name p = name) proxies"

definition selectedProxy :: "gproxy \<Rightarrow> proxy_provider list \<Rightarrow> selector \<Rightarrow> gproxy \<times> selector" where
  "selectedProxy c providers s =
     (case GetProxies c providers (s_base s) of (proxies, gb) \<Rightarrow>
        ((case find_by_name (s_selected s) proxies of Some p \<Rightarrow> p | None \<Rightarrow> proxies ! 0),
         s\<lparr>s_base := gb\<rparr>))"

definition selector_Set ::
  "gproxy \<Rightarrow> proxy_provider list \<Rightarrow> string \<Rightarrow> selector \<Rightarrow> bool \<times> selector" where
  "selector_Set c providers name s =
     (case GetProxies c providers (s_base s) of (proxies, gb) \<Rightarrow>
        (case find_by_name name proxies of
           Some _ \<Rightarrow> (True, s\<lparr>s_base := gb, s_selected := name\<rparr>)
         | None \<Rightarrow> (False, s\<lparr>s_base := gb\<rparr>)))"

definition selector_Now :: "gproxy \<Rightarrow> proxy_provider list \<Rightarrow> selector \<Rightarrow> string" where
  "selector_Now c providers s = gp_Name (fst (selectedProxy c providers s))"

section \<open>Fallback\<close>

record fallback =
  f_base :: group_base
  f_testUrl :: string
  f_selected :: string

text \<open>The loop of \<open>findAliveProxy\<close>: the proxy found, if any, and the selection it leaves.\<close>

fun alive_loop :: "health \<Rightarrow> string \<Rightarrow> string \<Rightarrow> gproxy list \<Rightarrow> gproxy option \<times> string" where
  "alive_loop w url selected [] = (None, selected)"
| "alive_loop w url selected (p # ps) =
     (if length selected = 0 then
        (if alive w url p then (Some p, selected) else alive_loop w url selected ps)
      else if gp_Name p = selected then
        (if alive w url p then (Some p, selected) else alive_loop w url '''' ps)
      else alive_loop w url selected ps)"

definition findAliveProxy ::
  "health \<Rightarrow> gproxy \<Rightarrow> proxy_provider list \<Rightarrow> fallback \<Rightarrow> gproxy \<times> fallback" where
  "findAliveProxy w c providers f =
     (case GetProxies c providers (f_base f) of (proxies, gb) \<Rightarrow>
        (case alive_loop w (f_testUrl f) (f_selected f) proxies of (found, selected) \<Rightarrow>
           ((case found of Some p \<Rightarrow> p | None \<Rightarrow> proxies ! 0),
            f\<lparr>f_base := gb, f_selected := selected\<rparr>)))"

section \<open>URLTest\<close>

record urltest =
  u_base :: group_base
  u_selected :: string
  u_testUrl :: string
  u_tolerance :: u16
  u_fastNode :: "gproxy option"

text \<open>The loop over \<open>proxies[1:]\<close>: the fastest so far, its delay, and \<open>fastNotExist\<close>.\<close>

fun fast_loop ::
  "health \<Rightarrow> string \<Rightarrow> gproxy option \<Rightarrow> gproxy list \<Rightarrow> gproxy \<times> u16 \<times> bool \<Rightarrow> gproxy \<times> u16 \<times> bool" where
  "fast_loop w url fastNode [] acc = acc"
| "fast_loop w url fastNode (p # ps) (fast, minDelay, fastNotExist) =
     (let notExist = (case fastNode of Some f \<Rightarrow> if gp_Name p = gp_Name f then False else fastNotExist
                      | None \<Rightarrow> fastNotExist) in
      if \<not> alive w url p then fast_loop w url fastNode ps (fast, minDelay, notExist)
      else if delay w url p < minDelay then fast_loop w url fastNode ps (p, delay w url p, notExist)
      else fast_loop w url fastNode ps (fast, minDelay, notExist))"

text \<open>The function that \<open>fast\<close> hands to \<open>fastSingle.Do\<close>.\<close>

definition fast_compute :: "health \<Rightarrow> gproxy list \<Rightarrow> urltest \<Rightarrow> gproxy \<times> urltest" where
  "fast_compute w proxies u =
     (let url = u_testUrl u in
      case (if u_selected u = '''' then None
            else find (\<lambda>p. alive w url p \<and> gp_Name p = u_selected u) proxies) of
        Some p \<Rightarrow> (p, u\<lparr>u_fastNode := Some p\<rparr>)
      | None \<Rightarrow>
          (case fast_loop w url (u_fastNode u) (tl proxies) (proxies ! 0, delay w url (proxies ! 0), True) of
             (fast, minDelay, fastNotExist) \<Rightarrow>
               (case u_fastNode u of
                  None \<Rightarrow> (fast, u\<lparr>u_fastNode := Some fast\<rparr>)
                | Some f \<Rightarrow>
                    if fastNotExist \<or> \<not> alive w url f \<or> delay w url f > delay w url fast + u_tolerance u
                    then (fast, u\<lparr>u_fastNode := Some fast\<rparr>) else (f, u))))"

text \<open>
  common/singledo: a result is shared for \<open>wait\<close> units of time. One caller at a time; the last component
  of the answer says that the result was shared.
\<close>

record 'v single =
  sg_wait :: nat
  sg_result :: "('v \<times> nat) option"

definition Single_Do :: "nat \<Rightarrow> ('s \<Rightarrow> 'v \<times> 's) \<Rightarrow> 'v single \<Rightarrow> 's \<Rightarrow> ('v \<times> bool) \<times> 'v single \<times> 's" where
  "Single_Do now fn sg s =
     (let run = (case fn s of (v, s') \<Rightarrow> ((v, False), sg\<lparr>sg_result := Some (v, now)\<rparr>, s')) in
      case sg_result sg of
        None \<Rightarrow> run
      | Some (v, time) \<Rightarrow> if now - time < sg_wait sg then ((v, True), sg, s) else run)"

definition Single_Reset :: "'v single \<Rightarrow> 'v single" where
  "Single_Reset sg = sg\<lparr>sg_result := None\<rparr>"

definition urltest_fast ::
  "health \<Rightarrow> nat \<Rightarrow> gproxy \<Rightarrow> proxy_provider list \<Rightarrow> gproxy single \<Rightarrow> urltest \<Rightarrow>
   gproxy \<times> gproxy single \<times> urltest" where
  "urltest_fast w now c providers sg u =
     (case Single_Do now (\<lambda>u. case GetProxies c providers (u_base u) of (proxies, gb) \<Rightarrow>
              fast_compute w proxies (u\<lparr>u_base := gb\<rparr>)) sg u of
        ((elm, shared), sg', u') \<Rightarrow> (elm, sg', u'))"

definition urltest_ForceSet :: "string \<Rightarrow> gproxy single \<Rightarrow> urltest \<Rightarrow> gproxy single \<times> urltest" where
  "urltest_ForceSet name sg u = (Single_Reset sg, u\<lparr>u_selected := name\<rparr>)"

definition urltest_Set ::
  "gproxy \<Rightarrow> proxy_provider list \<Rightarrow> string \<Rightarrow> gproxy single \<Rightarrow> urltest \<Rightarrow> bool \<times> gproxy single \<times> urltest" where
  "urltest_Set c providers name sg u =
     (case GetProxies c providers (u_base u) of (proxies, gb) \<Rightarrow>
        (case find_by_name name proxies of
           None \<Rightarrow> (False, sg, u\<lparr>u_base := gb\<rparr>)
         | Some _ \<Rightarrow> (case urltest_ForceSet name sg (u\<lparr>u_base := gb\<rparr>) of (sg', u') \<Rightarrow> (True, sg', u'))))"

section \<open>LoadBalance: round robin\<close>

fun robin_loop :: "health \<Rightarrow> string \<Rightarrow> gproxy list \<Rightarrow> nat \<Rightarrow> nat \<Rightarrow> nat \<Rightarrow> gproxy option \<times> nat" where
  "robin_loop w url proxies idx i 0 = (None, i)"
| "robin_loop w url proxies idx i (Suc k) =
     (let proxy = proxies ! ((idx + i) mod length proxies) in
      if alive w url proxy then (Some proxy, i + 1) else robin_loop w url proxies idx (i + 1) k)"

text \<open>The strategy closure: the captured index and the chosen proxy.\<close>

definition strategyRoundRobin ::
  "health \<Rightarrow> string \<Rightarrow> gproxy list \<Rightarrow> bool \<Rightarrow> nat \<Rightarrow> gproxy \<times> nat" where
  "strategyRoundRobin w url proxies touch idx =
     (case robin_loop w url proxies idx 0 (length proxies) of (found, i) \<Rightarrow>
        ((case found of Some p \<Rightarrow> p | None \<Rightarrow> proxies ! 0),
         if touch then (idx + i) mod length proxies else idx))"

end
