(* ===== verification/GroupProps.thy ===== *)
theory GroupProps imports ProxyGroups begin

text \<open>
  What the proxy groups guarantee: the filters keep and drop what they should, a selection is what
  later calls use, fallback and url-test pick living and fast proxies, round robin is fair; and
  three places where they do not do what they are meant to.
\<close>

section \<open>Filters\<close>

lemma filter_step_spec:
  "filter_step f ps (names, out) = (names', out') \<Longrightarrow> set names = gp_Name ` set out \<Longrightarrow>
   set names' = gp_Name ` set out' \<and> set out \<subseteq> set out' \<and> set out' \<subseteq> set out \<union> {p \<in> set ps. f (gp_Name p)} \<and>
   gp_Name ` set out' = gp_Name ` set out \<union> gp_Name ` {p \<in> set ps. f (gp_Name p)}"
proof (induction f ps "(names, out)" arbitrary: names out rule: filter_step.induct)
  case (2 f p ps names out)
  show ?case
  proof (cases "f (gp_Name p) \<and> gp_Name p \<notin> set names")
    case True
    then have "filter_step f ps (gp_Name p # names, out @ [p]) = (names', out')" using 2(3) by simp
    from 2(1)[OF True this] show ?thesis using 2(4) True by auto
  next
    case False
    then have "filter_step f ps (names, out) = (names', out')" using 2(3) by (simp split: if_splits)
    from 2(2)[OF False this 2(4)] show ?thesis using 2(4) False by auto
  qed
qed auto

lemma filter_all_spec:
  "filter_all fs ps (names, out) = (names', out') \<Longrightarrow> set names = gp_Name ` set out \<Longrightarrow>
   set names' = gp_Name ` set out' \<and> set out \<subseteq> set out' \<and>
   set out' \<subseteq> set out \<union> {p \<in> set ps. list_ex (\<lambda>f. f (gp_Name p)) fs} \<and>
   gp_Name ` set out' = gp_Name ` set out \<union> gp_Name ` {p \<in> set ps. list_ex (\<lambda>f. f (gp_Name p)) fs}"
proof (induction fs arbitrary: names out)
  case (Cons f fs)
  obtain n1 o1 where 1: "filter_step f ps (names, out) = (n1, o1)" by fastforce
  note A = filter_step_spec[OF 1 Cons(3)]
  have "filter_all fs ps (n1, o1) = (names', out')" using Cons(2) 1 by simp
  from Cons(1)[OF this] A show ?case by auto
qed auto

lemma provider_part_spec:
  "set (provider_part gb pd) \<subseteq> {p \<in> set (pv_Proxies pd).
     gb_filterRegs gb = [] \<or> pv_Compatible pd \<or> list_ex (\<lambda>f. f (gp_Name p)) (gb_filterRegs gb)}"
  "gp_Name ` set (provider_part gb pd) = gp_Name ` {p \<in> set (pv_Proxies pd).
     gb_filterRegs gb = [] \<or> pv_Compatible pd \<or> list_ex (\<lambda>f. f (gp_Name p)) (gb_filterRegs gb)}"
proof -
  obtain n o' where "filter_all (gb_filterRegs gb) (pv_Proxies pd) ([], []) = (n, o')" by fastforce
  from filter_all_spec[OF this] this
  show "set (provider_part gb pd) \<subseteq> {p \<in> set (pv_Proxies pd).
     gb_filterRegs gb = [] \<or> pv_Compatible pd \<or> list_ex (\<lambda>f. f (gp_Name p)) (gb_filterRegs gb)}"
    and "gp_Name ` set (provider_part gb pd) = gp_Name ` {p \<in> set (pv_Proxies pd).
     gb_filterRegs gb = [] \<or> pv_Compatible pd \<or> list_ex (\<lambda>f. f (gp_Name p)) (gb_filterRegs gb)}"
    by (auto simp: provider_part_def)
qed

lemma reorder_spec:
  "set (reorder gb providers ps) \<subseteq> set ps"
  "gp_Name ` set (reorder gb providers ps) = gp_Name ` set ps"
proof -
  obtain n o' where 1: "filter_all (gb_filterRegs gb) ps ([], []) = (n, o')" by fastforce
  obtain n2 o2 where 2: "filter_step (\<lambda>_. True) ps (n, o') = (n2, o2)" by fastforce
  note A = filter_all_spec[OF 1]
  note B = filter_step_spec[OF 2]
  show "set (reorder gb providers ps) \<subseteq> set ps" using A B 1 2 by (auto simp: reorder_def)
  show "gp_Name ` set (reorder gb providers ps) = gp_Name ` set ps"
    using A B 1 2 by (auto simp: reorder_def)
qed

text \<open>Which proxies of which provider a group is meant to offer.\<close>

definition offered :: "group_base \<Rightarrow> proxy_provider list \<Rightarrow> gproxy \<Rightarrow> bool" where
  "offered gb providers p \<longleftrightarrow>
     list_ex (\<lambda>pd. p \<in> set (pv_Proxies pd) \<and>
       (gb_filterRegs gb = [] \<or> pv_Compatible pd \<or> list_ex (\<lambda>f. f (gp_Name p)) (gb_filterRegs gb))) providers"

definition excluded :: "group_base \<Rightarrow> gproxy \<Rightarrow> bool" where
  "excluded gb p \<longleftrightarrow> list_ex (\<lambda>f. f (gp_Name p)) (gb_excludeFilterRegs gb) \<or>
     (case gb_excludeTypeArray gb of None \<Rightarrow> False | Some types \<Rightarrow> list_ex (EqualFold (gp_Type p)) types)"

text \<open>
  C39: when the providers have changed, a group takes the proxies a provider offers it through the filters and that no
  exclusion hits, and remembers them; when none is left it offers only the built-in COMPATIBLE and remembers nothing.
  None it takes is excluded or not offered; and every name offered and not excluded is present, if nothing is excluded by
  type or no two proxies offered have the same name.
\<close>

theorem GetProxies_filters:
  assumes "map pv_Version providers \<noteq> gb_providerVersions gb"
    and "GetProxies c providers gb = (proxies, gb')"
  shows "\<exists>kept. proxies = (if kept = [] then [c] else kept) \<and>
    gb' = (if kept = [] then gb else gb\<lparr>gb_providerVersions := map pv_Version providers, gb_providerProxies := kept\<rparr>) \<and>
    (\<forall>p \<in> set kept. offered gb providers p \<and> \<not> excluded gb p) \<and>
    (gb_excludeTypeArray gb = None \<or> inj_on gp_Name {p. offered gb providers p} \<longrightarrow>
       (\<forall>p. offered gb providers p \<and> \<not> excluded gb p \<longrightarrow> gp_Name p \<in> gp_Name ` set kept))"
proof -
  define all where "all = concat (map (provider_part gb) providers)"
  define kept where "kept = exclude_types gb (exclude_names gb (reorder gb providers all))"
  have in_all: "set all \<subseteq> {p. offered gb providers p}"
    using provider_part_spec(1)[of gb] by (fastforce simp: all_def offered_def list_ex_iff)
  then have in_reorder: "set (reorder gb providers all) \<subseteq> {p. offered gb providers p}"
    using reorder_spec(1)[of gb providers all] by blast
  then have "\<forall>p \<in> set kept. offered gb providers p \<and> \<not> excluded gb p"
    by (auto simp: kept_def exclude_types_def exclude_names_def excluded_def split: option.splits)
  moreover have "gp_Name p \<in> gp_Name ` set kept"
    if c: "gb_excludeTypeArray gb = None \<or> inj_on gp_Name {p. offered gb providers p}"
      and off: "offered gb providers p" and ex: "\<not> excluded gb p" for p
  proof -
    obtain pd where pd: "pd \<in> set providers" "p \<in> set (pv_Proxies pd)"
      "gb_filterRegs gb = [] \<or> pv_Compatible pd \<or> list_ex (\<lambda>f. f (gp_Name p)) (gb_filterRegs gb)"
      using off by (auto simp: offered_def list_ex_iff)
    then have "gp_Name p \<in> gp_Name ` set (provider_part gb pd)" using provider_part_spec(2)[of gb pd] by auto
    then have "gp_Name p \<in> gp_Name ` set all" using pd(1) by (auto simp: all_def)
    then obtain q where q: "q \<in> set (reorder gb providers all)" "gp_Name q = gp_Name p"
      using reorder_spec(2)[of gb providers all] by (metis (no_types, lifting) imageE)
    have "gb_excludeTypeArray gb = None \<or> q = p"
      using c q off in_reorder inj_onD[of gp_Name "{p. offered gb providers p}" q p] by blast
    then have "q \<in> set kept" using ex q
      by (auto simp: kept_def exclude_types_def exclude_names_def excluded_def split: option.split)
    then show ?thesis using q(2) by (metis imageI)
  qed
  moreover have "proxies = (if kept = [] then [c] else kept)"
    "gb' = (if kept = [] then gb else gb\<lparr>gb_providerVersions := map pv_Version providers, gb_providerProxies := kept\<rparr>)"
    using assms by (auto simp: GetProxies_def Let_def kept_def all_def split: if_splits)
  ultimately show ?thesis by blast
qed

definition plain_base :: group_base where
  "plain_base = \<lparr>gb_filterRegs = [], gb_excludeFilterRegs = [], gb_excludeTypeArray = None,
     gb_providerVersions = [], gb_providerProxies = []\<rparr>"

definition gp :: "nat \<Rightarrow> string \<Rightarrow> gproxy" where
  "gp i name = \<lparr>gp_id = i, gp_Name = name, gp_Type = ''Vmess''\<rparr>"

lemma gp_simps [simp]: "gp_id (gp i name) = i" "gp_Name (gp i name) = name"
  by (simp_all add: gp_def)

theorem GetProxies_filters_witness:
  "GetProxies (gp 0 ''COMPATIBLE'') [\<lparr>pv_Version = 1, pv_Compatible = False, pv_Proxies = [gp 1 ''a'', gp 2 ''b'']\<rparr>]
      (plain_base\<lparr>gb_excludeFilterRegs := [\<lambda>n. n = ''a'']\<rparr>) =
    ([gp 2 ''b''], plain_base\<lparr>gb_excludeFilterRegs := [\<lambda>n. n = ''a''], gb_providerVersions := [1], gb_providerProxies := [gp 2 ''b'']\<rparr>) \<and>
   fst (GetProxies (gp 0 ''COMPATIBLE'') [\<lparr>pv_Version = 1, pv_Compatible = False, pv_Proxies = [gp 1 ''a'']\<rparr>]
      (plain_base\<lparr>gb_excludeFilterRegs := [\<lambda>n. n = ''a'']\<rparr>)) = [gp 0 ''COMPATIBLE'']"
proof -
  let ?gb = "plain_base\<lparr>gb_excludeFilterRegs := [\<lambda>n. n = ''a'']\<rparr>" and ?c = "gp 0 ''COMPATIBLE''"
  let ?ps = "[\<lparr>pv_Version = 1, pv_Compatible = False, pv_Proxies = [gp 1 ''a'']\<rparr>]"
  obtain xs g where G: "GetProxies ?c ?ps ?gb = (xs, g)" by fastforce
  have v: "map pv_Version ?ps \<noteq> gb_providerVersions ?gb" by (simp add: plain_base_def)
  have "\<not> (offered ?gb ?ps p \<and> \<not> excluded ?gb p)" for p by (simp add: offered_def excluded_def plain_base_def)
  with GetProxies_filters[OF v G] have "xs = [?c]" by (metis list.set_intros(1) neq_Nil_conv)
  with G have "fst (GetProxies ?c ?ps ?gb) = [?c]" by simp
  moreover have "GetProxies ?c [\<lparr>pv_Version = 1, pv_Compatible = False, pv_Proxies = [gp 1 ''a'', gp 2 ''b'']\<rparr>] ?gb =
      ([gp 2 ''b''], ?gb\<lparr>gb_providerVersions := [1], gb_providerProxies := [gp 2 ''b'']\<rparr>)"
    by (simp add: GetProxies_def Let_def plain_base_def provider_part_def reorder_def exclude_names_def exclude_types_def)
  ultimately show ?thesis by simp
qed

section \<open>Selector\<close>

lemma found_or_first_gb:
  assumes "gb_ready providers gb" and "GetProxies c providers gb = (proxies, gb')"
  shows "(case find Q proxies of Some p \<Rightarrow> p | None \<Rightarrow> proxies ! 0) \<in> set proxies"
  using gb.found_or_first[OF assms(1), where Q = Q and compatible = c] gb.some_proxy[OF assms(1), of c] assms(2)
  by (auto simp: hd_conv_nth split: option.splits)

text \<open>
  Choosing a proxy in a selector succeeds exactly when the group offers one of that name, and then
  it is the one in use; otherwise the choice is left as it was.
\<close>

theorem selector_Set_then_Now:
  assumes "gb_ready providers (s_base s)"
  shows "case selector_Set c providers name s of (ok, s') \<Rightarrow>
    ok = (name \<in> gp_Name ` set (fst (GetProxies c providers (s_base s)))) \<and>
    (if ok then selector_Now c providers s' = name else s_selected s' = s_selected s)"
proof -
  obtain proxies gb where G: "GetProxies c providers (s_base s) = (proxies, gb)" by fastforce
  have again: "fst (GetProxies c providers gb) = proxies" using gb.stable[OF assms, of c] G by simp
  show ?thesis
  proof (cases "find_by_name name proxies")
    case None
    then have "name \<notin> gp_Name ` set proxies" by (auto simp: find_by_name_def find_None_iff)
    then show ?thesis using G None by (simp add: selector_Set_def)
  next
    case (Some p)
    then have p: "p \<in> set proxies" "gp_Name p = name"
      by (auto simp: find_by_name_def find_Some_iff)
    have "selector_Now c providers (s\<lparr>s_base := gb, s_selected := name\<rparr>) = name"
      using again Some p by (auto simp: selector_Now_def selectedProxy_def split: prod.split)
    then show ?thesis using G Some p by (auto simp: selector_Set_def)
  qed
qed

theorem selector_Set_then_Now_witness:
  "selector_Now (gp 0 ''COMPATIBLE'') [\<lparr>pv_Version = 1, pv_Compatible = True, pv_Proxies = [gp 1 ''a'', gp 2 ''b'']\<rparr>]
     (snd (selector_Set (gp 0 ''COMPATIBLE'') [\<lparr>pv_Version = 1, pv_Compatible = True, pv_Proxies = [gp 1 ''a'', gp 2 ''b'']\<rparr>]
        ''b'' \<lparr>s_base = plain_base, s_selected = ''a''\<rparr>)) = ''b''"
proof -
  let ?ps = "[\<lparr>pv_Version = 1, pv_Compatible = True, pv_Proxies = [gp 1 ''a'', gp 2 ''b'']\<rparr>]"
  have "gb_ready ?ps (s_base \<lparr>s_base = plain_base, s_selected = ''a''\<rparr>)"
    by (simp add: gb_ready_def plain_base_def)
  from selector_Set_then_Now[OF this, where c = "gp 0 ''COMPATIBLE''" and name = "''b''"] show ?thesis
    by (auto simp: GetProxies_def Let_def plain_base_def provider_part_def reorder_def exclude_names_def
        exclude_types_def split: prod.splits)
qed

section \<open>Fallback\<close>

lemma alive_loop_auto:
  "alive_loop w url '''' ps = (find (alive w url) ps, '''')"
  by (induction ps) auto

lemma alive_loop_picked:
  "sel \<noteq> '''' \<Longrightarrow> alive_loop w url sel ps =
    (case dropWhile (\<lambda>p. gp_Name p \<noteq> sel) ps of
       [] \<Rightarrow> (None, sel)
     | p # rest \<Rightarrow> if alive w url p then (Some p, sel) else (find (alive w url) rest, ''''))"
  by (induction ps) (auto simp: alive_loop_auto)

text \<open>
  C40: without a fixed choice the fallback group uses the first living proxy of its list, and the first
  one if none lives; a living fixed choice is used whatever comes before it.
\<close>

theorem findAliveProxy_order:
  assumes "GetProxies c providers (f_base f) = (proxies, gb)"
  shows "(if f_selected f = '''' then
      fst (findAliveProxy w c providers f) =
        (case find (alive w (f_testUrl f)) proxies of Some p \<Rightarrow> p | None \<Rightarrow> proxies ! 0)
    else
      (case find_by_name (f_selected f) proxies of
         Some p \<Rightarrow> if alive w (f_testUrl f) p
           then fst (findAliveProxy w c providers f) = p \<and> f_selected (snd (findAliveProxy w c providers f)) = f_selected f
           else f_selected (snd (findAliveProxy w c providers f)) = ''''
       | None \<Rightarrow> fst (findAliveProxy w c providers f) = proxies ! 0))"
proof -
  have dw: "find_by_name sel ps = (case dropWhile (\<lambda>p. gp_Name p \<noteq> sel) ps of [] \<Rightarrow> None | p # _ \<Rightarrow> Some p)"
    for sel and ps :: "gproxy list"
    by (induction ps) (auto simp: find_by_name_def)
  show ?thesis
    using assms by (cases "dropWhile (\<lambda>p. gp_Name p \<noteq> f_selected f) proxies")
      (simp_all del: dropWhile_eq_Nil_conv add: findAliveProxy_def alive_loop_auto alive_loop_picked dw)
qed

theorem findAliveProxy_order_witness:
  "fst (findAliveProxy \<lparr>h_alive = (\<lambda>i url. i = 2), h_delay = (\<lambda>_ _. 0)\<rparr> (gp 0 ''COMPATIBLE'')
     [\<lparr>pv_Version = 1, pv_Compatible = True, pv_Proxies = [gp 1 ''a'', gp 2 ''b'']\<rparr>]
     \<lparr>f_base = plain_base, f_testUrl = ''u'', f_selected = ''''\<rparr>) = gp 2 ''b''"
proof -
  have "GetProxies (gp 0 ''COMPATIBLE'') [\<lparr>pv_Version = 1, pv_Compatible = True, pv_Proxies = [gp 1 ''a'', gp 2 ''b'']\<rparr>]
      (f_base \<lparr>f_base = plain_base, f_testUrl = ''u'', f_selected = ''''\<rparr>) =
    ([gp 1 ''a'', gp 2 ''b''], plain_base\<lparr>gb_providerVersions := [1], gb_providerProxies := [gp 1 ''a'', gp 2 ''b'']\<rparr>)"
    by (simp add: GetProxies_def Let_def plain_base_def provider_part_def reorder_def exclude_names_def exclude_types_def)
  from findAliveProxy_order[OF this] show ?thesis by (simp add: gp_def)
qed

text \<open>
  When the fixed choice has died, the call that notices it skips the living proxies listed before
  it and, if none lives after it, uses the first of the list even if that one is dead too.
\<close>

theorem fallback_uses_dead_proxy:
  "let w = \<lparr>h_alive = (\<lambda>i url. i = 2), h_delay = (\<lambda>_ _. 0)\<rparr>;
       pds = [\<lparr>pv_Version = 1, pv_Compatible = True, pv_Proxies = [gp 1 ''a'', gp 2 ''b'', gp 3 ''c'']\<rparr>];
       f = \<lparr>f_base = plain_base, f_testUrl = ''u'', f_selected = ''c''\<rparr>;
       (p, f') = findAliveProxy w (gp 0 ''COMPATIBLE'') pds f in
   p = gp 1 ''a'' \<and> \<not> alive w ''u'' p \<and> alive w ''u'' (gp 2 ''b'') \<and>
   fst (findAliveProxy w (gp 0 ''COMPATIBLE'') pds f') = gp 2 ''b''"
  by code_simp

section \<open>URLTest\<close>

lemma fast_loop_fastest:
  "fast_loop w url fn ps (f0, d0, ne0) = (f, d, ne) \<Longrightarrow> d0 = delay w url f0 \<Longrightarrow>
   d = delay w url f \<and> d \<le> d0 \<and> (f = f0 \<or> f \<in> set ps \<and> alive w url f) \<and>
   list_all (\<lambda>p. alive w url p \<longrightarrow> d \<le> delay w url p) ps \<and>
   ne = (ne0 \<and> (case fn of None \<Rightarrow> True | Some g \<Rightarrow> gp_Name g \<notin> gp_Name ` set ps))"
proof (induction w url fn ps "(f0, d0, ne0)" arbitrary: f0 d0 ne0 rule: fast_loop.induct)
  case (2 w url fn p ps f0 d0 ne0)
  let ?n = "case fn of Some f \<Rightarrow> if gp_Name p = gp_Name f then False else ne0 | None \<Rightarrow> ne0"
  consider (dead) "\<not> alive w url p" | (faster) "alive w url p" "delay w url p < d0"
    | (slower) "alive w url p" "\<not> delay w url p < d0" by blast
  then show ?case
  proof cases
    case dead
    then have "fast_loop w url fn ps (f0, d0, ?n) = (f, d, ne)" using 2(4) by simp
    from 2(1)[OF refl dead this 2(5)] show ?thesis using dead by (auto split: option.splits if_splits)
  next
    case faster
    then have "fast_loop w url fn ps (p, delay w url p, ?n) = (f, d, ne)" using 2(4) by simp
    from 2(2)[OF refl _ _ this refl] faster show ?thesis by (auto split: option.splits if_splits)
  next
    case slower
    then have "fast_loop w url fn ps (f0, d0, ?n) = (f, d, ne)" using 2(4) by simp
    from 2(3)[OF refl _ _ this 2(5)] slower show ?thesis by (auto split: option.splits if_splits)
  qed
qed (auto split: option.split)

text \<open>
  Without a fixed choice, a url-test group either keeps the proxy it used, which then still lives
  and is listed under its name, or takes one that is no slower than the first of the list and than
  every living proxy, and which lives unless it is the first.
\<close>

theorem urltest_fastest:
  assumes "proxies \<noteq> []" and "u_selected u = ''''" and "fast_compute w proxies u = (p, u')"
  shows "u_fastNode u' = Some p \<and>
    ((u_fastNode u = Some p \<and> alive w (u_testUrl u) p \<and> gp_Name p \<in> gp_Name ` set (tl proxies)) \<or>
     (p = proxies ! 0 \<or> p \<in> set proxies \<and> alive w (u_testUrl u) p) \<and>
      delay w (u_testUrl u) p \<le> delay w (u_testUrl u) (proxies ! 0) \<and>
      list_all (\<lambda>q. alive w (u_testUrl u) q \<longrightarrow> delay w (u_testUrl u) p \<le> delay w (u_testUrl u) q) proxies)"
proof -
  let ?url = "u_testUrl u"
  obtain x xs where ps: "proxies = x # xs" using assms(1) by (cases proxies) auto
  obtain fast d ne where L: "fast_loop w ?url (u_fastNode u) xs (x, delay w ?url x, True) = (fast, d, ne)"
    by (metis prod_cases3)
  note F = fast_loop_fastest[OF L refl]
  show ?thesis
    using assms(2,3) L F ps
    by (auto simp: fast_compute_def Let_def split: option.splits if_splits)
qed

theorem urltest_fastest_witness:
  "let w = \<lparr>h_alive = (\<lambda>_ _. True), h_delay = (\<lambda>i _. if i = 1 then 90 else 20)\<rparr>;
       u = \<lparr>u_base = plain_base, u_selected = '''', u_testUrl = ''u'', u_tolerance = 0, u_fastNode = None\<rparr> in
   u_fastNode (snd (fast_compute w [gp 1 ''a'', gp 2 ''b''] u)) = Some (gp 2 ''b'')"
proof -
  let ?w = "\<lparr>h_alive = (\<lambda>_ _. True), h_delay = (\<lambda>i _. if i = 1 then 90 else 20)\<rparr>"
  let ?u = "\<lparr>u_base = plain_base, u_selected = '''', u_testUrl = ''u'', u_tolerance = 0, u_fastNode = None\<rparr>"
  have "fast_compute ?w [gp 1 ''a'', gp 2 ''b''] ?u = (gp 2 ''b'', ?u\<lparr>u_fastNode := Some (gp 2 ''b'')\<rparr>)"
    by (simp add: fast_compute_def Let_def)
  from urltest_fastest[OF _ _ this] show ?thesis by (simp add: fast_compute_def Let_def)
qed

text \<open>
  The tolerance keeps the proxy in use while another is at most that much faster, unless it is the
  first of the list: then it is dropped for a proxy faster by a single millisecond.
\<close>

theorem tolerance_ignored_for_first:
  "let w = \<lparr>h_alive = (\<lambda>_ _. True), h_delay = (\<lambda>i _. if i = 1 then 100 else 99)\<rparr>;
       u = \<lparr>u_base = plain_base, u_selected = '''', u_testUrl = ''u'', u_tolerance = 50,
            u_fastNode = Some (gp 1 ''a'')\<rparr> in
   fst (fast_compute w [gp 1 ''a'', gp 2 ''b''] u) = gp 2 ''b'' \<and>
   fst (fast_compute w [gp 2 ''b'', gp 1 ''a''] u) = gp 1 ''a''"
  by code_simp

section \<open>Round robin\<close>

lemma robin_loop_spec:
  "robin_loop w url ps idx i k = (found, j) \<Longrightarrow>
   (case found of
      Some p \<Rightarrow> i < j \<and> j \<le> i + k \<and> p = ps ! ((idx + (j - 1)) mod length ps) \<and> alive w url p \<and>
        (\<forall>n. i \<le> n \<and> n < j - 1 \<longrightarrow> \<not> alive w url (ps ! ((idx + n) mod length ps)))
    | None \<Rightarrow> j = i + k \<and> (\<forall>n. i \<le> n \<and> n < i + k \<longrightarrow> \<not> alive w url (ps ! ((idx + n) mod length ps))))"
proof (induction w url ps idx i k rule: robin_loop.induct)
  case (2 w url ps idx i k)
  let ?p = "ps ! ((idx + i) mod length ps)"
  show ?case
  proof (cases "alive w url ?p")
    case True
    then show ?thesis using 2(2) by (auto simp: Let_def)
  next
    case False
    then have "robin_loop w url ps idx (i + 1) k = (found, j)" using 2(2) by (simp add: Let_def)
    from 2(1)[OF refl False this] False show ?thesis
      by (auto split: option.splits simp: Suc_le_eq) (metis le_neq_implies_less)+
  qed
qed auto

text \<open>
  A touching call of the round-robin strategy uses the first living proxy at or after its index,
  going round the list, and moves the index just past it; it falls back to the first of the list
  only when no proxy lives.
\<close>

theorem round_robin_next:
  assumes "proxies \<noteq> []" and "strategyRoundRobin w url proxies True idx = (p, idx')"
  shows "(\<exists>j < length proxies. p = proxies ! ((idx + j) mod length proxies) \<and> alive w url p \<and>
      idx' = (idx + j + 1) mod length proxies \<and>
      (\<forall>n. n < j \<longrightarrow> \<not> alive w url (proxies ! ((idx + n) mod length proxies)))) \<or>
    (list_all (\<lambda>q. \<not> alive w url q) proxies \<and> p = proxies ! 0)"
proof -
  let ?n = "length proxies"
  obtain found j where R: "robin_loop w url proxies idx 0 ?n = (found, j)" by fastforce
  note S = robin_loop_spec[OF R]
  show ?thesis
  proof (cases found)
    case (Some q)
    then have "j - 1 < ?n" "idx + j = idx + (j - 1) + 1" using S by auto
    then show ?thesis using S R Some assms(2) by (auto simp: strategyRoundRobin_def)
  next
    case None
    have "\<not> alive w url (proxies ! m)" if m: "m < ?n" for m
    proof -
      define n where "n = (m + ?n - idx mod ?n) mod ?n"
      have "(idx + n) mod ?n = m"
      proof -
        have "(idx + n) mod ?n = (idx mod ?n + (m + ?n - idx mod ?n)) mod ?n"
          by (simp add: n_def mod_simps)
        also have "idx mod ?n + (m + ?n - idx mod ?n) = m + ?n"
        proof -
          have "idx mod ?n < ?n" using assms(1) by simp
          then show ?thesis by linarith
        qed
        finally show ?thesis using m by simp
      qed
      moreover have "n < ?n" using assms(1) by (simp add: n_def)
      ultimately show ?thesis using S None by auto
    qed
    then have "list_all (\<lambda>q. \<not> alive w url q) proxies" by (simp add: list_all_length)
    moreover have "p = proxies ! 0" using R None assms(2) by (simp add: strategyRoundRobin_def)
    ultimately show ?thesis by simp
  qed
qed

theorem round_robin_next_witness:
  "strategyRoundRobin \<lparr>h_alive = (\<lambda>i _. i \<noteq> 2), h_delay = (\<lambda>_ _. 0)\<rparr> ''u'' [gp 1 ''a'', gp 2 ''b'', gp 3 ''c''] True 1
     = (gp 3 ''c'', 0)"
proof -
  let ?w = "\<lparr>h_alive = (\<lambda>i _. i \<noteq> 2), h_delay = (\<lambda>_ _. 0)\<rparr>"
  have v: "strategyRoundRobin ?w ''u'' [gp 1 ''a'', gp 2 ''b'', gp 3 ''c''] True 1 = (gp 3 ''c'', 0)"
    by code_simp
  from round_robin_next[OF _ v] show ?thesis using v by simp
qed

end
