(* ===== verification/ControlServer.thy ===== *)
theory ControlServer imports ProxyGroups Tunnel begin

text \<open>
  core/src/main/golang/server: the control socket between the Android service and the core. A
  connection carries one command, big-endian numbers and length-prefixed packets; the
  model takes what the client sends (until it closes) as a byte string and gives back what is
  written, what was started or loaded, and whether the handler panicked. The JSON codec
  (encoding/json), the configuration loader and the passing of file descriptors are arguments.
\<close>

section \<open>utils.go\<close>

definition read_u32 :: "bytes \<Rightarrow> (u32 \<times> bytes) option" where
  "read_u32 inp = (if length inp < 4 then None else Some (get_be (take 4 inp), drop 4 inp))"

definition readCommandPacket :: "bytes \<Rightarrow> (bytes \<times> bytes) option" where
  "readCommandPacket inp =
     (case read_u32 inp of
        None \<Rightarrow> None
      | Some (packageSize, rest) \<Rightarrow>
          if length rest < unat packageSize then None
          else Some (take (unat packageSize) rest, drop (unat packageSize) rest))"

definition writeCommandPacket :: "bytes \<Rightarrow> bytes" where
  "writeCommandPacket buffer = put_be (word_of_nat (length buffer) :: u32) @ buffer"

section \<open>State and arguments\<close>

text \<open>
  A proxy of the tunnel as the control server tells them apart: not an \<open>adapter.Proxy\<close>, one that
  wraps no selector, or a selector with its providers.
\<close>

datatype control_proxy = NotAdapterProxy | NotSelector | SelectorProxy "proxy_provider list" selector

datatype event = EvStartTun nat u32 | EvStopTun | EvLoadDefault | EvLoadFile string

record server =
  sv_proxies :: "(string \<times> control_proxy) list"
  sv_mode :: tunnel_mode
  sv_ports :: "nat \<times> nat \<times> nat"
  sv_httpPort :: "string option"
  sv_events :: "event list"
  sv_out :: bytes
  sv_closed :: bool

datatype outcome = Finished server | Panicked

datatype control_message = ReadFailed | ParseFailed | Messages "nat list option list"

record codec =
  dec_profile :: "bytes \<Rightarrow> (string \<times> (string \<times> string) list) option"
  enc_profile :: "string \<Rightarrow> string list \<Rightarrow> bytes"
  dec_set :: "bytes \<Rightarrow> string \<times> string"
  enc_set :: "string \<Rightarrow> bytes"
  dec_urltest :: "bytes \<Rightarrow> (string \<times> int \<times> string list) option"
  enc_urltest :: "string \<Rightarrow> u16 \<Rightarrow> bytes"
  enc_general :: "nat \<times> nat \<times> nat \<Rightarrow> nat \<Rightarrow> nat \<Rightarrow> bytes"
  enc_proxies :: "string \<Rightarrow> (string \<times> control_proxy) list \<Rightarrow> bytes"
  load_file :: "string \<Rightarrow> string option"
  compatible_proxy :: gproxy

definition write_packet :: "bytes \<Rightarrow> server \<Rightarrow> server" where
  "write_packet buffer s = s\<lparr>sv_out := sv_out s @ writeCommandPacket buffer\<rparr>"

definition emit :: "event \<Rightarrow> server \<Rightarrow> server" where
  "emit ev s = s\<lparr>sv_events := sv_events s @ [ev]\<rparr>"

section \<open>proxies.go\<close>

text \<open>\<open>setProxySelect\<close>: the error text (empty for none) and the server afterwards.\<close>

definition setProxySelect :: "codec \<Rightarrow> string \<Rightarrow> string \<Rightarrow> server \<Rightarrow> string \<times> server" where
  "setProxySelect c name selected s =
     (case map_of (sv_proxies s) name of
        None \<Rightarrow> (''Unknown proxy '' @ name, s)
      | Some NotAdapterProxy \<Rightarrow> (''Invalid proxy '' @ name, s)
      | Some NotSelector \<Rightarrow> (''Not selector'', s)
      | Some (SelectorProxy providers sel) \<Rightarrow>
          (case selector_Set (compatible_proxy c) providers selected sel of
             (ok, sel') \<Rightarrow>
               (if ok then '''' else ''proxy not exist'',
                s\<lparr>sv_proxies := AList.update name (SelectorProxy providers sel') (sv_proxies s)\<rparr>)))"

definition handleSetProxy :: "codec \<Rightarrow> bytes \<Rightarrow> server \<Rightarrow> server" where
  "handleSetProxy c inp s =
     (case readCommandPacket inp of
        None \<Rightarrow> write_packet (enc_set c '''') s
      | Some (buf, _) \<Rightarrow>
          (case dec_set c buf of (key, value) \<Rightarrow>
             (case setProxySelect c key value s of (err, s') \<Rightarrow> write_packet (enc_set c err) s')))"

definition mode_code :: "tunnel_mode \<Rightarrow> nat" where
  "mode_code m = (case m of Direct \<Rightarrow> 1 | Global \<Rightarrow> 2 | Rule \<Rightarrow> 3)"

definition handleQueryGeneral :: "codec \<Rightarrow> server \<Rightarrow> server" where
  "handleQueryGeneral c s =
     (let randomHttp = (case sv_httpPort s of
          None \<Rightarrow> 0
        | Some address \<Rightarrow>
            (case SplitHostPort address of
               Inl _ \<Rightarrow> 0
             | Inr (_, port) \<Rightarrow> (case ParseUint 63 port of None \<Rightarrow> 0 | Some p \<Rightarrow> p))) in
      write_packet (enc_general c (sv_ports s) randomHttp (mode_code (sv_mode s))) s)"

definition handleQueryProxies :: "codec \<Rightarrow> server \<Rightarrow> server" where
  "handleQueryProxies c s = write_packet (enc_proxies c (mode_String (sv_mode s)) (sv_proxies s)) s"

text \<open>
  \<open>handleUrlTest\<close>: \<open>results\<close> are the answers of the tests in the order in which they arrive on the
  channel, one for each requested proxy, None for an unknown or failed one.
\<close>

definition handleUrlTest ::
  "codec \<Rightarrow> (string \<Rightarrow> int \<Rightarrow> string list \<Rightarrow> (string \<times> u16) option list) \<Rightarrow> bytes \<Rightarrow> server \<Rightarrow> server" where
  "handleUrlTest c test inp s =
     (case readCommandPacket inp of
        None \<Rightarrow> s
      | Some (buf, _) \<Rightarrow>
          (case dec_urltest c buf of
             None \<Rightarrow> s
           | Some (url, timeout, proxies) \<Rightarrow>
               let s' = fold (\<lambda>r s. case r of
                     None \<Rightarrow> s
                   | Some (name, ms) \<Rightarrow> write_packet (enc_urltest c name ms) s)
                 (test url timeout proxies) s in
               write_packet [] s'))"

section \<open>ping.go, tun.go and profile.go\<close>

definition handlePing :: "server \<Rightarrow> server" where
  "handlePing s = s\<lparr>sv_out := sv_out s @ put_be (233 :: u32)\<rparr>"

text \<open>
  \<open>handleTunStart\<close>: the errors of the two final reads are ignored, the number then stays zero. When
  the control message parses but is not a single one, the error that is logged is nil and the
  call on it panics, as does taking the first of no descriptors.
\<close>

definition handleTunStart :: "control_message \<Rightarrow> bytes \<Rightarrow> server \<Rightarrow> outcome" where
  "handleTunStart cm inp s =
     (case cm of
        ReadFailed \<Rightarrow> Finished s
      | ParseFailed \<Rightarrow> Finished s
      | Messages msgs \<Rightarrow>
          if length msgs \<noteq> 1 then Panicked
          else (case hd msgs of
              None \<Rightarrow> Finished s
            | Some fds \<Rightarrow>
                (case (case read_u32 inp of None \<Rightarrow> (0, []) | Some r \<Rightarrow> r) of (mtu, rest) \<Rightarrow>
                   (case (case read_u32 rest of None \<Rightarrow> (0, []) | Some r \<Rightarrow> r) of (end_mark, _) \<Rightarrow>
                      if end_mark \<noteq> 0x243 then Finished s
                      else if fds = [] then Panicked
                      else Finished (emit (EvStartTun (hd fds) mtu) s)))))"

definition handleTunStop :: "server \<Rightarrow> server" where
  "handleTunStop s = emit EvStopTun s"

definition handleProfileDefault :: "server \<Rightarrow> server" where
  "handleProfileDefault s = emit EvLoadDefault s"

definition handleProfileReload :: "codec \<Rightarrow> bytes \<Rightarrow> server \<Rightarrow> server" where
  "handleProfileReload c inp s =
     (case readCommandPacket inp of
        None \<Rightarrow> s
      | Some (packet, _) \<Rightarrow>
          (case dec_profile c packet of
             None \<Rightarrow> write_packet (enc_profile c '''' []) s
           | Some (path, selected) \<Rightarrow>
               (case load_file c path of
                  Some err \<Rightarrow> write_packet (enc_profile c err []) s
                | None \<Rightarrow>
                    write_packet (enc_profile c '''' [])
                      (fold (\<lambda>(k, v) s. snd (setProxySelect c k v s)) selected (emit (EvLoadFile path) s)))))"

section \<open>event.go\<close>

datatype log_level = DEBUG | INFO | WARNING | ERROR | SILENT

fun level_code :: "log_level \<Rightarrow> nat" where
  "level_code DEBUG = 1"
| "level_code INFO = 2"
| "level_code WARNING = 3"
| "level_code ERROR = 4"
| "level_code SILENT = 0"

text \<open>What the pull handlers write for the events that arrive before the client goes away.\<close>

definition handlePullLogEvent :: "(nat \<Rightarrow> string \<Rightarrow> bytes) \<Rightarrow> (log_level \<times> string) list \<Rightarrow> server \<Rightarrow> server" where
  "handlePullLogEvent enc msgs s =
     (fold (\<lambda>(level, payload). write_packet (enc (level_code level) payload)) msgs s)\<lparr>sv_closed := True\<rparr>"

definition handlePullTrafficEvent :: "(u64 \<Rightarrow> u64 \<Rightarrow> bytes) \<Rightarrow> (u64 \<times> u64) list \<Rightarrow> server \<Rightarrow> server" where
  "handlePullTrafficEvent enc ticks s =
     (fold (\<lambda>(up, down). write_packet (enc up down)) ticks s)\<lparr>sv_closed := True\<rparr>"

definition handlePullBandwidthEvent :: "(u64 \<Rightarrow> bytes) \<Rightarrow> (u64 \<times> u64) list \<Rightarrow> server \<Rightarrow> server" where
  "handlePullBandwidthEvent enc snapshots s =
     (fold (\<lambda>(download, upload). write_packet (enc (download + upload))) snapshots s)\<lparr>sv_closed := True\<rparr>"

section \<open>server.go\<close>

datatype command = PullTraffic | PullLog | PullBandwidth | Simple "server \<Rightarrow> outcome"

text \<open>
  The table of handlers: the three pull handlers, which run until the client leaves, are named; the
  others are applied to what follows the command.
\<close>

definition handlers ::
  "codec \<Rightarrow> (string \<Rightarrow> int \<Rightarrow> string list \<Rightarrow> (string \<times> u16) option list) \<Rightarrow> control_message \<Rightarrow> bytes \<Rightarrow>
   u32 \<Rightarrow> command option" where
  "handlers c test cm rest = map_of
     [(0, Simple (\<lambda>s. Finished (handlePing s))),
      (1, Simple (handleTunStart cm rest)),
      (2, Simple (\<lambda>s. Finished (handleTunStop s))),
      (3, Simple (\<lambda>s. Finished (handleProfileDefault s))),
      (4, Simple (\<lambda>s. Finished (handleProfileReload c rest s))),
      (5, Simple (\<lambda>s. Finished (handleQueryProxies c s))),
      (6, PullTraffic), (7, PullLog), (8, PullBandwidth),
      (9, Simple (\<lambda>s. Finished (handleSetProxy c rest s))),
      (10, Simple (\<lambda>s. Finished (handleQueryGeneral c s))),
      (11, Simple (\<lambda>s. Finished (handleUrlTest c test rest s)))]"

text \<open>
  \<open>handleConnection\<close>: an error of the first read is logged and the command stays zero. \<open>pull\<close> runs a
  pull handler.
\<close>

definition handleConnection ::
  "codec \<Rightarrow> (string \<Rightarrow> int \<Rightarrow> string list \<Rightarrow> (string \<times> u16) option list) \<Rightarrow> control_message \<Rightarrow>
   (command \<Rightarrow> server \<Rightarrow> server) \<Rightarrow> bytes \<Rightarrow> server \<Rightarrow> outcome" where
  "handleConnection c test cm pull inp s =
     (case (case read_u32 inp of None \<Rightarrow> (0, []) | Some r \<Rightarrow> r) of (command, rest) \<Rightarrow>
        (case handlers c test cm rest command of
           None \<Rightarrow> Finished (s\<lparr>sv_closed := True\<rparr>)
         | Some (Simple h) \<Rightarrow> h s
         | Some p \<Rightarrow> Finished (pull p s)))"

section \<open>Packets\<close>

lemma read_u32_put [wire]: "read_u32 (put_be w @ rest) = Some (w, rest)"
  by (simp add: read_u32_def get_put_be)

lemma packet_back [wire]:
  "length b < 2 ^ 32 \<Longrightarrow> readCommandPacket (writeCommandPacket b @ rest) = Some (b, rest)"
  by (simp add: readCommandPacket_def writeCommandPacket_def read_u32_put unat_of_nat)

text \<open>
  A packet of less than four gigabytes that is written is read back as it was, whatever follows it.
\<close>

theorem packet_roundtrip:
  assumes "length b < 2 ^ 32"
  shows "readCommandPacket (writeCommandPacket b @ rest) = Some (b, rest)"
  by (rule packet_back[OF assms])

theorem packet_roundtrip_witness:
  "readCommandPacket (writeCommandPacket [1, 2, 3] @ [9]) = Some ([1, 2, 3], [9])"
  using packet_roundtrip[of "[1, 2, 3]" "[9]"] by simp

text \<open>What a client sees when it reads packets one after the other.\<close>

function read_packets :: "bytes \<Rightarrow> bytes list" where
  "read_packets inp =
     (case readCommandPacket inp of None \<Rightarrow> [] | Some (p, rest) \<Rightarrow> p # read_packets rest)"
  by pat_completeness auto
termination
  by (relation "measure length")
    (auto simp: readCommandPacket_def read_u32_def split: option.splits if_splits)

declare read_packets.simps [simp del]

lemma read_packets_Cons: "length b < 2 ^ 32 \<Longrightarrow> read_packets (writeCommandPacket b @ rest) = b # read_packets rest"
  by (subst read_packets.simps) (simp add: packet_back)

lemma read_packets_Nil [simp]: "read_packets [] = []"
  by (subst read_packets.simps) (simp add: readCommandPacket_def read_u32_def)

definition urltest_packets :: "codec \<Rightarrow> (string \<times> u16) option list \<Rightarrow> bytes list" where
  "urltest_packets c results = concat (map (\<lambda>r. case r of None \<Rightarrow> [] | Some (n, d) \<Rightarrow> [enc_urltest c n d]) results)"

lemma urltest_out:
  "sv_out (fold (\<lambda>r s. case r of None \<Rightarrow> s | Some (name, ms) \<Rightarrow> write_packet (enc_urltest c name ms) s) results s) =
   sv_out s @ concat (map writeCommandPacket (urltest_packets c results))"
  by (induction results arbitrary: s)
    (auto simp: urltest_packets_def write_packet_def split: option.split)

lemma read_all_packets:
  "list_all (\<lambda>b. length b < 2 ^ 32) bs \<Longrightarrow> read_packets (concat (map writeCommandPacket bs)) = bs"
  by (induction bs) (auto simp: read_packets_Cons)

text \<open>
  Whatever the order in which the tests end, the client of a URL test reads one packet for each
  proxy that answered, in that order, and then one empty packet.
\<close>

theorem handleUrlTest_answers:
  assumes "dec_urltest c buf = Some (url, timeout, proxies)" and "length buf < 2 ^ 32"
    and "list_all (\<lambda>b. length b < 2 ^ 32) (urltest_packets c (test url timeout proxies))"
    and "sv_out s = []"
  shows "read_packets (sv_out (handleUrlTest c test (writeCommandPacket buf) s)) =
    urltest_packets c (test url timeout proxies) @ [[]]"
proof -
  have r: "readCommandPacket (writeCommandPacket buf) = Some (buf, [])"
    using packet_back[OF assms(2), of "[]"] by simp
  have "sv_out (handleUrlTest c test (writeCommandPacket buf) s) =
      concat (map writeCommandPacket (urltest_packets c (test url timeout proxies) @ [[]]))"
    using assms(1,4) r by (simp add: handleUrlTest_def Let_def write_packet_def urltest_out)
  then show ?thesis using read_all_packets[of "urltest_packets c (test url timeout proxies) @ [[]]"] assms(3)
    by simp
qed

section \<open>Errors\<close>

text \<open>
  A profile that cannot be parsed, and a selection request that cannot be read, are answered
  exactly like a success; and a connection that closes before its command is complete is answered
  like a ping.
\<close>

theorem errors_answered_as_success:
  "(dec_profile c packet = None \<and> length packet < 2 ^ 32 \<longrightarrow>
     sv_out (handleProfileReload c (writeCommandPacket packet) s) =
     sv_out s @ writeCommandPacket (enc_profile c '''' [])) \<and>
   (readCommandPacket inp = None \<longrightarrow>
     sv_out (handleSetProxy c inp s) = sv_out s @ writeCommandPacket (enc_set c '''')) \<and>
   (length inp < 4 \<longrightarrow> handleConnection c test cm pull inp s = Finished (handlePing s))"
  using packet_back[of packet "[]"]
  by (auto simp: handleProfileReload_def handleSetProxy_def write_packet_def handleConnection_def
      handlers_def read_u32_def)

text \<open>
  A tun-start command that carries no file descriptor message makes the handler panic, which ends
  the process: the error it logs is nil.
\<close>

theorem tun_start_without_fd_panics:
  "handleConnection c test (Messages []) pull (put_be (1 :: u32) @ rest) s = Panicked"
  by (simp add: handleConnection_def read_u32_put handlers_def handleTunStart_def)

text \<open>
  With one descriptor message the tun device is started with its first descriptor and the given
  MTU, exactly when the end marker follows.
\<close>

theorem tun_start_with_fd:
  "handleConnection c test (Messages [Some (fd # fds)]) pull
     (put_be (1 :: u32) @ put_be (mtu :: u32) @ put_be (mark :: u32) @ rest) s =
   Finished (if mark = 0x243 then emit (EvStartTun fd mtu) s else s)"
  by (simp add: handleConnection_def read_u32_put handlers_def handleTunStart_def)

text \<open>A codec that decodes nothing but a URL test and encodes everything as one byte.\<close>

definition demo_codec :: codec where
  "demo_codec = \<lparr>dec_profile = (\<lambda>_. None), enc_profile = (\<lambda>_ _. [1]), dec_set = (\<lambda>_. ('''', '''')),
     enc_set = (\<lambda>_. [2]), dec_urltest = (\<lambda>_. Some (''u'', 5, [''a''])), enc_urltest = (\<lambda>_ _. [3]),
     enc_general = (\<lambda>_ _ _. [4]), enc_proxies = (\<lambda>_ _. [5]), load_file = (\<lambda>_. None),
     compatible_proxy = \<lparr>gp_id = 0, gp_Name = ''COMPATIBLE'', gp_Type = ''Compatible''\<rparr>\<rparr>"

definition demo_server :: server where
  "demo_server = \<lparr>sv_proxies = [], sv_mode = Rule, sv_ports = (0, 0, 0), sv_httpPort = None,
     sv_events = [], sv_out = [], sv_closed = False\<rparr>"

theorem handleUrlTest_answers_witness:
  "read_packets (sv_out (handleUrlTest demo_codec (\<lambda>_ _ _. [None, Some (''a'', 20)])
     (writeCommandPacket [7]) demo_server)) = [[3], []]"
  using handleUrlTest_answers[of demo_codec "[7]" "''u''" 5 "[''a'']" "\<lambda>_ _ _. [None, Some (''a'', 20)]" demo_server]
  by (simp add: demo_codec_def demo_server_def urltest_packets_def)

theorem errors_answered_as_success_witness:
  "sv_out (handleProfileReload demo_codec (writeCommandPacket [7]) demo_server) = writeCommandPacket [1] \<and>
   sv_out (handleSetProxy demo_codec [0, 0] demo_server) = writeCommandPacket [2] \<and>
   handleConnection demo_codec (\<lambda>_ _ _. []) ReadFailed (\<lambda>_ s. s) [0, 0] demo_server =
     Finished (handlePing demo_server)"
proof -
  have "readCommandPacket [0, 0] = None" by (simp add: readCommandPacket_def read_u32_def)
  then show ?thesis
    using errors_answered_as_success[of demo_codec "[7]" demo_server "[0, 0]" "\<lambda>_ _ _. []" ReadFailed "\<lambda>_ s. s"]
    by (simp add: demo_codec_def demo_server_def)
qed

end
