(* ===== verification/DagSort.thy ===== *)
theory DagSort imports Prelude "HOL-Library.AList" "HOL-Library.Multiset" begin

text \<open>
  config/utils.go: \<open>proxyGroupsDagSort\<close>, which checks that the proxy groups of a configuration do not
  contain each other in a circle and puts them in dependency order, in place. A Go map is an association list
  with distinct keys; the order in which the k-th \<open>range\<close> over it visits the keys is chosen by the
  runtime and is the argument \<open>ord k\<close>. Decoding a group (common/structure) is the argument \<open>decode\<close>.
\<close>

section \<open>The code\<close>

record group_option =
  go_Name :: string
  go_Proxies :: "string list"

record 'd graph_node =
  indegree :: int
  topo :: int
  nd_data :: "'d option"
  outdegree :: int
  nd_option :: "group_option option"
  nd_from :: "string list"

type_synonym 'd graph = "(string \<times> 'd graph_node) list"

datatype dag_error = DecodeFailed string string | DuplicateGroup string | LoopDetected "string list"
  | NilNode

text \<open>Step 1.1: the nodes of the groups and of everything they list.\<close>

fun count_edges :: "'d graph \<Rightarrow> string list \<Rightarrow> 'd graph" where
  "count_edges g [] = g"
| "count_edges g (proxy # ps) =
     count_edges (case map_of g proxy of
         Some node \<Rightarrow> AList.update proxy (node\<lparr>indegree := indegree node + 1\<rparr>) g
       | None \<Rightarrow> AList.update proxy \<lparr>indegree = 1, topo = -1, nd_data = None, outdegree = 0,
           nd_option = None, nd_from = []\<rparr> g) ps"

fun build_graph ::
  "('d option \<Rightarrow> group_option \<times> string option) \<Rightarrow> 'd option list \<Rightarrow> 'd graph \<Rightarrow> dag_error + 'd graph"
where
  "build_graph decode [] g = Inr g"
| "build_graph decode (mapping # ms) g =
     (case decode mapping of
        (opt, Some err) \<Rightarrow> Inl (DecodeFailed (go_Name opt) err)
      | (opt, None) \<Rightarrow>
          (case map_of g (go_Name opt) of
             Some node \<Rightarrow>
               if nd_data node \<noteq> None then Inl (DuplicateGroup (go_Name opt))
               else build_graph decode ms (count_edges (AList.update (go_Name opt)
                 (node\<lparr>nd_data := mapping, nd_option := Some opt\<rparr>) g) (go_Proxies opt))
           | None \<Rightarrow> build_graph decode ms (count_edges (AList.update (go_Name opt)
                 \<lparr>indegree = 0, topo = -1, nd_data = mapping, outdegree = 0, nd_option = Some opt,
                  nd_from = []\<rparr> g) (go_Proxies opt))))"

text \<open>
  One pass over the neighbours of a node, in the two loops of the code: the counter of each of
  them is decreased (\<open>dec\<close>), and the neighbour is queued when it reaches zero. A neighbour
  that is no longer in the graph is a nil pointer.
\<close>

fun decrement ::
  "('d graph_node \<Rightarrow> 'd graph_node) \<Rightarrow> ('d graph_node \<Rightarrow> int) \<Rightarrow> 'd graph \<Rightarrow> string list \<Rightarrow> string list
   \<Rightarrow> ('d graph \<times> string list) option"
where
  "decrement dec deg g queue [] = Some (g, queue)"
| "decrement dec deg g queue (x # xs) =
     (case map_of g x of
        None \<Rightarrow> None
      | Some node \<Rightarrow>
          decrement dec deg (AList.update x (dec node) g)
            (if deg (dec node) = 0 then queue @ [x] else queue) xs)"

lemma update_length: "map_of g k \<noteq> None \<Longrightarrow> length (AList.update k v g) = length g"
  by (induction g) auto

lemma decrement_length: "decrement dec deg g queue xs = Some (g', q') \<Longrightarrow> length g' = length g"
  by (induction dec deg g queue xs rule: decrement.induct) (auto split: option.splits simp: update_length)

lemma delete_length: "map_of g k \<noteq> None \<Longrightarrow> length (AList.delete k g) < length g"
  by (induction g) (auto simp: le_imp_less_Suc AList.length_delete_le)

definition dec_in :: "'d graph_node \<Rightarrow> 'd graph_node" where
  "dec_in node = node\<lparr>indegree := indegree node - 1\<rparr>"

definition dec_out :: "'d graph_node \<Rightarrow> 'd graph_node" where
  "dec_out node = node\<lparr>outdegree := outdegree node - 1\<rparr>"

lemma decrement_dom: "decrement dec deg g queue xs = Some (g', q') \<Longrightarrow> map_of g' k = None \<longleftrightarrow> map_of g k = None"
  by (induction dec deg g queue xs rule: decrement.induct)
     (auto split: option.splits simp: AList.update_conv')

text \<open>
  Step 1.2, the topological sort: nodes without incoming edges leave the graph, and the groups
  among them fill the array from its end. The result is the rest of the graph and the array.
\<close>

function (sequential) topo_loop ::
  "nat \<Rightarrow> 'd graph \<Rightarrow> string list \<Rightarrow> 'd option list \<Rightarrow> ('d graph \<times> 'd option list) option"
where
  "topo_loop index g [] groups = Some (g, groups)"
| "topo_loop index g (name # queue) groups =
     (case map_of g name of
        None \<Rightarrow> None
      | Some node \<Rightarrow>
          (case nd_option node of
             None \<Rightarrow> topo_loop index (AList.delete name g) queue groups
           | Some opt \<Rightarrow>
               if go_Proxies opt = [] then
                 topo_loop (index + 1) (AList.delete name g) queue
                   (groups[length groups - (index + 1) := nd_data node])
               else
                 (case decrement dec_in indegree g queue (go_Proxies opt) of
                    None \<Rightarrow> None
                  | Some (g', queue') \<Rightarrow>
                      topo_loop (index + 1) (AList.delete name g') queue'
                        (groups[length groups - (index + 1) := nd_data node]))))"
  by pat_completeness auto

termination
  by (relation "measure (\<lambda>(index, g, q, gs). length g)")
     (auto simp: delete_length decrement_length[symmetric] decrement_dom)

text \<open>Step 2.1: outgoing edges and their reverse.\<close>

fun link_children :: "string \<Rightarrow> 'd graph \<Rightarrow> string list \<Rightarrow> 'd graph option" where
  "link_children name g [] = Some g"
| "link_children name g (proxy # ps) =
     (case map_of g name of
        None \<Rightarrow> None
      | Some node \<Rightarrow>
          let g1 = AList.update name (node\<lparr>outdegree := outdegree node + 1\<rparr>) g in
          (case map_of g1 proxy of
             None \<Rightarrow> None
           | Some child \<Rightarrow>
               link_children name (AList.update proxy (child\<lparr>nd_from := nd_from child @ [name]\<rparr>) g1) ps))"

fun link_graph :: "'d graph \<Rightarrow> string list \<Rightarrow> 'd graph option" where
  "link_graph g [] = Some g"
| "link_graph g (name # names) =
     (case Option.bind (map_of g name) nd_option of
        None \<Rightarrow> link_graph g names
      | Some opt \<Rightarrow>
          if go_Proxies opt = [] then link_graph g names
          else (case link_children name g (go_Proxies opt) of
              None \<Rightarrow> None
            | Some g' \<Rightarrow> link_graph g' names))"

text \<open>Step 2.2: nodes without outgoing edges are outside every loop.\<close>

function (sequential) strip_loop :: "'d graph \<Rightarrow> string list \<Rightarrow> 'd graph option" where
  "strip_loop g [] = Some g"
| "strip_loop g (name # queue) =
     (case map_of g name of
        None \<Rightarrow> None
      | Some node \<Rightarrow>
          (case decrement dec_out outdegree g queue (nd_from node) of
             None \<Rightarrow> None
           | Some (g', queue') \<Rightarrow> strip_loop (AList.delete name g') queue'))"
  by pat_completeness auto

termination
  by (relation "measure (\<lambda>(g, q). length g)")
     (auto simp: delete_length decrement_length[symmetric] decrement_dom)

definition zero_nodes :: "('d graph_node \<Rightarrow> int) \<Rightarrow> 'd graph \<Rightarrow> string list \<Rightarrow> string list" where
  "zero_nodes deg g names = filter (\<lambda>n. case map_of g n of Some node \<Rightarrow> deg node = 0 | None \<Rightarrow> False) names"

text \<open>The whole function: the array it leaves behind, and its error.\<close>

definition proxyGroupsDagSort ::
  "('d option \<Rightarrow> group_option \<times> string option) \<Rightarrow> (nat \<Rightarrow> string list \<Rightarrow> string list) \<Rightarrow> 'd option list
   \<Rightarrow> 'd option list \<times> dag_error option"
where
  "proxyGroupsDagSort decode ord groups =
     (case build_graph decode groups [] of
        Inl err \<Rightarrow> (groups, Some err)
      | Inr g \<Rightarrow>
          (case topo_loop 0 g (zero_nodes indegree g (ord 0 (map fst g))) groups of
             None \<Rightarrow> (groups, Some NilNode)
           | Some (g1, arr) \<Rightarrow>
               if g1 = [] then (arr, None)
               else
                 (case link_graph g1 (ord 1 (map fst g1)) of
                    None \<Rightarrow> (arr, Some NilNode)
                  | Some g2 \<Rightarrow>
                      (case strip_loop g2 (zero_nodes outdegree g2 (ord 2 (map fst g2))) of
                         None \<Rightarrow> (arr, Some NilNode)
                       | Some g3 \<Rightarrow> (arr, Some (LoopDetected (ord 3 (map fst g3))))))))"

end
