(* ===== verification/DagPeel.thy ===== *)
theory DagPeel imports DagSort begin

text \<open>
  Both loops of \<open>proxyGroupsDagSort\<close> peel nodes off a graph. Here is that argument once, the graph that
  the code builds from the groups in closed form, and what the topological sort does with it.
\<close>

section \<open>Peeling\<close>

text \<open>
  Both loops remove nodes whose counter is zero. \<open>peel_inv\<close> is their common invariant: the counter
  \<open>deg\<close> of a node is the number of edges \<open>nb\<close> that reach it from the graph that is left, and the queue
  holds exactly the nodes whose counter is zero.
\<close>

definition nbs :: "('d graph_node \<Rightarrow> string list) \<Rightarrow> 'd graph \<Rightarrow> string \<Rightarrow> string list" where
  "nbs nb g n = (case map_of g n of Some node \<Rightarrow> nb node | None \<Rightarrow> [])"

definition edges_to :: "('d graph_node \<Rightarrow> string list) \<Rightarrow> 'd graph \<Rightarrow> string \<Rightarrow> nat" where
  "edges_to nb g n = (\<Sum>m\<in>dom (map_of g). count_list (nbs nb g m) n)"

definition peel_inv ::
  "('d graph_node \<Rightarrow> int) \<Rightarrow> ('d graph_node \<Rightarrow> string list) \<Rightarrow> 'd graph \<Rightarrow> string list \<Rightarrow> bool"
where
  "peel_inv deg nb g queue \<longleftrightarrow>
     distinct queue \<and> set queue = {n. \<exists>node. map_of g n = Some node \<and> deg node = 0} \<and>
     (\<forall>n node. map_of g n = Some node \<longrightarrow> deg node = int (edges_to nb g n) \<and> set (nb node) \<subseteq> dom (map_of g))"

lemma decrement_spec:
  assumes "set xs \<subseteq> dom (map_of g)" and dec: "\<And>node. deg (dec node) = deg node - 1"
    and "\<And>n node. map_of g n = Some node \<Longrightarrow> deg node \<ge> int (count_list xs n)"
    and "distinct queue" and "set queue = {n. \<exists>node. map_of g n = Some node \<and> deg node = 0}"
  shows "\<exists>g' queue'. decrement dec deg g queue xs = Some (g', queue')
    \<and> (\<forall>n. map_of g' n = map_option (\<lambda>node. (dec ^^ count_list xs n) node) (map_of g n))
    \<and> distinct queue' \<and> set queue' = {n. \<exists>node. map_of g' n = Some node \<and> deg node = 0}"
  using assms(1,3,4,5)
proof (induction xs arbitrary: g queue)
  case (Cons x xs)
  from Cons.prems(1) obtain node where x: "map_of g x = Some node" by auto
  let ?g = "AList.update x (dec node) g"
  let ?q = "if deg (dec node) = 0 then queue @ [x] else queue"
  have pos: "deg node \<ge> 1" using Cons.prems(2)[OF x] by simp
  then have notin: "x \<notin> set queue" using Cons.prems(4) x by auto
  have m: "map_of ?g n = (if n = x then Some (dec node) else map_of g n)" for n
    by (simp add: AList.update_conv')
  have 1: "set xs \<subseteq> dom (map_of ?g)" using Cons.prems(1) by (auto simp: m)
  have 2: "deg nd \<ge> int (count_list xs n)" if "map_of ?g n = Some nd" for n nd
    using Cons.prems(2)[of n] Cons.prems(2)[OF x] that by (auto simp: m dec split: if_splits)
  have 3: "distinct ?q" using Cons.prems(3) notin by simp
  have 4: "set ?q = {n. \<exists>nd. map_of ?g n = Some nd \<and> deg nd = 0}"
    using Cons.prems(4) pos x notin by (auto simp: m dec)
  from Cons.IH[OF 1 2 3 4] obtain g' q' where
    *: "decrement dec deg ?g ?q xs = Some (g', q')"
      "\<forall>n. map_of g' n = map_option (\<lambda>nd. (dec ^^ count_list xs n) nd) (map_of ?g n)"
      "distinct q'" "set q' = {n. \<exists>nd. map_of g' n = Some nd \<and> deg nd = 0}" by blast
  have "map_of g' n = map_option (\<lambda>nd. (dec ^^ count_list (x # xs) n) nd) (map_of g n)" for n
    using x by (auto simp: *(2) m funpow_swap1)
  with * show ?case using x by simp
qed (simp add: option.map_id)

lemma decrement_queue:
  "decrement dec deg g (y # queue) xs = map_option (map_prod id ((#) y)) (decrement dec deg g queue xs)"
  by (induction xs arbitrary: g queue) (auto split: option.splits)

lemma funpow_keeps: "(\<And>x. f (h x) = f x) \<Longrightarrow> f ((h ^^ k) x) = f x"
  by (induction k) simp_all

lemma funpow_lowers: "(\<And>x. f (h x) = f x - (1 :: int)) \<Longrightarrow> f ((h ^^ k) x) = f x - int k"
  by (induction k) simp_all

lemma count_le_edges_to:
  assumes "map_of g x = Some node" shows "count_list (nb node) n \<le> edges_to nb g n"
  unfolding edges_to_def
  using assms member_le_sum[of x "dom (map_of g)" "\<lambda>m. count_list (nbs nb g m) n"]
  by (auto simp: nbs_def finite_dom_map_of)

text \<open>A node that no edge reaches is no neighbour of any node.\<close>

lemma peel_inv_unreached:
  assumes "peel_inv deg nb g queue" and "x \<in> set queue" shows "x \<notin> set (nbs nb g m)"
proof (cases "map_of g m")
  case (Some node)
  from assms have "edges_to nb g x = 0" by (auto simp: peel_inv_def)
  then have "count_list (nbs nb g m) x = 0" using Some by (auto simp: edges_to_def finite_dom_map_of)
  then show ?thesis by (simp add: count_list_0_iff)
qed (simp add: nbs_def)

lemma edges_to_delete:
  assumes x: "map_of g x = Some node"
    and m: "\<And>n. map_of g' n = (if n = x then None else map_option (dec ^^ k n) (map_of g n))"
    and dec: "\<And>node. nb (dec node) = nb node"
  shows "edges_to nb g' n = edges_to nb g n - count_list (nb node) n"
proof -
  have dom: "dom (map_of g') = dom (map_of g) - {x}" by (auto simp: m dom_def split: if_splits)
  have "nbs nb g' j = nbs nb g j" if "j \<noteq> x" for j
    using that by (auto simp: nbs_def m funpow_keeps[of nb dec, OF dec] split: option.split)
  then have "(\<Sum>j\<in>dom (map_of g) - {x}. count_list (nbs nb g j) n) = edges_to nb g' n"
    unfolding edges_to_def dom by (intro sum.cong) auto
  moreover have "edges_to nb g n = count_list (nb node) n + (\<Sum>j\<in>dom (map_of g) - {x}. count_list (nbs nb g j) n)"
    unfolding edges_to_def using x by (subst sum.remove[of _ x]) (auto simp: finite_dom_map_of nbs_def)
  ultimately show ?thesis by simp
qed

lemma decrement_keys:
  "decrement dec deg g queue xs = Some (g', q') \<Longrightarrow> map fst g' = map fst g"
  by (induction dec deg g queue xs rule: decrement.induct)
     (auto split: option.splits simp: AList.update_keys dom_map_of_conv_image_fst[symmetric])

lemma peel_step:
  assumes inv: "peel_inv deg nb g (x # queue)"
    and dec: "\<And>node. deg (dec node) = deg node - 1" "\<And>node. nb (dec node) = nb node"
  shows "\<exists>node g' queue'. map_of g x = Some node
    \<and> decrement dec deg g queue (nb node) = Some (g', queue')
    \<and> (\<forall>n. map_of g' n = map_option (dec ^^ count_list (nb node) n) (map_of g n))
    \<and> peel_inv deg nb (AList.delete x g') queue'"
proof -
  have "x \<in> {n. \<exists>node. map_of g n = Some node \<and> deg node = 0}" using inv by (auto simp: peel_inv_def)
  then obtain node where x: "map_of g x = Some node" by auto
  have deg: "deg nd = int (edges_to nb g n) \<and> set (nb nd) \<subseteq> dom (map_of g)" if "map_of g n = Some nd" for n nd
    using inv that by (auto simp: peel_inv_def)
  have none: "x \<notin> set (nbs nb g m)" for m by (rule peel_inv_unreached[OF inv]) simp
  have "\<exists>g' queue'. decrement dec deg g (x # queue) (nb node) = Some (g', queue')
    \<and> (\<forall>n. map_of g' n = map_option (\<lambda>nd. (dec ^^ count_list (nb node) n) nd) (map_of g n))
    \<and> distinct queue' \<and> set queue' = {n. \<exists>node. map_of g' n = Some node \<and> deg node = 0}"
    using inv deg[OF x] deg count_le_edges_to[OF x, of nb] by (intro decrement_spec) (auto simp: peel_inv_def dec)
  then obtain g' q' where d: "decrement dec deg g queue (nb node) = Some (g', q')"
    and m: "\<And>n. map_of g' n = map_option (dec ^^ count_list (nb node) n) (map_of g n)"
    and q': "distinct (x # q')" "set (x # q') = {n. \<exists>node. map_of g' n = Some node \<and> deg node = 0}"
    by (auto simp: decrement_queue)
  let ?g = "AList.delete x g'"
  have m': "map_of ?g n = (if n = x then None else map_option (dec ^^ count_list (nb node) n) (map_of g n))" for n
    by (simp add: AList.delete_conv' m)
  have e': "edges_to nb ?g n = edges_to nb g n - count_list (nb node) n" for n
    using x m' dec(2) by (rule edges_to_delete)
  have "peel_inv deg nb ?g q'"
    unfolding peel_inv_def
  proof (intro conjI allI impI)
    show "distinct q'" using q' by simp
    have "set q' = set (x # q') - {x}" using q'(1) by auto
    then show "set q' = {n. \<exists>nd. map_of ?g n = Some nd \<and> deg nd = 0}"
      unfolding q'(2) by (auto simp: AList.delete_conv')
  next
    fix n nd assume "map_of ?g n = Some nd"
    then obtain nd0 where n: "n \<noteq> x" "map_of g n = Some nd0" "nd = (dec ^^ count_list (nb node) n) nd0"
      by (auto simp: m' split: if_splits)
    show "deg nd = int (edges_to nb ?g n)"
      using n(3) deg[OF n(2)] count_le_edges_to[OF x, of nb n]
      by (simp add: funpow_lowers[of deg dec, OF dec(1)] e')
    have "x \<notin> set (nb nd0)" using none[of n] n(2) by (simp add: nbs_def)
    then show "set (nb nd) \<subseteq> dom (map_of ?g)"
      using deg[OF n(2)] by (auto simp: n(3) funpow_keeps[of nb dec, OF dec(2)] m' dom_def subset_iff)
  qed
  with x d m show ?thesis by blast
qed

section \<open>The graph of the groups\<close>

text \<open>
  The group with a name, the names each node lists, and how often the groups list a name; all read off the
  configuration itself.
\<close>

definition group_name :: "('d option \<Rightarrow> group_option \<times> string option) \<Rightarrow> 'd option \<Rightarrow> string" where
  "group_name decode m = go_Name (fst (decode m))"

definition group_of ::
  "('d option \<Rightarrow> group_option \<times> string option) \<Rightarrow> 'd option list \<Rightarrow> string \<Rightarrow> 'd option option"
where
  "group_of decode ms = map_of (map (\<lambda>m. (group_name decode m, m)) ms)"

definition members :: "('d option \<Rightarrow> group_option \<times> string option) \<Rightarrow> 'd option \<Rightarrow> string list" where
  "members decode m = go_Proxies (fst (decode m))"

definition listed_times ::
  "('d option \<Rightarrow> group_option \<times> string option) \<Rightarrow> 'd option list \<Rightarrow> string \<Rightarrow> nat"
where
  "listed_times decode ms n = sum_list (map (\<lambda>m. count_list (members decode m) n) ms)"

definition well_formed_groups ::
  "('d option \<Rightarrow> group_option \<times> string option) \<Rightarrow> 'd option list \<Rightarrow> bool"
where
  "well_formed_groups decode ms \<longleftrightarrow>
     distinct (map (group_name decode) ms) \<and> list_all (\<lambda>m. m \<noteq> None \<and> snd (decode m) = None) ms"

definition graph_node_of ::
  "('d option \<Rightarrow> group_option \<times> string option) \<Rightarrow> 'd option list \<Rightarrow> string \<Rightarrow> 'd graph_node option"
where
  "graph_node_of decode ms n =
     (if group_of decode ms n = None \<and> listed_times decode ms n = 0 then None
      else Some \<lparr>indegree = int (listed_times decode ms n), topo = -1,
        nd_data = Option.bind (group_of decode ms n) id, outdegree = 0,
        nd_option = map_option (\<lambda>m. fst (decode m)) (group_of decode ms n), nd_from = []\<rparr>)"

lemma map_of_count_edges:
  "map_of (count_edges g ps) n =
     (case map_of g n of
        Some node \<Rightarrow> Some (node\<lparr>indegree := indegree node + int (count_list ps n)\<rparr>)
      | None \<Rightarrow> if count_list ps n = 0 then None
          else Some \<lparr>indegree = int (count_list ps n), topo = -1, nd_data = None, outdegree = 0,
             nd_option = None, nd_from = []\<rparr>)"
  by (induction g ps rule: count_edges.induct) (auto simp: AList.update_conv' split: option.split)

lemma distinct_count_edges: "distinct (map fst g) \<Longrightarrow> distinct (map fst (count_edges g ps))"
  by (induction g ps rule: count_edges.induct) (auto simp: AList.distinct_update split: option.split)

lemma group_of_snoc:
  "group_of decode (ms @ [m]) n =
     (case group_of decode ms n of Some d \<Rightarrow> Some d
      | None \<Rightarrow> if n = group_name decode m then Some m else None)"
  by (auto simp: group_of_def map_add_def split: option.split)

lemma group_of_None: "group_of decode ms n = None \<longleftrightarrow> n \<notin> group_name decode ` set ms"
  by (auto simp: group_of_def map_of_eq_None_iff image_image)

lemma listed_times_snoc:
  "listed_times decode (ms @ [m]) n = listed_times decode ms n + count_list (members decode m) n"
  by (simp add: listed_times_def)

lemma build_graph_step:
  assumes "well_formed_groups decode (ms @ m # ms')" and "\<And>n. map_of g n = graph_node_of decode ms n"
    and "distinct (map fst g)"
  shows "\<exists>g'. build_graph decode (m # ms') g = build_graph decode ms' g'
     \<and> (\<forall>n. map_of g' n = graph_node_of decode (ms @ [m]) n) \<and> distinct (map fst g')"
proof -
  let ?n = "group_name decode m"
  obtain opt where d: "decode m = (opt, None)" and m: "m \<noteq> None" and n: "go_Name opt = ?n"
      "go_Proxies opt = members decode m"
    using assms(1) by (cases "decode m") (auto simp: well_formed_groups_def group_name_def members_def)
  have new: "group_of decode ms ?n = None"
    using assms(1) by (auto simp: well_formed_groups_def group_of_None)
  let ?node = "(case map_of g ?n of
      Some node \<Rightarrow> node\<lparr>nd_data := m, nd_option := Some opt\<rparr>
    | None \<Rightarrow> \<lparr>indegree = 0, topo = -1, nd_data = m, outdegree = 0, nd_option = Some opt, nd_from = []\<rparr>)"
  let ?g = "count_edges (AList.update ?n ?node g) (members decode m)"
  have "build_graph decode (m # ms') g = build_graph decode ms' ?g"
    using d new by (auto simp: n assms(2) graph_node_of_def split: option.split)
  moreover have "map_of ?g k = graph_node_of decode (ms @ [m]) k" for k
    using new d by (auto simp: map_of_count_edges AList.update_conv' assms(2) graph_node_of_def
        group_of_snoc listed_times_snoc split: option.split)
  moreover have "distinct (map fst ?g)" by (intro distinct_count_edges AList.distinct_update assms)
  ultimately show ?thesis by blast
qed

lemma build_graph_spec:
  assumes "well_formed_groups decode (ms @ ms')" and "\<And>n. map_of g n = graph_node_of decode ms n"
    and "distinct (map fst g)"
  shows "\<exists>g'. build_graph decode ms' g = Inr g' \<and> (\<forall>n. map_of g' n = graph_node_of decode (ms @ ms') n)
     \<and> distinct (map fst g')"
  using assms
proof (induction ms' arbitrary: ms g)
  case (Cons m ms')
  from build_graph_step[OF Cons.prems] obtain g' where
    g': "build_graph decode (m # ms') g = build_graph decode ms' g'"
      "\<And>n. map_of g' n = graph_node_of decode (ms @ [m]) n" "distinct (map fst g')" by blast
  from Cons.IH[of "ms @ [m]" g'] Cons.prems(1) g' show ?case by simp
qed auto

definition opt_members :: "'d graph_node \<Rightarrow> string list" where
  "opt_members node = (case nd_option node of None \<Rightarrow> [] | Some opt \<Rightarrow> go_Proxies opt)"

lemma dec_in_simps [simp]:
  "indegree (dec_in node) = indegree node - 1" "opt_members (dec_in node) = opt_members node"
  "nd_data (dec_in node) = nd_data node" "nd_option (dec_in node) = nd_option node"
  "nd_from (dec_in node) = nd_from node" "outdegree (dec_in node) = outdegree node"
  by (simp_all add: dec_in_def opt_members_def)

lemma dec_out_simps [simp]:
  "outdegree (dec_out node) = outdegree node - 1" "nd_from (dec_out node) = nd_from node"
  "nd_option (dec_out node) = nd_option node"
  by (simp_all add: dec_out_def)

text \<open>What the groups list: the names of a node's members, and the edges of the graph.\<close>

definition members_of ::
  "('d option \<Rightarrow> group_option \<times> string option) \<Rightarrow> 'd option list \<Rightarrow> string \<Rightarrow> string list"
where
  "members_of decode ms n = (case group_of decode ms n of None \<Rightarrow> [] | Some m \<Rightarrow> members decode m)"

definition lists ::
  "('d option \<Rightarrow> group_option \<times> string option) \<Rightarrow> 'd option list \<Rightarrow> (string \<times> string) set"
where
  "lists decode ms = {(group_name decode m, p) |m p. m \<in> set ms \<and> p \<in> set (members decode m)}"

lemma group_of_member:
  "well_formed_groups decode ms \<Longrightarrow> m \<in> set ms \<Longrightarrow> group_of decode ms (group_name decode m) = Some m"
  by (auto simp: well_formed_groups_def group_of_def map_of_eq_Some_iff comp_def)

lemma lists_iff:
  assumes "well_formed_groups decode ms"
  shows "(n, p) \<in> lists decode ms \<longleftrightarrow> p \<in> set (members_of decode ms n)"
proof
  assume "(n, p) \<in> lists decode ms"
  then obtain m where "m \<in> set ms" "n = group_name decode m" "p \<in> set (members decode m)"
    by (auto simp: lists_def)
  then show "p \<in> set (members_of decode ms n)" by (simp add: members_of_def group_of_member[OF assms])
next
  assume "p \<in> set (members_of decode ms n)"
  then obtain m where m: "group_of decode ms n = Some m" "p \<in> set (members decode m)"
    by (cases "group_of decode ms n") (auto simp: members_of_def)
  then have "m \<in> set ms" "n = group_name decode m" by (auto simp: group_of_def dest: map_of_SomeD)
  with m show "(n, p) \<in> lists decode ms" by (auto simp: lists_def)
qed

lemma listed_times_sum:
  assumes "well_formed_groups decode ms" and "finite A" and "group_name decode ` set ms \<subseteq> A"
  shows "(\<Sum>n\<in>A. count_list (members_of decode ms n) p) = listed_times decode ms p"
proof -
  have d: "distinct ms" "inj_on (group_name decode) (set ms)"
    using assms(1) by (auto simp: well_formed_groups_def distinct_map)
  have "count_list (members_of decode ms n) p = 0" if "n \<notin> group_name decode ` set ms" for n
    using that by (simp add: members_of_def group_of_None[THEN iffD2])
  then have "(\<Sum>n\<in>A. count_list (members_of decode ms n) p) =
        (\<Sum>n\<in>group_name decode ` set ms. count_list (members_of decode ms n) p)"
    using assms(2,3) by (intro sum.mono_neutral_right) auto
  also have "\<dots> = (\<Sum>m\<in>set ms. count_list (members decode m) p)"
    using group_of_member[OF assms(1)] by (simp add: sum.reindex[OF d(2)] members_of_def cong: sum.cong)
  also have "\<dots> = listed_times decode ms p"
    by (simp add: listed_times_def sum_list_distinct_conv_sum_set[OF d(1)])
  finally show ?thesis .
qed

section \<open>The topological sort\<close>

lemma topo_loop_Cons:
  "topo_loop index g (x # queue) arr =
     (case map_of g x of
        None \<Rightarrow> None
      | Some node \<Rightarrow>
          (case decrement dec_in indegree g queue (opt_members node) of
             None \<Rightarrow> None
           | Some (g', queue') \<Rightarrow>
               (case nd_option node of
                  None \<Rightarrow> topo_loop index (AList.delete x g') queue' arr
                | Some opt \<Rightarrow> topo_loop (index + 1) (AList.delete x g') queue'
                    (arr[length arr - (index + 1) := nd_data node]))))"
  by (auto simp: opt_members_def split: option.split)

definition groups_in :: "'d graph \<Rightarrow> string set" where
  "groups_in g = {n. \<exists>node. map_of g n = Some node \<and> nd_option node \<noteq> None}"

definition data_in :: "'d graph \<Rightarrow> string \<Rightarrow> 'd option" where
  "data_in g n = Option.bind (map_of g n) nd_data"

lemma finite_groups_in: "finite (groups_in g)"
  by (rule finite_subset[OF _ finite_dom_map_of[of g]]) (auto simp: groups_in_def)

text \<open>
  \<open>peeled g g' xs\<close>: the nodes left in \<open>g'\<close> are as they were in \<open>g\<close> up to their counters, \<open>xs\<close> are the groups
  that left, and nothing still there when a group leaves, itself included, lists it.
\<close>

definition core :: "'d graph_node \<Rightarrow> group_option option \<times> 'd option \<times> string list \<times> int" where
  "core node = (nd_option node, nd_data node, nd_from node, outdegree node)"

definition same_but_counters :: "'d graph \<Rightarrow> 'd graph \<Rightarrow> bool" where
  "same_but_counters g g' \<longleftrightarrow>
     (\<forall>n node'. map_of g' n = Some node' \<longrightarrow> (\<exists>node. map_of g n = Some node \<and> core node = core node'))"

definition peeled :: "'d graph \<Rightarrow> 'd graph \<Rightarrow> string list \<Rightarrow> bool" where
  "peeled g g' xs \<longleftrightarrow> same_but_counters g g' \<and> distinct xs \<and> set xs = groups_in g - dom (map_of g')
     \<and> (\<forall>as x bs. xs = as @ x # bs \<longrightarrow>
          (\<forall>m \<in> set (x # bs) \<union> dom (map_of g'). x \<notin> set (nbs opt_members g m)))"

lemma same_but_counters_refl: "same_but_counters g g"
  by (simp add: same_but_counters_def)

lemma same_but_countersD:
  assumes "same_but_counters g g'" and "map_of g' n = Some node'"
  obtains node where "map_of g n = Some node" "nd_option node' = nd_option node"
    "nd_data node' = nd_data node" "nd_from node' = nd_from node" "outdegree node' = outdegree node"
  using assms unfolding same_but_counters_def core_def by (metis prod.inject)

lemma same_but_counters_trans:
  assumes "same_but_counters g g'" and "same_but_counters g' g''" shows "same_but_counters g g''"
  unfolding same_but_counters_def
proof (intro allI impI)
  fix n node'' assume "map_of g'' n = Some node''"
  then obtain node' where 1: "map_of g' n = Some node'" "core node' = core node''"
    using assms(2) unfolding same_but_counters_def by blast
  then obtain node where "map_of g n = Some node" "core node = core node'"
    using assms(1) unfolding same_but_counters_def by blast
  with 1 show "\<exists>node. map_of g n = Some node \<and> core node = core node''" by auto
qed

lemma same_but_counters_dom: "same_but_counters g g' \<Longrightarrow> dom (map_of g') \<subseteq> dom (map_of g)"
  unfolding same_but_counters_def by blast

lemma same_but_counters_nbs:
  assumes "same_but_counters g g'" and "m \<in> dom (map_of g')"
  shows "nbs opt_members g' m = nbs opt_members g m"
proof -
  from assms(2) obtain node' where "map_of g' m = Some node'" by auto
  then show ?thesis by (rule same_but_countersD[OF assms(1)]) (simp add: nbs_def opt_members_def \<open>map_of g' m = Some node'\<close>)
qed

lemma same_but_counters_data:
  assumes "same_but_counters g g'" and "m \<in> dom (map_of g')" shows "data_in g' m = data_in g m"
proof -
  from assms(2) obtain node' where "map_of g' m = Some node'" by auto
  then show ?thesis by (rule same_but_countersD[OF assms(1)]) (simp add: data_in_def \<open>map_of g' m = Some node'\<close>)
qed

lemma same_but_counters_groups:
  assumes "same_but_counters g g'" shows "groups_in g' = groups_in g \<inter> dom (map_of g')"
proof -
  have "n \<in> groups_in g' \<longleftrightarrow> n \<in> groups_in g" if "n \<in> dom (map_of g')" for n
  proof -
    from that obtain node' where n: "map_of g' n = Some node'" by auto
    then show ?thesis by (rule same_but_countersD[OF assms]) (simp add: groups_in_def n)
  qed
  moreover have "groups_in g' \<subseteq> dom (map_of g')" by (auto simp: groups_in_def)
  ultimately show ?thesis by blast
qed

lemma core_dec_in: "core ((dec_in ^^ k) node) = core node"
  by (rule funpow_keeps) (simp add: core_def)

lemma decrement_same:
  assumes "\<And>n. map_of g' n = map_option (dec_in ^^ k n) (map_of g n)"
  shows "same_but_counters g (AList.delete x g')"
  unfolding same_but_counters_def
  using assms by (auto simp: AList.delete_conv' core_dec_in)

lemma peeled_step:
  assumes same: "same_but_counters g h" and dom: "dom (map_of h) = dom (map_of g) - {x}"
    and x: "x \<in> dom (map_of g)" and none: "\<And>m. x \<notin> set (nbs opt_members g m)"
    and rest: "peeled h g' xs"
  shows "peeled g g' (if x \<in> groups_in g then x # xs else xs)"
proof -
  have sub: "dom (map_of g') \<subseteq> dom (map_of h)"
    using rest by (intro same_but_counters_dom) (simp add: peeled_def)
  have g: "groups_in h = groups_in g - {x}"
    using same_but_counters_groups[OF same] dom by (auto simp: groups_in_def)
  have xs: "set xs \<subseteq> dom (map_of h)" using rest by (auto simp: peeled_def groups_in_def)
  have nb: "nbs opt_members h m = nbs opt_members g m" if "m \<in> set xs \<union> dom (map_of g')" for m
    using that xs sub same_but_counters_nbs[OF same] by blast
  have "same_but_counters g g'" using same rest same_but_counters_trans by (auto simp: peeled_def)
  moreover have "(\<forall>m \<in> set (y # bs) \<union> dom (map_of g'). y \<notin> set (nbs opt_members g m))"
    if "xs = as @ y # bs" for as y bs
    using rest that nb unfolding peeled_def by auto
  moreover have "x \<notin> dom (map_of g')" using sub dom by auto
  moreover have "distinct xs" "set xs = groups_in h - dom (map_of g')" using rest by (auto simp: peeled_def)
  ultimately show ?thesis
    unfolding peeled_def using none g by (auto simp: Cons_eq_append_conv) (use domI in fast)+
qed

lemma topo_loop_spec:
  assumes "peel_inv indegree opt_members g queue"
    and "index + card (groups_in g) \<le> length arr"
  shows "\<exists>xs g'. topo_loop index g queue arr =
       Some (g', take (length arr - index - length xs) arr @ rev (map (data_in g) xs)
                 @ drop (length arr - index) arr)
     \<and> peel_inv indegree opt_members g' [] \<and> peeled g g' xs"
  using assms
proof (induction "length g" arbitrary: g queue index arr rule: less_induct)
  case less
  show ?case
  proof (cases queue)
    case Nil
    then show ?thesis
      using less.prems by (intro exI[of _ "[]"] exI[of _ g])
        (auto simp: peeled_def same_but_counters_refl groups_in_def)
  next
    case (Cons x q)
    from peel_step[OF less.prems(1)[unfolded Cons], of dec_in] obtain node g1 q1 where
      x: "map_of g x = Some node" and d: "decrement dec_in indegree g q (opt_members node) = Some (g1, q1)"
      and m: "\<And>n. map_of g1 n = map_option (dec_in ^^ count_list (opt_members node) n) (map_of g n)"
      and inv: "peel_inv indegree opt_members (AList.delete x g1) q1" by auto
    let ?h = "AList.delete x g1"
    have same: "same_but_counters g ?h" by (rule decrement_same) (rule m)
    have dom: "dom (map_of ?h) = dom (map_of g) - {x}"
      by (auto simp: AList.delete_conv' m dom_def)
    have smaller: "length ?h < length g"
      using decrement_length[OF d] delete_length[of g1 x] x m[of x] by auto
    have none: "x \<notin> set (nbs opt_members g k)" for k
      using less.prems(1) Cons by (intro peel_inv_unreached) auto
    let ?g = "x \<in> groups_in g"
    let ?index = "if ?g then index + 1 else index"
    let ?arr = "if ?g then arr[length arr - (index + 1) := nd_data node] else arr"
    have "groups_in g \<subseteq> dom (map_of g)" by (auto simp: groups_in_def)
    then have "groups_in ?h = groups_in g - {x}"
      using same_but_counters_groups[OF same] dom by blast
    moreover have "?g \<Longrightarrow> card (groups_in g) = Suc (card (groups_in g - {x}))"
      by (rule card.remove[OF finite_groups_in])
    ultimately have card: "?index + card (groups_in ?h) \<le> length ?arr"
      using less.prems(2) by (cases ?g) (simp_all only: if_True if_False length_list_update, simp_all)
    from less.hyps[OF smaller inv card] obtain xs g' where
      t: "topo_loop ?index ?h q1 ?arr = Some (g', take (length ?arr - ?index - length xs) ?arr
            @ rev (map (data_in ?h) xs) @ drop (length ?arr - ?index) ?arr)"
      and r: "peel_inv indegree opt_members g' []" "peeled ?h g' xs" by blast
    have "set xs \<subseteq> dom (map_of ?h)" using r(2) by (auto simp: peeled_def groups_in_def)
    then have data: "map (data_in ?h) xs = map (data_in g) xs"
      using same_but_counters_data[OF same] by (auto intro: map_cong)
    have p: "peeled g g' (if ?g then x # xs else xs)"
      by (rule peeled_step[OF same dom _ none r(2)]) (simp add: x domI)
    have opt: "nd_option node \<noteq> None \<longleftrightarrow> ?g" "nd_data node = data_in g x"
      using x by (auto simp: groups_in_def data_in_def)
    have topo: "topo_loop index g queue arr = topo_loop ?index ?h q1 ?arr"
      using x d opt by (cases "nd_option node") (simp_all add: Cons topo_loop_Cons del: topo_loop.simps)
    show ?thesis
    proof (cases ?g)
      case True
      then have "index + 1 \<le> length arr" using card by simp
      then have "drop (length arr - (index + 1)) (arr[length arr - (index + 1) := data_in g x])
          = data_in g x # drop (length arr - index) arr"
        by (subst drop_eq_Cons_nth) (auto simp: Suc_diff_Suc)
      then have "topo_loop index g queue arr = Some (g', take (length arr - index - length (x # xs)) arr
            @ rev (map (data_in g) (x # xs)) @ drop (length arr - index) arr)"
        unfolding topo t data using True opt(2) by simp
      moreover have "peeled g g' (x # xs)" using p True by simp
      ultimately show ?thesis using r(1) by blast
    next
      case False
      then have "topo_loop index g queue arr = Some (g', take (length arr - index - length xs) arr
            @ rev (map (data_in g) xs) @ drop (length arr - index) arr)"
        unfolding topo t data by simp
      moreover have "peeled g g' xs" using p False by simp
      ultimately show ?thesis using r(1) by blast
    qed
  qed
qed

end
