(* ===== verification/DagProps.thy ===== *)
theory DagProps imports DagPeel begin

text \<open>
  What \<open>proxyGroupsDagSort\<close> guarantees: groups without circles come out in dependency order, and otherwise
  the error names the groups on circles and on ways between them, and nothing that merely hangs on them.
\<close>

section \<open>The loops\<close>

lemma link_children_spec:
  assumes "name \<in> dom (map_of g)" and "set ps \<subseteq> dom (map_of g)"
  shows "\<exists>g'. link_children name g ps = Some g' \<and> map fst g' = map fst g \<and> (\<forall>n. map_of g' n =
     map_option (\<lambda>node. node\<lparr>outdegree := outdegree node + (if n = name then int (length ps) else 0),
       nd_from := nd_from node @ replicate (count_list ps n) name\<rparr>) (map_of g n))"
  using assms
proof (induction ps arbitrary: g)
  case Nil
  then show ?case by (auto simp: option.map_ident_strong)
next
  case (Cons p ps)
  obtain node where n: "map_of g name = Some node" using Cons.prems(1) by auto
  let ?g1 = "AList.update name (node\<lparr>outdegree := outdegree node + 1\<rparr>) g"
  obtain child where c: "map_of ?g1 p = Some child"
    using Cons.prems(2) by (cases "p = name") (auto simp: AList.update_conv')
  let ?g2 = "AList.update p (child\<lparr>nd_from := nd_from child @ [name]\<rparr>) ?g1"
  have keys: "map fst (AList.update k v al) = map fst al" if "k \<in> dom (map_of al)" for k v and al :: "'a graph"
    using that by (auto simp: AList.update_keys dom_map_of_conv_image_fst)
  have "map fst ?g2 = map fst g" using c n by (simp add: keys domI)
  moreover have "set ps \<subseteq> dom (map_of ?g2)" "name \<in> dom (map_of ?g2)"
    using Cons.prems by (auto simp: AList.update_conv')
  from Cons.IH[OF this(2,1)] obtain g' where "link_children name ?g2 ps = Some g'" "map fst g' = map fst ?g2"
    "\<And>k. map_of g' k = map_option (\<lambda>node. node\<lparr>outdegree := outdegree node + (if k = name then int (length ps) else 0),
       nd_from := nd_from node @ replicate (count_list ps k) name\<rparr>) (map_of ?g2 k)" by blast
  ultimately show ?case
    using n c by (auto simp: Let_def AList.update_conv' replicate_append_same split: if_splits)
qed

definition linked :: "(string \<Rightarrow> string list) \<Rightarrow> string list \<Rightarrow> string \<Rightarrow> 'd graph_node \<Rightarrow> 'd graph_node" where
  "linked mem names n node = node\<lparr>outdegree := outdegree node + (if n \<in> set names then int (length (mem n)) else 0),
     nd_from := nd_from node @ concat (map (\<lambda>m. replicate (count_list (mem m) n) m) names)\<rparr>"

lemma link_graph_spec:
  assumes "distinct names" and "set names \<subseteq> dom (map_of g)"
    and "\<And>n. n \<in> set names \<Longrightarrow> set (mem n) \<subseteq> dom (map_of g)"
    and "\<And>n. n \<in> set names \<Longrightarrow> nbs opt_members g n = mem n"
  shows "\<exists>g'. link_graph g names = Some g' \<and> map fst g' = map fst g
     \<and> (\<forall>n. map_of g' n = map_option (linked mem names n) (map_of g n))"
  using assms
proof (induction names arbitrary: g)
  case Nil
  then show ?case by (auto simp: linked_def option.map_ident_strong)
next
  case (Cons name names)
  obtain node where n: "map_of g name = Some node" "opt_members node = mem name"
    using Cons.prems(2) Cons.prems(4)[of name] by (auto simp: nbs_def)
  have "set (mem name) \<subseteq> dom (map_of g)" "name \<in> dom (map_of g)" using Cons.prems(3) n by auto
  from link_children_spec[OF this(2,1)] obtain g1 where
    g1: "link_children name g (mem name) = Some g1" "map fst g1 = map fst g"
      "\<And>k. map_of g1 k = map_option (\<lambda>node. node\<lparr>outdegree := outdegree node
         + (if k = name then int (length (mem name)) else 0),
       nd_from := nd_from node @ replicate (count_list (mem name) k) name\<rparr>) (map_of g k)" by blast
  have step: "link_graph g (name # names) = link_graph g1 names"
  proof -
    have "mem name = [] \<Longrightarrow> g1 = g" using g1(1) by simp
    then show ?thesis using n g1(1) by (auto simp: opt_members_def split: option.splits)
  qed
  have dom: "dom (map_of g1) = dom (map_of g)" using g1(2) by (metis dom_map_of_conv_image_fst list.set_map)
  have nb: "nbs opt_members g1 k = nbs opt_members g k" for k
    by (auto simp: nbs_def g1(3) opt_members_def split: option.split)
  have "\<exists>g'. link_graph g1 names = Some g' \<and> map fst g' = map fst g1
     \<and> (\<forall>n. map_of g' n = map_option (linked mem names n) (map_of g1 n))"
    using Cons.prems by (intro Cons.IH) (auto simp: dom nb)
  then obtain g' where g': "link_graph g1 names = Some g'" "map fst g' = map fst g1"
    "\<And>n. map_of g' n = map_option (linked mem names n) (map_of g1 n)" by blast
  have "map_of g' k = map_option (linked mem (name # names) k) (map_of g k)" for k
    using Cons.prems(1) by (cases "map_of g k") (simp_all add: g'(3) g1(3) linked_def)
  then show ?case using g'(1,2) g1(2) step by auto
qed

text \<open>
  What the second loop leaves: nodes with edges among themselves only, and every set of nodes
  each of which has an edge into the set.
\<close>

lemma strip_loop_spec:
  assumes "peel_inv outdegree nd_from g queue"
  shows "\<exists>g'. strip_loop g queue = Some g' \<and> peel_inv outdegree nd_from g' []
     \<and> (\<forall>n. n \<in> dom (map_of g') \<longrightarrow> n \<in> dom (map_of g) \<and> nbs nd_from g' n = nbs nd_from g n)
     \<and> (\<forall>C. C \<subseteq> dom (map_of g) \<and> (\<forall>c\<in>C. \<exists>d\<in>C. c \<in> set (nbs nd_from g d)) \<longrightarrow> C \<subseteq> dom (map_of g'))
     \<and> (distinct (map fst g) \<longrightarrow> distinct (map fst g'))"
  using assms
proof (induction "length g" arbitrary: g queue rule: less_induct)
  case less
  show ?case
  proof (cases queue)
    case Nil
    with less.prems show ?thesis by auto
  next
    case (Cons x q)
    from peel_step[OF less.prems[unfolded Cons], of dec_out] obtain node g1 q1 where
      x: "map_of g x = Some node" and d: "decrement dec_out outdegree g q (nd_from node) = Some (g1, q1)"
      and m: "\<And>n. map_of g1 n = map_option (dec_out ^^ count_list (nd_from node) n) (map_of g n)"
      and inv: "peel_inv outdegree nd_from (AList.delete x g1) q1" by auto
    let ?h = "AList.delete x g1"
    have dom: "dom (map_of ?h) = dom (map_of g) - {x}" by (auto simp: AList.delete_conv' m dom_def)
    have smaller: "length ?h < length g"
      using decrement_length[OF d] delete_length[of g1 x] x m[of x] by auto
    have none: "x \<notin> set (nbs nd_from g k)" for k
      using less.prems Cons by (intro peel_inv_unreached) auto
    have nb: "nbs nd_from ?h k = nbs nd_from g k" if "k \<noteq> x" for k
      using that by (auto simp: nbs_def AList.delete_conv' m funpow_keeps[of nd_from dec_out] split: option.split)
    from less.hyps[OF smaller inv] obtain g' where
      g': "strip_loop ?h q1 = Some g'" "peel_inv outdegree nd_from g' []"
      "\<And>n. n \<in> dom (map_of g') \<Longrightarrow> n \<in> dom (map_of ?h) \<and> nbs nd_from g' n = nbs nd_from ?h n"
      "\<And>C. C \<subseteq> dom (map_of ?h) \<and> (\<forall>c\<in>C. \<exists>d\<in>C. c \<in> set (nbs nd_from ?h d)) \<Longrightarrow> C \<subseteq> dom (map_of g')"
      "distinct (map fst ?h) \<Longrightarrow> distinct (map fst g')" by blast
    have "C \<subseteq> dom (map_of g')" if C: "C \<subseteq> dom (map_of g)" "\<forall>c\<in>C. \<exists>d\<in>C. c \<in> set (nbs nd_from g d)" for C
    proof (rule g'(4))
      have "x \<notin> C" using C(2) none by blast
      then show "C \<subseteq> dom (map_of ?h) \<and> (\<forall>c\<in>C. \<exists>d\<in>C. c \<in> set (nbs nd_from ?h d))"
        using C nb dom by (metis Diff_empty subset_Diff_insert)
    qed
    moreover have "distinct (map fst g) \<Longrightarrow> distinct (map fst ?h)"
      using decrement_keys[OF d] by (simp add: AList.distinct_delete)
    ultimately show ?thesis
      using x d g' dom nb by (intro exI[of _ g']) (auto simp: Cons)
  qed
qed

text \<open>Edges and their reverse count the same.\<close>

lemma count_list_replicate: "count_list (replicate k a) n = (if a = n then k else 0)"
  by (induction k) auto

lemma count_concat_replicate:
  "distinct names \<Longrightarrow> count_list (concat (map (\<lambda>m. replicate (c m) m) names)) n = (if n \<in> set names then c n else 0)"
  by (induction names) (auto simp: count_list_append count_list_replicate)

lemma sum_count_list: "finite A \<Longrightarrow> set xs \<subseteq> A \<Longrightarrow> (\<Sum>a\<in>A. count_list xs a) = length xs"
  by (rule sum_count_set) auto

lemma linked_peel_inv:
  assumes names: "distinct names" "set names = dom (map_of g)" and keys: "distinct (map fst g)"
    and g': "\<And>n. map_of g' n = map_option (linked mem names n) (map_of g n)"
    and zero: "\<And>n node. map_of g n = Some node \<Longrightarrow> outdegree node = 0 \<and> nd_from node = []"
    and mem: "\<And>n. n \<in> dom (map_of g) \<Longrightarrow> set (mem n) \<subseteq> dom (map_of g)"
    and q: "distinct q" "set q = {n. \<exists>node. map_of g' n = Some node \<and> outdegree node = 0}"
  shows "peel_inv outdegree nd_from g' q"
    and "\<And>n p. n \<in> dom (map_of g) \<Longrightarrow> p \<in> set (nbs nd_from g' n) \<longleftrightarrow> p \<in> dom (map_of g) \<and> n \<in> set (mem p)"
proof -
  have dom: "dom (map_of g') = dom (map_of g)" by (auto simp: g' dom_def)
  have from': "nbs nd_from g' n = concat (map (\<lambda>m. replicate (count_list (mem m) n) m) names)"
    if "n \<in> dom (map_of g)" for n
    using that zero by (auto simp: nbs_def g' linked_def)
  then show *: "p \<in> set (nbs nd_from g' n) \<longleftrightarrow> p \<in> dom (map_of g) \<and> n \<in> set (mem p)"
    if "n \<in> dom (map_of g)" for n p
    using that names(2) by (auto simp: count_list_0_iff)
  have out: "edges_to nd_from g' n = length (mem n)" if n: "n \<in> dom (map_of g)" for n
  proof -
    have "edges_to nd_from g' n = (\<Sum>m\<in>dom (map_of g). count_list (mem n) m)"
      unfolding edges_to_def dom using n names
      by (intro sum.cong) (auto simp: from' count_concat_replicate)
    then show ?thesis using mem[OF n] by (simp add: sum_count_list finite_dom_map_of)
  qed
  show "peel_inv outdegree nd_from g' q"
    unfolding peel_inv_def dom
  proof (intro conjI allI impI q)
    fix n node assume n: "map_of g' n = Some node"
    then have nd: "n \<in> dom (map_of g)" using dom by blast
    show "outdegree node = int (edges_to nd_from g' n)"
      using n nd names(2) zero by (auto simp: out[OF nd] g' linked_def)
    show "set (nd_from node) \<subseteq> dom (map_of g)"
      using *[OF nd] n by (auto simp: nbs_def)
  qed
qed

section \<open>The result\<close>

lemma build_ok:
  assumes "well_formed_groups decode ms"
  shows "\<exists>g. build_graph decode ms [] = Inr g \<and> (\<forall>n. map_of g n = graph_node_of decode ms n)
    \<and> distinct (map fst g)"
  using build_graph_spec[of decode "[]" ms "[]"] assms
  by (simp add: graph_node_of_def group_of_def listed_times_def)

lemma graph_nbs:
  assumes "\<And>n. map_of g n = graph_node_of decode ms n"
  shows "nbs opt_members g n = members_of decode ms n"
  by (auto simp: nbs_def assms graph_node_of_def opt_members_def members_of_def members_def split: option.split)

lemma listed_times_pos: "0 < listed_times decode ms n \<longleftrightarrow> (\<exists>m. (m, n) \<in> lists decode ms)"
  by (auto simp: listed_times_def lists_def zero_less_iff_neq_zero count_list_0_iff)

lemma graph_dom:
  assumes "\<And>n. map_of g n = graph_node_of decode ms n"
  shows "dom (map_of g) = group_name decode ` set ms \<union> snd ` lists decode ms"
proof -
  have "n \<in> dom (map_of g) \<longleftrightarrow> n \<in> group_name decode ` set ms \<or> (\<exists>m. (m, n) \<in> lists decode ms)" for n
    unfolding listed_times_pos[symmetric]
    by (auto simp: domIff assms graph_node_of_def group_of_None)
  then show ?thesis by force
qed

lemma graph_groups:
  assumes "\<And>n. map_of g n = graph_node_of decode ms n"
  shows "groups_in g = group_name decode ` set ms"
proof -
  have "n \<in> groups_in g \<longleftrightarrow> group_of decode ms n \<noteq> None" for n
    by (cases "group_of decode ms n") (simp_all add: groups_in_def assms graph_node_of_def)
  then show ?thesis by (auto simp: group_of_None)
qed

lemma mset_set_eq: "mset xs = mset ys \<Longrightarrow> set xs = set ys"
  by (metis set_mset_mset)

lemma zero_nodes_spec:
  assumes "mset names = mset (map fst g)" and "distinct (map fst g)"
  shows "distinct (zero_nodes deg g names)"
    "set (zero_nodes deg g names) = {n. \<exists>node. map_of g n = Some node \<and> deg node = 0}"
proof -
  have s: "set names = dom (map_of g)" using mset_set_eq[OF assms(1)] by (simp add: dom_map_of_conv_image_fst)
  have "distinct names" using assms mset_eq_imp_distinct_iff by blast
  then show "distinct (zero_nodes deg g names)" by (simp add: zero_nodes_def)
  show "set (zero_nodes deg g names) = {n. \<exists>node. map_of g n = Some node \<and> deg node = 0}"
    using s by (auto simp: zero_nodes_def split: option.splits)
qed

lemma graph_peel_inv:
  assumes wf: "well_formed_groups decode ms" and g: "\<And>n. map_of g n = graph_node_of decode ms n"
    and "distinct q" "set q = {n. \<exists>node. map_of g n = Some node \<and> indegree node = 0}"
  shows "peel_inv indegree opt_members g q"
proof -
  have sub: "group_name decode ` set ms \<subseteq> dom (map_of g)" "snd ` lists decode ms \<subseteq> dom (map_of g)"
    by (auto simp: graph_dom[OF g])
  have "edges_to opt_members g n = listed_times decode ms n" for n
    unfolding edges_to_def graph_nbs[OF g]
    by (rule listed_times_sum[OF wf finite_dom_map_of sub(1)])
  moreover have "set (opt_members node) \<subseteq> dom (map_of g)" if "map_of g n = Some node" for n node
  proof -
    have "opt_members node = members_of decode ms n" using that graph_nbs[OF g, of n] by (simp add: nbs_def)
    then show ?thesis using sub(2) lists_iff[OF wf, of n] by force
  qed
  ultimately show ?thesis
    using assms(3,4) by (auto simp: peel_inv_def g graph_node_of_def split: if_splits)
qed

text \<open>
  The state after the topological sort: every node left is listed by a node left, every group
  on a circle is left, and the groups that left are in dependency order from the end.
\<close>

lemma sort_phase:
  assumes wf: "well_formed_groups decode ms" and g: "\<And>n. map_of g n = graph_node_of decode ms n"
    and d: "distinct (map fst g)" and ord: "mset names = mset (map fst g)"
  shows "\<exists>xs g1. topo_loop 0 g (zero_nodes indegree g names) ms =
       Some (g1, take (length ms - length xs) ms @ rev (map (data_in g) xs))
     \<and> peel_inv indegree opt_members g1 [] \<and> peeled g g1 xs"
proof -
  note z = zero_nodes_spec[OF ord d, of indegree]
  have "card (groups_in g) = length ms"
    using wf distinct_card[of "map (group_name decode) ms"]
    by (simp add: graph_groups[OF g] well_formed_groups_def)
  then show ?thesis
    using topo_loop_spec[OF graph_peel_inv[OF wf g z], of 0 ms] by simp
qed

text \<open>A finite set in which every element has a predecessor contains a circle.\<close>

lemma pred_closed_circle:
  assumes "finite r" and "S \<noteq> {}" and "\<And>x. x \<in> S \<Longrightarrow> \<exists>z\<in>S. (z, x) \<in> r"
  shows "\<not> acyclic r"
proof
  assume "acyclic r"
  then have "wf r" using assms(1) by (rule finite_acyclic_wf[rotated])
  then obtain x where "x \<in> S" "\<And>z. (z, x) \<in> r \<Longrightarrow> z \<notin> S" using assms(2) by (metis wf_eq_minimal all_not_in_conv)
  with assms(3) show False by blast
qed

lemma circle_behind:
  assumes fin: "finite r" and S: "\<And>x. x \<in> S \<Longrightarrow> \<exists>z\<in>S. (z, x) \<in> r" and x: "x \<in> S"
  shows "\<exists>c. (c, c) \<in> r\<^sup>+ \<and> (c, x) \<in> r\<^sup>*"
proof -
  define T where "T = {y \<in> S. (y, x) \<in> r\<^sup>*}"
  have "\<exists>z\<in>T. (z, y) \<in> r \<inter> T \<times> T" if "y \<in> T" for y
    using S[of y] that by (auto simp: T_def intro: converse_rtrancl_into_rtrancl)
  moreover have "T \<noteq> {}" using x by (auto simp: T_def)
  ultimately have "\<not> acyclic (r \<inter> T \<times> T)" using pred_closed_circle[of "r \<inter> T \<times> T" T] fin by blast
  then obtain c where c: "(c, c) \<in> (r \<inter> T \<times> T)\<^sup>+" by (auto simp: acyclic_def)
  from tranclD[OF c] have "c \<in> T" by blast
  moreover have "(c, c) \<in> r\<^sup>+" using c by (rule trancl_mono) blast
  ultimately show ?thesis by (auto simp: T_def)
qed

lemma circle_ahead:
  assumes "finite r" and "\<And>x. x \<in> S \<Longrightarrow> \<exists>z\<in>S. (x, z) \<in> r" and "x \<in> S"
  shows "\<exists>c. (c, c) \<in> r\<^sup>+ \<and> (x, c) \<in> r\<^sup>*"
proof -
  have "\<exists>c. (c, c) \<in> (r\<inverse>)\<^sup>+ \<and> (c, x) \<in> (r\<inverse>)\<^sup>*"
    by (rule circle_behind[of _ S]) (use assms in simp_all)
  then show ?thesis by (simp add: trancl_converse rtrancl_converse)
qed

lemma lists_UN:
  "lists decode ms = (\<Union>m\<in>set ms. (\<lambda>p. (group_name decode m, p)) ` set (members decode m))"
  by (auto simp: lists_def)

lemma finite_lists: "finite (lists decode ms)"
  by (simp add: lists_UN)

text \<open>The groups on circles have predecessors on circles, so none of them leaves the graph.\<close>

definition on_circle :: "('d option \<Rightarrow> group_option \<times> string option) \<Rightarrow> 'd option list \<Rightarrow> string set" where
  "on_circle decode ms = {x. (x, x) \<in> (lists decode ms)\<^sup>+}"

lemma on_circle_next:
  assumes "x \<in> on_circle decode ms"
  shows "\<exists>y\<in>on_circle decode ms. (x, y) \<in> lists decode ms"
    and "\<exists>z\<in>on_circle decode ms. (z, x) \<in> lists decode ms"
proof -
  have x: "(x, x) \<in> (lists decode ms)\<^sup>+" using assms by (simp add: on_circle_def)
  from tranclD[OF x] obtain y where "(x, y) \<in> lists decode ms" "(y, x) \<in> (lists decode ms)\<^sup>*" by blast
  then show "\<exists>y\<in>on_circle decode ms. (x, y) \<in> lists decode ms"
    by (auto simp: on_circle_def intro: rtrancl_into_trancl1)
  from tranclD2[OF x] obtain z where "(x, z) \<in> (lists decode ms)\<^sup>*" "(z, x) \<in> lists decode ms" by blast
  then show "\<exists>z\<in>on_circle decode ms. (z, x) \<in> lists decode ms"
    by (auto simp: on_circle_def intro: rtrancl_into_trancl2)
qed

text \<open>What lies on a circle or on a way from one circle to another.\<close>

definition between_circles :: "('d option \<Rightarrow> group_option \<times> string option) \<Rightarrow> 'd option list \<Rightarrow> string set" where
  "between_circles decode ms =
     {x. (\<exists>c\<in>on_circle decode ms. (c, x) \<in> (lists decode ms)\<^sup>*) \<and> (\<exists>d\<in>on_circle decode ms. (x, d) \<in> (lists decode ms)\<^sup>*)}"

lemma circle_between: "x \<in> on_circle decode ms \<Longrightarrow> x \<in> between_circles decode ms"
  by (auto simp: between_circles_def)

lemma between_next:
  assumes "x \<in> between_circles decode ms"
  shows "\<exists>y\<in>between_circles decode ms. (x, y) \<in> lists decode ms"
    and "\<exists>z\<in>between_circles decode ms. (z, x) \<in> lists decode ms"
proof -
  obtain c d where c: "c \<in> on_circle decode ms" "(c, x) \<in> (lists decode ms)\<^sup>*"
    and d: "d \<in> on_circle decode ms" "(x, d) \<in> (lists decode ms)\<^sup>*" using assms by (auto simp: between_circles_def)
  show "\<exists>y\<in>between_circles decode ms. (x, y) \<in> lists decode ms"
  proof (cases "x = d")
    case True
    then show ?thesis using on_circle_next(1)[of x decode ms] d(1) circle_between by blast
  next
    case False
    then obtain y where "(x, y) \<in> lists decode ms" "(y, d) \<in> (lists decode ms)\<^sup>*" using d(2) by (metis converse_rtranclE)
    then show ?thesis using c d(1) unfolding between_circles_def by (blast intro: rtrancl_into_rtrancl)
  qed
  show "\<exists>z\<in>between_circles decode ms. (z, x) \<in> lists decode ms"
  proof (cases "x = c")
    case True
    then show ?thesis using on_circle_next(2)[of x decode ms] c(1) circle_between by blast
  next
    case False
    then obtain z where "(c, z) \<in> (lists decode ms)\<^sup>*" "(z, x) \<in> lists decode ms" using c(2) by (metis rtranclE)
    then show ?thesis using c(1) d unfolding between_circles_def by (blast intro: converse_rtrancl_into_rtrancl)
  qed
qed

lemma between_if_closed:
  assumes "\<And>x. x \<in> S \<Longrightarrow> (\<exists>y\<in>S. (x, y) \<in> lists decode ms) \<and> (\<exists>z\<in>S. (z, x) \<in> lists decode ms)"
  shows "S \<subseteq> between_circles decode ms"
proof
  fix x assume "x \<in> S"
  then show "x \<in> between_circles decode ms"
    using circle_behind[OF finite_lists, of S] circle_ahead[OF finite_lists, of S] assms
    unfolding between_circles_def on_circle_def by (metis (mono_tags, lifting) mem_Collect_eq)
qed

lemma lists_group: "(x, y) \<in> lists decode ms \<Longrightarrow> x \<in> group_name decode ` set ms"
  by (auto simp: lists_def)

lemma closed_stays:
  assumes wf: "well_formed_groups decode ms" and g: "\<And>n. map_of g n = graph_node_of decode ms n"
    and p: "peeled g g1 xs"
    and S: "\<And>x. x \<in> S \<Longrightarrow> (\<exists>y\<in>S. (x, y) \<in> lists decode ms) \<and> (\<exists>z\<in>S. (z, x) \<in> lists decode ms)"
  shows "S \<subseteq> dom (map_of g1)"
proof (rule ccontr)
  assume "\<not> ?thesis"
  then obtain c where c: "c \<in> S" "c \<notin> dom (map_of g1)" by blast
  have mem: "x \<in> set xs" if "x \<in> S" "x \<notin> dom (map_of g1)" for x
    using that S[OF that(1)] p
    by (auto simp: peeled_def graph_groups[OF g] dest: lists_group)
  have "\<exists>x\<in>set xs. x \<in> S" using c mem by blast
  from split_list_first_prop[OF this] obtain as x bs where
    xs: "xs = as @ x # bs" "x \<in> S" "\<forall>y\<in>set as. y \<notin> S" by blast
  from S[OF xs(2)] obtain z where z: "z \<in> S" "(z, x) \<in> lists decode ms" by blast
  then have "x \<in> set (nbs opt_members g z)" by (simp add: graph_nbs[OF g] lists_iff[OF wf])
  then have "z \<notin> set (x # bs) \<union> dom (map_of g1)" using p xs(1) unfolding peeled_def by blast
  moreover from this have "z \<in> set xs" using mem z(1) by blast
  ultimately show False using xs(1,3) z(1) by auto
qed

lemma between_stays:
  assumes "well_formed_groups decode ms" and "\<And>n. map_of g n = graph_node_of decode ms n" and "peeled g g1 xs"
  shows "between_circles decode ms \<subseteq> dom (map_of g1)"
  by (rule closed_stays[OF assms]) (use between_next in blast)

lemma left_has_pred:
  assumes wf: "well_formed_groups decode ms" and g: "\<And>n. map_of g n = graph_node_of decode ms n"
    and p: "peeled g g1 xs" and inv: "peel_inv indegree opt_members g1 []" and x: "x \<in> dom (map_of g1)"
  shows "\<exists>z\<in>dom (map_of g1). (z, x) \<in> lists decode ms"
proof -
  from x obtain node where n: "map_of g1 x = Some node" by auto
  then have "edges_to opt_members g1 x \<noteq> 0" using inv by (auto simp: peel_inv_def)
  then obtain z where z: "z \<in> dom (map_of g1)" "count_list (nbs opt_members g1 z) x \<noteq> 0"
    unfolding edges_to_def by (meson sum.neutral)
  have "nbs opt_members g1 z = nbs opt_members g z"
    using p z(1) by (intro same_but_counters_nbs) (auto simp: peeled_def)
  then have "x \<in> set (members_of decode ms z)" using z(2) by (simp add: count_list_0_iff graph_nbs[OF g])
  with z(1) lists_iff[OF wf] show ?thesis by blast
qed

lemma graph_left_iff:
  assumes wf: "well_formed_groups decode ms" and g: "\<And>n. map_of g n = graph_node_of decode ms n"
    and p: "peeled g g1 xs" and inv: "peel_inv indegree opt_members g1 []"
  shows "g1 = [] \<longleftrightarrow> acyclic (lists decode ms)"
proof
  assume "g1 = []"
  then have "on_circle decode ms = {}" using between_stays[OF wf g p] circle_between[of _ decode ms] by auto
  then show "acyclic (lists decode ms)" by (auto simp: acyclic_def on_circle_def)
next
  assume a: "acyclic (lists decode ms)"
  have "dom (map_of g1) = {}"
    using a pred_closed_circle[OF finite_lists, of "dom (map_of g1)"] left_has_pred[OF wf g p inv] by blast
  then show "g1 = []" by (metis dom_map_of_conv_image_fst image_is_empty set_empty)
qed

text \<open>The array of a complete sort.\<close>

lemma sorted_array:
  assumes wf: "well_formed_groups decode ms" and g: "\<And>n. map_of g n = graph_node_of decode ms n"
    and p: "peeled g [] xs"
  shows "mset (map (data_in g) xs) = mset ms \<and> length xs = length ms"
    and "xs = as @ x # bs \<Longrightarrow> m \<in> set (x # bs) \<Longrightarrow> x \<notin> set (members_of decode ms m)"
    and "\<And>x. x \<in> set xs \<Longrightarrow> group_of decode ms x = Some (data_in g x) \<and> group_name decode (data_in g x) = x"
proof -
  have xs: "distinct xs" "set xs = group_name decode ` set ms"
    using p graph_groups[OF g] by (auto simp: peeled_def)
  show data: "group_of decode ms x = Some (data_in g x) \<and> group_name decode (data_in g x) = x" if "x \<in> set xs" for x
  proof -
    from that xs(2) obtain m where m: "m \<in> set ms" "x = group_name decode m" by auto
    then show ?thesis using group_of_member[OF wf m(1)] by (auto simp: data_in_def g graph_node_of_def)
  qed
  then have "inj_on (data_in g) (set xs)" by (metis inj_onI)
  moreover have "data_in g ` set xs = set ms"
    using xs(2) data group_of_member[OF wf] by (force simp: image_iff)
  moreover have "distinct ms" using wf by (auto simp: well_formed_groups_def distinct_map)
  ultimately have "mset (map (data_in g) xs) = mset ms"
    using xs(1) by (intro set_eq_iff_mset_eq_distinct[THEN iffD1]) (auto simp: distinct_map)
  then show "mset (map (data_in g) xs) = mset ms \<and> length xs = length ms"
    using mset_eq_length by fastforce
  show "x \<notin> set (members_of decode ms m)" if "xs = as @ x # bs" "m \<in> set (x # bs)"
    using p that unfolding peeled_def graph_nbs[OF g] by blast
qed

text \<open>
  C23: groups that do not contain each other in a circle are accepted, and sorted in place: the array
  holds the same groups afterwards, and no group lists itself or one that comes later, whatever
  order the maps are walked in.
\<close>

theorem dag_sort_orders_groups:
  assumes wf: "well_formed_groups decode ms" and ord: "\<And>k names. mset (ord k names) = mset names"
    and acyc: "acyclic (lists decode ms)"
  shows "\<exists>arr. proxyGroupsDagSort decode ord ms = (arr, None) \<and> mset arr = mset ms
     \<and> (\<forall>i j. i \<le> j \<and> j < length arr \<longrightarrow> group_name decode (arr ! j) \<notin> set (members decode (arr ! i)))"
proof -
  from build_ok[OF wf] obtain g where b: "build_graph decode ms [] = Inr g"
    and g: "\<And>n. map_of g n = graph_node_of decode ms n" and d: "distinct (map fst g)" by blast
  from sort_phase[OF wf g d ord[of 0]] obtain xs g1 where
    t: "topo_loop 0 g (zero_nodes indegree g (ord 0 (map fst g))) ms =
       Some (g1, take (length ms - length xs) ms @ rev (map (data_in g) xs))"
    and inv: "peel_inv indegree opt_members g1 []" and p: "peeled g g1 xs" by blast
  have g1: "g1 = []" using graph_left_iff[OF wf g p inv] acyc by blast
  note s = sorted_array[OF wf g p[unfolded g1]]
  let ?arr = "rev (map (data_in g) xs)"
  have "group_name decode (?arr ! j) \<notin> set (members decode (?arr ! i))" if "i \<le> j" "j < length ?arr" for i j
  proof -
    let ?x = "xs ! (length xs - Suc j)" and ?m = "xs ! (length xs - Suc i)"
    have "?m = drop (length xs - Suc j) xs ! (j - i)" using that by (simp add: Suc_diff_le)
    then have "?m \<in> set (drop (length xs - Suc j) xs)" using that by (metis length_drop length_map length_rev
        nth_mem diff_less_Suc Suc_diff_Suc diff_diff_cancel le_less_trans not_less_eq diff_le_self less_imp_le_nat Suc_leI)
    moreover have "drop (length xs - Suc j) xs = ?x # drop (Suc (length xs - Suc j)) xs"
      using that by (intro drop_eq_Cons_nth) auto
    ultimately have "?x \<notin> set (members_of decode ms ?m)"
      using s(2)[of "take (length xs - Suc j) xs" ?x "drop (Suc (length xs - Suc j)) xs" ?m]
      by (metis append_take_drop_id)
    moreover have "?x \<in> set xs" "?m \<in> set xs" using that by (auto simp: nth_mem)
    ultimately show ?thesis
      using that s(3)[of ?x] s(3)[of ?m] by (simp add: rev_nth members_of_def)
  qed
  moreover have "proxyGroupsDagSort decode ord ms = (?arr, None)"
    using s(1) by (simp add: proxyGroupsDagSort_def b t g1)
  ultimately show ?thesis using s(1) by (intro exI[of _ ?arr]) simp
qed

lemma peel_inv_closed:
  assumes "peel_inv deg nb g q" and "n \<in> dom (map_of g)" shows "set (nbs nb g n) \<subseteq> dom (map_of g)"
proof -
  from assms(2) obtain node where "map_of g n = Some node" by auto
  with assms(1) show ?thesis unfolding peel_inv_def nbs_def by simp
qed

lemma topo_loop_keys:
  "topo_loop index g queue arr = Some (g', arr') \<Longrightarrow> distinct (map fst g) \<Longrightarrow> distinct (map fst g')"
  by (induction index g queue arr rule: topo_loop.induct)
     (auto split: option.splits if_splits simp: AList.distinct_delete, metis AList.distinct_delete decrement_keys)

text \<open>
  The search for the circles, over what the sort left: the names that stay list one another, they
  include every name that lists one of them, and every set whose elements list each other.
\<close>

lemma strip_phase:
  assumes d: "distinct (map fst g)" and ord: "\<And>k names. mset (ord k names) = mset names"
    and nb: "\<And>n. n \<in> dom (map_of g) \<Longrightarrow> nbs opt_members g n = mem n \<and> set (mem n) \<subseteq> dom (map_of g)"
    and zero: "\<And>n node. map_of g n = Some node \<Longrightarrow> outdegree node = 0 \<and> nd_from node = []"
  obtains g2 g3 where "link_graph g (ord 1 (map fst g)) = Some g2"
    "strip_loop g2 (zero_nodes outdegree g2 (ord 2 (map fst g2))) = Some g3"
    "\<forall>x. x \<in> dom (map_of g3) \<longrightarrow> x \<in> dom (map_of g) \<and> (\<exists>y\<in>dom (map_of g3). y \<in> set (mem x))"
    "\<forall>x z. x \<in> dom (map_of g3) \<longrightarrow> z \<in> dom (map_of g) \<longrightarrow> x \<in> set (mem z) \<longrightarrow> z \<in> dom (map_of g3)"
    "\<forall>C. C \<subseteq> dom (map_of g) \<longrightarrow> (\<forall>c\<in>C. \<exists>y\<in>C. y \<in> set (mem c)) \<longrightarrow> C \<subseteq> dom (map_of g3)"
proof -
  let ?names = "ord 1 (map fst g)"
  have names: "distinct ?names" "set ?names = dom (map_of g)"
    using mset_set_eq[OF ord] d mset_eq_imp_distinct_iff[OF ord]
    by (auto simp: dom_map_of_conv_image_fst)
  from link_graph_spec[of ?names g mem] names nb obtain g2 where
    l: "link_graph g ?names = Some g2" "map fst g2 = map fst g"
      "\<And>n. map_of g2 n = map_option (linked mem ?names n) (map_of g n)" by auto
  have d2: "distinct (map fst g2)" using l(2) d by simp
  note z = zero_nodes_spec[OF ord[of 2 "map fst g2"] d2, of outdegree]
  have dom2: "dom (map_of g2) = dom (map_of g)" by (metis l(2) dom_map_of_conv_image_fst list.set_map)
  have lp: "peel_inv outdegree nd_from g2 (zero_nodes outdegree g2 (ord 2 (map fst g2)))"
    and from': "\<And>n p. n \<in> dom (map_of g) \<Longrightarrow>
        p \<in> set (nbs nd_from g2 n) \<longleftrightarrow> p \<in> dom (map_of g) \<and> n \<in> set (mem p)"
    using linked_peel_inv[OF names d l(3) zero conjunct2[OF nb] z] by auto
  from strip_loop_spec[OF lp] obtain g3 where
    s: "strip_loop g2 (zero_nodes outdegree g2 (ord 2 (map fst g2))) = Some g3"
      "peel_inv outdegree nd_from g3 []"
      "\<And>n. n \<in> dom (map_of g3) \<Longrightarrow> n \<in> dom (map_of g2) \<and> nbs nd_from g3 n = nbs nd_from g2 n"
      "\<And>C. C \<subseteq> dom (map_of g2) \<and> (\<forall>c\<in>C. \<exists>d\<in>C. c \<in> set (nbs nd_from g2 d)) \<Longrightarrow> C \<subseteq> dom (map_of g3)"
    by blast
  have in3: "x \<in> dom (map_of g3) \<Longrightarrow> p \<in> set (nbs nd_from g3 x) \<longleftrightarrow> p \<in> dom (map_of g) \<and> x \<in> set (mem p)" for x p
    using s(3)[of x] from'[of x p] dom2 by auto
  have A: "x \<in> dom (map_of g) \<and> (\<exists>y\<in>dom (map_of g3). y \<in> set (mem x))" if x: "x \<in> dom (map_of g3)" for x
  proof -
    from x obtain node where "map_of g3 x = Some node" by auto
    then have "edges_to nd_from g3 x \<noteq> 0" using s(2) by (auto simp: peel_inv_def)
    then obtain y where "y \<in> dom (map_of g3)" "count_list (nbs nd_from g3 y) x \<noteq> 0"
      unfolding edges_to_def by (meson sum.neutral)
    then show ?thesis using in3[of y x] s(3)[OF x] dom2 by (auto simp: count_list_0_iff)
  qed
  have B: "z \<in> dom (map_of g3)"
    if x: "x \<in> dom (map_of g3)" and z: "z \<in> dom (map_of g)" "x \<in> set (mem z)" for x z
  proof -
    show ?thesis using peel_inv_closed[OF s(2) x] in3[OF x, of z] z by blast
  qed
  have D: "C \<subseteq> dom (map_of g3)" if C: "C \<subseteq> dom (map_of g)" "\<forall>c\<in>C. \<exists>y\<in>C. y \<in> set (mem c)" for C
  proof (rule s(4), intro conjI ballI)
    show "C \<subseteq> dom (map_of g2)" using C(1) dom2 by simp
    fix c assume "c \<in> C"
    with C(2) obtain y where y: "y \<in> C" "y \<in> set (mem c)" by blast
    then have "c \<in> set (nbs nd_from g2 y)" using from'[of y c] C(1) \<open>c \<in> C\<close> by (simp add: subset_iff)
    with y(1) show "\<exists>d\<in>C. c \<in> set (nbs nd_from g2 d)" by blast
  qed
  show ?thesis
    by (rule that[OF l(1) s(1)]) (intro allI impI, (rule A B D; assumption))+
qed

text \<open>
  C24: when groups contain each other in a circle the sort fails and reports exactly the names that lie on a circle
  or on a way from one circle to another; what merely leads to a circle or is reached from it is left out.
\<close>

theorem dag_sort_reports_circles:
  assumes wf: "well_formed_groups decode ms" and ord: "\<And>k names. mset (ord k names) = mset names"
    and cyc: "\<not> acyclic (lists decode ms)"
  shows "\<exists>arr names. proxyGroupsDagSort decode ord ms = (arr, Some (LoopDetected names)) \<and>
    set names = {x. (\<exists>c. (c, c) \<in> (lists decode ms)\<^sup>+ \<and> (c, x) \<in> (lists decode ms)\<^sup>*) \<and>
      (\<exists>d. (d, d) \<in> (lists decode ms)\<^sup>+ \<and> (x, d) \<in> (lists decode ms)\<^sup>*)}"
proof -
  from build_ok[OF wf] obtain g where b: "build_graph decode ms [] = Inr g"
    and g: "\<And>n. map_of g n = graph_node_of decode ms n" and d: "distinct (map fst g)" by blast
  from sort_phase[OF wf g d ord[of 0]] obtain xs g1 arr where
    t: "topo_loop 0 g (zero_nodes indegree g (ord 0 (map fst g))) ms = Some (g1, arr)"
    and inv: "peel_inv indegree opt_members g1 []" and p: "peeled g g1 xs" by blast
  have g1: "g1 \<noteq> []" using graph_left_iff[OF wf g p inv] cyc by blast
  have same: "same_but_counters g g1" using p by (simp add: peeled_def)
  have d1: "distinct (map fst g1)" using topo_loop_keys[OF t d] .
  have nb: "nbs opt_members g1 n = members_of decode ms n" if "n \<in> dom (map_of g1)" for n
    using same_but_counters_nbs[OF same that] by (simp add: graph_nbs[OF g])
  have closed: "set (members_of decode ms n) \<subseteq> dom (map_of g1)" if n: "n \<in> dom (map_of g1)" for n
    using peel_inv_closed[OF inv n] nb[OF n] by simp
  have zero: "outdegree node = 0 \<and> nd_from node = []" if "map_of g1 n = Some node" for n node
    using that by (rule same_but_countersD[OF same]) (auto simp: g graph_node_of_def split: if_splits)
  have mem: "nbs opt_members g1 n = members_of decode ms n \<and> set (members_of decode ms n) \<subseteq> dom (map_of g1)"
    if "n \<in> dom (map_of g1)" for n
    using that nb closed by simp
  obtain g2 g3 where
    s: "link_graph g1 (ord 1 (map fst g1)) = Some g2"
      "strip_loop g2 (zero_nodes outdegree g2 (ord 2 (map fst g2))) = Some g3"
      "\<forall>x. x \<in> dom (map_of g3) \<longrightarrow> x \<in> dom (map_of g1) \<and> (\<exists>y\<in>dom (map_of g3). y \<in> set (members_of decode ms x))"
      "\<forall>x z. x \<in> dom (map_of g3) \<longrightarrow> z \<in> dom (map_of g1) \<longrightarrow> x \<in> set (members_of decode ms z) \<longrightarrow> z \<in> dom (map_of g3)"
      "\<forall>C. C \<subseteq> dom (map_of g1) \<longrightarrow> (\<forall>c\<in>C. \<exists>y\<in>C. y \<in> set (members_of decode ms c)) \<longrightarrow> C \<subseteq> dom (map_of g3)"
    by (rule strip_phase[where ord = ord, OF d1 ord mem zero])
  have l: "(x, y) \<in> lists decode ms \<longleftrightarrow> y \<in> set (members_of decode ms x)" for x y by (rule lists_iff[OF wf])
  have circ: "between_circles decode ms \<subseteq> dom (map_of g3)"
    by (rule s(5)[rule_format, OF between_stays[OF wf g p]]) (use between_next(1)[of _ decode ms] l in blast)
  have pred: "\<exists>z\<in>dom (map_of g3). (z, x) \<in> lists decode ms" if "x \<in> dom (map_of g3)" for x
    using s(3)[rule_format, OF that] s(4)[rule_format, OF that] left_has_pred[OF wf g p inv, of x]
    unfolding l by blast
  have succ: "\<exists>y\<in>dom (map_of g3). (x, y) \<in> lists decode ms" if "x \<in> dom (map_of g3)" for x
    using s(3)[rule_format, OF that] unfolding l by blast
  have names: "set (ord 3 (map fst g3)) = dom (map_of g3)"
    using mset_set_eq[OF ord] by (simp add: dom_map_of_conv_image_fst)
  show ?thesis
  proof (intro exI conjI)
    show "proxyGroupsDagSort decode ord ms = (arr, Some (LoopDetected (ord 3 (map fst g3))))"
      using g1 s(1,2) by (simp add: proxyGroupsDagSort_def b t)
    have "dom (map_of g3) = between_circles decode ms"
      using circ between_if_closed[of "dom (map_of g3)" decode ms] succ pred by blast
    then show "set (ord 3 (map fst g3)) = {x. (\<exists>c. (c, c) \<in> (lists decode ms)\<^sup>+ \<and> (c, x) \<in> (lists decode ms)\<^sup>*) \<and>
      (\<exists>d. (d, d) \<in> (lists decode ms)\<^sup>+ \<and> (x, d) \<in> (lists decode ms)\<^sup>*)}"
      unfolding names between_circles_def on_circle_def by blast
  qed
qed

text \<open>Two groups, in the order of their dependence and with a group that lists itself.\<close>

definition demo_decode :: "group_option option \<Rightarrow> group_option \<times> string option" where
  "demo_decode m = (case m of Some g \<Rightarrow> (g, None) | None \<Rightarrow> (\<lparr>go_Name = '''', go_Proxies = []\<rparr>, Some ''nil''))"

definition demo_groups :: "string list \<Rightarrow> group_option option list" where
  "demo_groups ps = [Some \<lparr>go_Name = ''b'', go_Proxies = ps\<rparr>, Some \<lparr>go_Name = ''a'', go_Proxies = [''b'', ''b'']\<rparr>]"

lemma demo_well_formed: "well_formed_groups demo_decode (demo_groups ps)"
  by (simp add: well_formed_groups_def demo_groups_def demo_decode_def group_name_def)

lemma demo_lists:
  "lists demo_decode (demo_groups ps) = (\<lambda>p. (''b'', p)) ` set ps \<union> {(''a'', ''b'')}"
  by (auto simp: lists_UN demo_groups_def demo_decode_def group_name_def members_def)

theorem dag_sort_orders_groups_witness:
  "snd (proxyGroupsDagSort demo_decode (\<lambda>_ ns. ns) (demo_groups [''DIRECT''])) = None"
proof -
  have "acyclic (lists demo_decode (demo_groups [''DIRECT'']))"
    unfolding demo_lists
    by (rule acyclicI_order[where f = "\<lambda>s. if s = ''a'' then 2 else if s = ''b'' then 1 else (0 :: nat)"]) auto
  from dag_sort_orders_groups[OF demo_well_formed _ this, of "\<lambda>_ ns. ns"] show ?thesis by auto
qed

theorem dag_sort_reports_circles_witness:
  "\<exists>names. snd (proxyGroupsDagSort demo_decode (\<lambda>_ ns. rev ns) (demo_groups [''b'', ''DIRECT''])) = Some (LoopDetected names) \<and>
     set names = {''b''}"
proof -
  let ?r = "lists demo_decode (demo_groups [''b'', ''DIRECT''])"
  have r: "?r = {(''b'', ''b''), (''b'', ''DIRECT''), (''a'', ''b'')}" unfolding demo_lists by auto
  have b: "(''b'', ''b'') \<in> ?r\<^sup>+" unfolding r by auto
  then have "\<not> acyclic ?r" by (auto simp: acyclic_def)
  from dag_sort_reports_circles[OF demo_well_formed _ this, of "\<lambda>_ ns. rev ns"] obtain names where
    n: "snd (proxyGroupsDagSort demo_decode (\<lambda>_ ns. rev ns) (demo_groups [''b'', ''DIRECT''])) = Some (LoopDetected names)"
    "set names = {x. (\<exists>c. (c, c) \<in> ?r\<^sup>+ \<and> (c, x) \<in> ?r\<^sup>*) \<and> (\<exists>d. (d, d) \<in> ?r\<^sup>+ \<and> (x, d) \<in> ?r\<^sup>*)}"
    by auto
  have to: "y \<in> {''b'', ''DIRECT''}" if "(x, y) \<in> ?r\<^sup>+" for x y using that by cases (auto simp: r)
  have "x = ''b''" if "(x, y) \<in> ?r\<^sup>+" "x \<in> {''b'', ''DIRECT''}" for x y
    using tranclD[OF that(1)] that(2) by (auto simp: r)
  then have circ: "c = ''b''" if "(c, c) \<in> ?r\<^sup>+" for c using that to by blast
  have "x = ''b''" if "(''b'', x) \<in> ?r\<^sup>*" "(x, ''b'') \<in> ?r\<^sup>*" for x
  proof (rule ccontr)
    assume "x \<noteq> ''b''"
    with that have "(''b'', x) \<in> ?r\<^sup>+" "(x, ''b'') \<in> ?r\<^sup>+" by (simp_all add: rtrancl_eq_or_trancl)
    then have "(x, x) \<in> ?r\<^sup>+" by (meson trancl_trans)
    with circ \<open>x \<noteq> ''b''\<close> show False by blast
  qed
  then have "set names = {''b''}" using n(2) circ b by blast
  with n(1) show ?thesis by blast
qed

text \<open>
  A group between two circles is reported although it is on none: here \<open>m\<close>, which \<open>a\<close> lists and which lists \<open>b\<close>.
\<close>

theorem between_circles_reported:
  "snd (proxyGroupsDagSort demo_decode (\<lambda>_ ns. ns)
     [Some \<lparr>go_Name = ''a'', go_Proxies = [''a'', ''m'']\<rparr>, Some \<lparr>go_Name = ''m'', go_Proxies = [''b'']\<rparr>,
      Some \<lparr>go_Name = ''b'', go_Proxies = [''b'']\<rparr>]) = Some (LoopDetected [''a'', ''m'', ''b''])"
  by code_simp

end
