(* ===== verification/Lru.thy ===== *)
theory Lru imports Prelude begin

text \<open>
  common/lru/lrucache.go: the cache with an age and a size limit behind the fake-ip pool, the host
  mapping, the DNS cache and the sticky sessions. Its list is the doubly linked list of the package
  generic-list-go, which is not part of the repository: its functions are the argument \<open>dl\<close>, and the
  locale \<open>linked_list\<close> states their documented behaviour. Entries are pointers, kept in the heap
  \<open>lc_heap\<close> of the cache. Each reading of the clock is an argument, in seconds.
\<close>

section \<open>The code\<close>

record ('k, 'v) lru_entry =
  le_key :: 'k
  le_value :: 'v
  le_expires :: int

text \<open>The list package: 'l is a list, 'h a pointer to an element, whose value is a pointer to an entry.\<close>

record ('l, 'h) list_ops =
  lo_New :: 'l
  lo_PushBack :: "nat \<Rightarrow> 'l \<Rightarrow> 'h \<times> 'l"
  lo_MoveToBack :: "'h \<Rightarrow> 'l \<Rightarrow> 'l"
  lo_Remove :: "'h \<Rightarrow> 'l \<Rightarrow> 'l"
  lo_Front :: "'l \<Rightarrow> 'h option"
  lo_Next :: "'l \<Rightarrow> 'h \<Rightarrow> 'h option"
  lo_Value :: "'l \<Rightarrow> 'h \<Rightarrow> nat"
  lo_Len :: "'l \<Rightarrow> nat"

record ('l, 'h, 'k, 'v) lru_cache =
  lc_maxAge :: int
  lc_maxSize :: int
  lc_cache :: "'k \<Rightarrow> 'h option"
  lc_lru :: 'l
  lc_updateAgeOnGet :: bool
  lc_staleReturn :: bool
  lc_onEvict :: bool
  lc_evicted :: "('k \<times> 'v) list"
  lc_heap :: "('k, 'v) lru_entry list"

definition entry_at ::
  "('l, 'h) list_ops \<Rightarrow> ('l, 'h, 'k, 'v) lru_cache \<Rightarrow> 'h \<Rightarrow> ('k, 'v) lru_entry"
where
  "entry_at dl c le = lc_heap c ! lo_Value dl (lc_lru c) le"

definition lru_Clear :: "('l, 'h) list_ops \<Rightarrow> ('l, 'h, 'k, 'v) lru_cache \<Rightarrow> ('l, 'h, 'k, 'v) lru_cache" where
  "lru_Clear dl c = c\<lparr>lc_lru := lo_New dl, lc_cache := (\<lambda>_. None)\<rparr>"

text \<open>\<open>New\<close> with its options: age, size, update of the age on a read, stale reads, an evict callback.\<close>

definition lru_New ::
  "('l, 'h) list_ops \<Rightarrow> int \<Rightarrow> int \<Rightarrow> bool \<Rightarrow> bool \<Rightarrow> bool \<Rightarrow> ('l, 'h, 'k, 'v) lru_cache"
where
  "lru_New dl maxAge maxSize updateAge stale onEvict =
     \<lparr>lc_maxAge = maxAge, lc_maxSize = maxSize, lc_cache = (\<lambda>_. None), lc_lru = lo_New dl,
      lc_updateAgeOnGet = updateAge, lc_staleReturn = stale, lc_onEvict = onEvict, lc_evicted = [],
      lc_heap = []\<rparr>"

text \<open>\<open>deleteElement\<close>; the calls of the evict callback are collected in \<open>lc_evicted\<close>.\<close>

definition deleteElement ::
  "('l, 'h) list_ops \<Rightarrow> 'h \<Rightarrow> ('l, 'h, 'k, 'v) lru_cache \<Rightarrow> ('l, 'h, 'k, 'v) lru_cache"
where
  "deleteElement dl le c =
     (let e = entry_at dl c le in
      c\<lparr>lc_lru := lo_Remove dl le (lc_lru c),
        lc_cache := (lc_cache c)(le_key e := None),
        lc_evicted := (if lc_onEvict c then lc_evicted c @ [(le_key e, le_value e)] else lc_evicted c)\<rparr>)"

text \<open>The loop of \<open>maybeDeleteOldest\<close>, at most once for each element of the list.\<close>

fun oldest_loop ::
  "('l, 'h) list_ops \<Rightarrow> int \<Rightarrow> nat \<Rightarrow> ('l, 'h, 'k, 'v) lru_cache \<Rightarrow> ('l, 'h, 'k, 'v) lru_cache"
where
  "oldest_loop dl now 0 c = c"
| "oldest_loop dl now (Suc n) c =
     (case lo_Front dl (lc_lru c) of
        None \<Rightarrow> c
      | Some le \<Rightarrow>
          if le_expires (entry_at dl c le) \<le> now then oldest_loop dl now n (deleteElement dl le c) else c)"

definition maybeDeleteOldest ::
  "('l, 'h) list_ops \<Rightarrow> int \<Rightarrow> ('l, 'h, 'k, 'v) lru_cache \<Rightarrow> ('l, 'h, 'k, 'v) lru_cache"
where
  "maybeDeleteOldest dl now c =
     (if \<not> lc_staleReturn c \<and> lc_maxAge c > 0 then oldest_loop dl now (lo_Len dl (lc_lru c)) c else c)"

definition setWithExpire ::
  "('l, 'h) list_ops \<Rightarrow> int \<Rightarrow> 'k \<Rightarrow> 'v \<Rightarrow> int \<Rightarrow> ('l, 'h, 'k, 'v) lru_cache \<Rightarrow> ('l, 'h, 'k, 'v) lru_cache"
where
  "setWithExpire dl now key val expires c =
     maybeDeleteOldest dl now
       (case lc_cache c key of
          Some le \<Rightarrow>
            let p = lo_Value dl (lc_lru c) le in
            c\<lparr>lc_lru := lo_MoveToBack dl le (lc_lru c),
              lc_heap := (lc_heap c)[p := (lc_heap c ! p)\<lparr>le_value := val, le_expires := expires\<rparr>]\<rparr>
        | None \<Rightarrow>
            let p = length (lc_heap c);
                (el, l) = lo_PushBack dl p (lc_lru c);
                c1 = c\<lparr>lc_heap := lc_heap c @ [\<lparr>le_key = key, le_value = val, le_expires = expires\<rparr>],
                  lc_cache := (lc_cache c)(key \<mapsto> el), lc_lru := l\<rparr> in
            if lc_maxSize c1 > 0 \<and> int (lo_Len dl (lc_lru c1)) > lc_maxSize c1 then
              (case lo_Front dl (lc_lru c1) of Some le \<Rightarrow> deleteElement dl le c1 | None \<Rightarrow> c1)
            else c1)"

text \<open>\<open>set\<close> reads the clock for the expiry (\<open>t1\<close>) and for the removal of old entries (\<open>t2\<close>).\<close>

definition lru_set ::
  "('l, 'h) list_ops \<Rightarrow> int \<Rightarrow> int \<Rightarrow> 'k \<Rightarrow> 'v \<Rightarrow> ('l, 'h, 'k, 'v) lru_cache \<Rightarrow> ('l, 'h, 'k, 'v) lru_cache"
where
  "lru_set dl t1 t2 key val c =
     setWithExpire dl t2 key val (if lc_maxAge c > 0 then t1 + lc_maxAge c else 0) c"

text \<open>\<open>get\<close>: the pointer to the entry. The clock is read for the check and once more on either branch.\<close>

definition lru_get ::
  "('l, 'h) list_ops \<Rightarrow> int \<Rightarrow> int \<Rightarrow> 'k \<Rightarrow> ('l, 'h, 'k, 'v) lru_cache
   \<Rightarrow> nat option \<times> ('l, 'h, 'k, 'v) lru_cache"
where
  "lru_get dl t1 t2 key c =
     (case lc_cache c key of
        None \<Rightarrow> (None, c)
      | Some le \<Rightarrow>
          if \<not> lc_staleReturn c \<and> lc_maxAge c > 0 \<and> le_expires (entry_at dl c le) \<le> t1 then
            (None, maybeDeleteOldest dl t2 (deleteElement dl le c))
          else
            let p = lo_Value dl (lc_lru c) le; c1 = c\<lparr>lc_lru := lo_MoveToBack dl le (lc_lru c)\<rparr> in
            (Some p,
             if lc_maxAge c > 0 \<and> lc_updateAgeOnGet c
             then c1\<lparr>lc_heap := (lc_heap c1)[p := (lc_heap c1 ! p)\<lparr>le_expires := t2 + lc_maxAge c\<rparr>]\<rparr>
             else c1))"

definition lru_Get ::
  "('l, 'h) list_ops \<Rightarrow> int \<Rightarrow> int \<Rightarrow> 'k \<Rightarrow> ('l, 'h, 'k, 'v) lru_cache
   \<Rightarrow> 'v option \<times> ('l, 'h, 'k, 'v) lru_cache"
where
  "lru_Get dl t1 t2 key c =
     (case lru_get dl t1 t2 key c of
        (None, c1) \<Rightarrow> (None, c1)
      | (Some p, c1) \<Rightarrow> (Some (le_value (lc_heap c1 ! p)), c1))"

definition lru_GetWithExpire ::
  "('l, 'h) list_ops \<Rightarrow> int \<Rightarrow> int \<Rightarrow> 'k \<Rightarrow> ('l, 'h, 'k, 'v) lru_cache
   \<Rightarrow> ('v \<times> int) option \<times> ('l, 'h, 'k, 'v) lru_cache"
where
  "lru_GetWithExpire dl t1 t2 key c =
     (case lru_get dl t1 t2 key c of
        (None, c1) \<Rightarrow> (None, c1)
      | (Some p, c1) \<Rightarrow> (Some (le_value (lc_heap c1 ! p), le_expires (lc_heap c1 ! p)), c1))"

text \<open>\<open>GetOrStore\<close>: the value and whether it was found; the constructor gives \<open>fresh\<close>.\<close>

definition lru_GetOrStore ::
  "('l, 'h) list_ops \<Rightarrow> int \<Rightarrow> int \<Rightarrow> int \<Rightarrow> int \<Rightarrow> 'k \<Rightarrow> 'v \<Rightarrow> ('l, 'h, 'k, 'v) lru_cache
   \<Rightarrow> ('v \<times> bool) \<times> ('l, 'h, 'k, 'v) lru_cache"
where
  "lru_GetOrStore dl t1 t2 t3 t4 key fresh c =
     (case lru_get dl t1 t2 key c of
        (None, c1) \<Rightarrow> ((fresh, False), lru_set dl t3 t4 key fresh c1)
      | (Some p, c1) \<Rightarrow> ((le_value (lc_heap c1 ! p), True), c1))"

definition lru_Exist :: "'k \<Rightarrow> ('l, 'h, 'k, 'v) lru_cache \<Rightarrow> bool" where
  "lru_Exist key c \<longleftrightarrow> lc_cache c key \<noteq> None"

definition lru_Delete ::
  "('l, 'h) list_ops \<Rightarrow> 'k \<Rightarrow> ('l, 'h, 'k, 'v) lru_cache \<Rightarrow> ('l, 'h, 'k, 'v) lru_cache"
where
  "lru_Delete dl key c = (case lc_cache c key of Some le \<Rightarrow> deleteElement dl le c | None \<Rightarrow> c)"

text \<open>\<open>Compute\<close>: the callback sees the value found, and asks for a new value or for the removal (\<open>None\<close>).\<close>

definition lru_Compute ::
  "('l, 'h) list_ops \<Rightarrow> int \<Rightarrow> int \<Rightarrow> int \<Rightarrow> int \<Rightarrow> 'k \<Rightarrow> ('v option \<Rightarrow> 'v option)
   \<Rightarrow> ('l, 'h, 'k, 'v) lru_cache \<Rightarrow> 'v option \<times> ('l, 'h, 'k, 'v) lru_cache"
where
  "lru_Compute dl t1 t2 t3 t4 key f c =
     (case lru_get dl t1 t2 key c of (r, c1) \<Rightarrow>
        (case f (map_option (\<lambda>p. le_value (lc_heap c1 ! p)) r) of
           None \<Rightarrow> (None, if r \<noteq> None then lru_Delete dl key c1 else c1)
         | Some v \<Rightarrow> (Some v, lru_set dl t3 t4 key v c1)))"

text \<open>
  \<open>CloneTo\<close>: the target gets its own list and map over the same entries, which the model gives it as
  they are at this moment. In Go the two caches share them from then on: what one does to the value or the expiry of an
  entry the other one sees, a change of the heap that \<open>lru_reachable\<close> (LruProps) lets happen at any time.
\<close>

fun clone_loop ::
  "('l, 'h) list_ops \<Rightarrow> ('l, 'h, 'k, 'v) lru_cache \<Rightarrow> nat \<Rightarrow> 'h option \<Rightarrow> ('l, 'h, 'k, 'v) lru_cache
   \<Rightarrow> ('l, 'h, 'k, 'v) lru_cache"
where
  "clone_loop dl c 0 e n = n"
| "clone_loop dl c (Suc k) None n = n"
| "clone_loop dl c (Suc k) (Some e) n =
     (case lo_PushBack dl (lo_Value dl (lc_lru c) e) (lc_lru n) of (el, l) \<Rightarrow>
        clone_loop dl c k (lo_Next dl (lc_lru c) e)
          (n\<lparr>lc_cache := (lc_cache n)(le_key (entry_at dl c e) \<mapsto> el), lc_lru := l\<rparr>))"

definition lru_CloneTo ::
  "('l, 'h) list_ops \<Rightarrow> ('l, 'h, 'k, 'v) lru_cache \<Rightarrow> ('l, 'h, 'k, 'v) lru_cache
   \<Rightarrow> ('l, 'h, 'k, 'v) lru_cache"
where
  "lru_CloneTo dl c n =
     clone_loop dl c (lo_Len dl (lc_lru c)) (lo_Front dl (lc_lru c))
       (n\<lparr>lc_lru := lo_New dl, lc_cache := (\<lambda>_. None), lc_heap := lc_heap c\<rparr>)"

end
