(* ===== verification/LruProps.thy ===== *)
theory LruProps imports Lru "HOL-Library.Extended_Nat" begin

text \<open>
  What the LRU cache promises. \<open>lru_view\<close> reads the list and the heap of a cache as a list of entries,
  least recently used first; on it every operation is a short list function, and the pointer
  code refines these functions whenever the list package behaves as documented (locale \<open>linked_list\<close>).
\<close>

section \<open>The abstract cache\<close>

abbreviation other_keys :: "'k \<Rightarrow> ('k, 'v) lru_entry list \<Rightarrow> ('k, 'v) lru_entry list" where
  "other_keys k es \<equiv> filter (\<lambda>e. le_key e \<noteq> k) es"

definition find_key :: "'k \<Rightarrow> ('k, 'v) lru_entry list \<Rightarrow> ('k, 'v) lru_entry option" where
  "find_key k es = find (\<lambda>e. le_key e = k) es"

definition abs_expire :: "('l, 'h, 'k, 'v) lru_cache \<Rightarrow> int \<Rightarrow> ('k, 'v) lru_entry list \<Rightarrow> ('k, 'v) lru_entry list" where
  "abs_expire c now es =
     (if \<not> lc_staleReturn c \<and> lc_maxAge c > 0 then dropWhile (\<lambda>e. le_expires e \<le> now) es else es)"

definition abs_push :: "('l, 'h, 'k, 'v) lru_cache \<Rightarrow> ('k, 'v) lru_entry \<Rightarrow> ('k, 'v) lru_entry list \<Rightarrow> ('k, 'v) lru_entry list" where
  "abs_push c e es =
     (if find_key (le_key e) es = None \<and> lc_maxSize c > 0 \<and> int (length es) + 1 > lc_maxSize c
      then tl (es @ [e]) else other_keys (le_key e) es @ [e])"

definition abs_get ::
  "('l, 'h, 'k, 'v) lru_cache \<Rightarrow> int \<Rightarrow> int \<Rightarrow> 'k \<Rightarrow> ('k, 'v) lru_entry list
   \<Rightarrow> ('k, 'v) lru_entry option \<times> ('k, 'v) lru_entry list"
where
  "abs_get c t1 t2 k es =
     (case find_key k es of
        None \<Rightarrow> (None, es)
      | Some e \<Rightarrow>
          if \<not> lc_staleReturn c \<and> lc_maxAge c > 0 \<and> le_expires e \<le> t1
          then (None, abs_expire c t2 (other_keys k es))
          else let e' = (if lc_maxAge c > 0 \<and> lc_updateAgeOnGet c then e\<lparr>le_expires := t2 + lc_maxAge c\<rparr> else e) in
            (Some e', other_keys k es @ [e']))"

lemma find_key_None [simp]: "find_key k es = None \<longleftrightarrow> k \<notin> le_key ` set es"
  by (auto simp: find_key_def find_None_iff)

lemma find_key_Some:
  "distinct (map le_key es) \<Longrightarrow> find_key k es = Some e \<longleftrightarrow> e \<in> set es \<and> le_key e = k"
  by (induction es) (auto simp: find_key_def image_iff)

lemma other_keys_id: "k \<notin> le_key ` set es \<Longrightarrow> other_keys k es = es"
  by (induction es) auto

lemma find_key_append: "find_key k (es @ fs) = first_some (find_key k es) (find_key k fs)"
  by (induction es) (simp_all add: find_key_def)

lemma find_key_other_keys: "k' \<noteq> k \<Longrightarrow> find_key k' (other_keys k es) = find_key k' es"
  by (induction es) (auto simp: find_key_def)

lemma find_key_tl:
  assumes "distinct (map le_key es)" shows "find_key k (tl es) \<in> {None, find_key k es}"
proof (cases es)
  case (Cons e es')
  show ?thesis
  proof (cases "le_key e = k")
    case True
    then have "k \<notin> le_key ` set es'" using assms Cons by auto
    then show ?thesis using Cons by simp
  qed (simp add: Cons find_key_def)
qed simp

section \<open>The list package and the representation\<close>

locale linked_list =
  fixes dl :: "('l, 'h) list_ops" and items :: "'l \<Rightarrow> ('h \<times> nat) list"
  assumes New: "items (lo_New dl) = []"
    and PushBack: "lo_PushBack dl p l = (h, l') \<Longrightarrow> items l' = items l @ [(h, p)] \<and> h \<notin> fst ` set (items l)"
    and MoveToBack: "distinct (map fst (items l)) \<Longrightarrow> (h, p) \<in> set (items l) \<Longrightarrow>
      items (lo_MoveToBack dl h l) = filter (\<lambda>x. fst x \<noteq> h) (items l) @ [(h, p)]"
    and Remove: "h \<in> fst ` set (items l) \<Longrightarrow> items (lo_Remove dl h l) = filter (\<lambda>x. fst x \<noteq> h) (items l)"
    and Front: "lo_Front dl l = (case items l of [] \<Rightarrow> None | x # _ \<Rightarrow> Some (fst x))"
    and Next: "distinct (map fst (items l)) \<Longrightarrow> items l = xs @ (h, p) # ys \<Longrightarrow>
      lo_Next dl l h = (case ys of [] \<Rightarrow> None | y # _ \<Rightarrow> Some (fst y))"
    and Value: "distinct (map fst (items l)) \<Longrightarrow> (h, p) \<in> set (items l) \<Longrightarrow> lo_Value dl l h = p"
    and Len: "lo_Len dl l = length (items l)"

definition lru_view :: "('l \<Rightarrow> ('h \<times> nat) list) \<Rightarrow> ('l, 'h, 'k, 'v) lru_cache \<Rightarrow> ('k, 'v) lru_entry list" where
  "lru_view items c = map (\<lambda>x. lc_heap c ! snd x) (items (lc_lru c))"

definition lru_inv :: "('l \<Rightarrow> ('h \<times> nat) list) \<Rightarrow> ('l, 'h, 'k, 'v) lru_cache \<Rightarrow> bool" where
  "lru_inv items c \<longleftrightarrow>
     distinct (map fst (items (lc_lru c))) \<and> distinct (map snd (items (lc_lru c))) \<and>
     (\<forall>x\<in>set (items (lc_lru c)). snd x < length (lc_heap c)) \<and>
     (\<forall>k h. lc_cache c k = Some h \<longleftrightarrow>
        (\<exists>p. (h, p) \<in> set (items (lc_lru c)) \<and> le_key (lc_heap c ! p) = k))"

definition same_options :: "('l, 'h, 'k, 'v) lru_cache \<Rightarrow> ('l, 'h, 'k, 'v) lru_cache \<Rightarrow> bool" where
  "same_options c c' \<longleftrightarrow> lc_maxAge c' = lc_maxAge c \<and> lc_maxSize c' = lc_maxSize c \<and>
     lc_updateAgeOnGet c' = lc_updateAgeOnGet c \<and> lc_staleReturn c' = lc_staleReturn c"

lemma same_options_refl [simp]: "same_options c c"
  by (simp add: same_options_def)

lemma lru_inv_distinct:
  assumes "lru_inv items c" shows "distinct (map le_key (lru_view items c))"
proof -
  let ?xs = "items (lc_lru c)" and ?key = "\<lambda>x. le_key (lc_heap c ! snd x)"
  have "inj_on ?key (set ?xs)"
  proof (rule inj_onI)
    fix x y assume xy: "x \<in> set ?xs" "y \<in> set ?xs" "?key x = ?key y"
    have "lc_cache c (?key x) = Some (fst x)" "lc_cache c (?key y) = Some (fst y)"
      using assms xy(1,2) unfolding lru_inv_def by (metis prod.collapse)+
    then have "fst x = fst y" using xy(3) by simp
    then show "x = y" using assms xy(1,2) by (auto simp: lru_inv_def distinct_map inj_on_def)
  qed
  moreover have "distinct ?xs" using assms by (auto simp: lru_inv_def distinct_map)
  ultimately show ?thesis by (simp add: lru_view_def distinct_map comp_def)
qed

text \<open>The map and the list name the same entries.\<close>

lemma lru_lookup:
  assumes inv: "lru_inv items c"
  shows "lc_cache c k = None \<longleftrightarrow> k \<notin> le_key ` set (lru_view items c)"
    and "lc_cache c k = Some h \<Longrightarrow> \<exists>p. (h, p) \<in> set (items (lc_lru c)) \<and> le_key (lc_heap c ! p) = k
      \<and> find_key k (lru_view items c) = Some (lc_heap c ! p)"
proof -
  show "lc_cache c k = None \<longleftrightarrow> k \<notin> le_key ` set (lru_view items c)"
  proof -
    have "lc_cache c k \<noteq> None \<longleftrightarrow> (\<exists>x\<in>set (items (lc_lru c)). le_key (lc_heap c ! snd x) = k)"
      using inv unfolding lru_inv_def by (metis not_None_eq prod.collapse snd_conv)
    then show ?thesis by (auto simp: lru_view_def)
  qed
  assume "lc_cache c k = Some h"
  then obtain p where p: "(h, p) \<in> set (items (lc_lru c))" "le_key (lc_heap c ! p) = k"
    using inv by (auto simp: lru_inv_def)
  moreover have "lc_heap c ! p \<in> set (lru_view items c)" using p(1) by (force simp: lru_view_def)
  ultimately show "\<exists>p. (h, p) \<in> set (items (lc_lru c)) \<and> le_key (lc_heap c ! p) = k
      \<and> find_key k (lru_view items c) = Some (lc_heap c ! p)"
    using find_key_Some[OF lru_inv_distinct[OF inv]] by blast
qed

lemma lru_inv_item:
  assumes "lru_inv items c" and "x \<in> set (items (lc_lru c))"
  shows "lc_cache c (le_key (lc_heap c ! snd x)) = Some (fst x)"
  using assms unfolding lru_inv_def by (metis prod.collapse)

lemma lru_inv_same_key:
  assumes inv: "lru_inv items c" and "x \<in> set (items (lc_lru c))" "y \<in> set (items (lc_lru c))"
  shows "le_key (lc_heap c ! snd x) = le_key (lc_heap c ! snd y) \<longleftrightarrow> fst x = fst y"
    and "snd x = snd y \<longleftrightarrow> fst x = fst y"
proof -
  show k: "le_key (lc_heap c ! snd x) = le_key (lc_heap c ! snd y) \<longleftrightarrow> fst x = fst y"
    using assms lru_inv_item[OF inv] by (metis lru_inv_item inv option.inject lru_inv_def eq_key_imp_eq_value prod.collapse)
  show "snd x = snd y \<longleftrightarrow> fst x = fst y"
    using assms k by (metis lru_inv_def eq_key_imp_eq_value prod.collapse)
qed

text \<open>Removing an element, moving one to the back with a new value, and adding one.\<close>

lemma lru_inv_remove:
  assumes inv: "lru_inv items c" and x: "(h, p) \<in> set (items (lc_lru c))"
    and l: "items l = filter (\<lambda>x. fst x \<noteq> h) (items (lc_lru c))"
  shows "lru_inv items (c\<lparr>lc_lru := l, lc_cache := (lc_cache c)(le_key (lc_heap c ! p) := None), lc_evicted := ev\<rparr>)"
    and "lru_view items (c\<lparr>lc_lru := l, lc_cache := (lc_cache c)(le_key (lc_heap c ! p) := None), lc_evicted := ev\<rparr>)
      = other_keys (le_key (lc_heap c ! p)) (lru_view items c)"
proof -
  note same = lru_inv_same_key[OF inv _ x, simplified]
  show "lru_view items (c\<lparr>lc_lru := l, lc_cache := (lc_cache c)(le_key (lc_heap c ! p) := None), lc_evicted := ev\<rparr>)
      = other_keys (le_key (lc_heap c ! p)) (lru_view items c)"
    using same(1) by (simp add: lru_view_def l filter_map comp_def cong: filter_cong)
  have "((lc_cache c)(le_key (lc_heap c ! p) := None)) k = Some h' \<longleftrightarrow>
      (\<exists>q. (h', q) \<in> set (items l) \<and> le_key (lc_heap c ! q) = k)" for k h'
    using inv same(1) x unfolding lru_inv_def l by (fastforce split: if_splits)
  then show "lru_inv items (c\<lparr>lc_lru := l, lc_cache := (lc_cache c)(le_key (lc_heap c ! p) := None), lc_evicted := ev\<rparr>)"
    using inv by (auto simp: lru_inv_def l distinct_map_filter)
qed

lemma lru_inv_touch:
  assumes inv: "lru_inv items c" and x: "(h, p) \<in> set (items (lc_lru c))"
    and l: "items l = filter (\<lambda>x. fst x \<noteq> h) (items (lc_lru c)) @ [(h, p)]"
    and e: "le_key e = le_key (lc_heap c ! p)"
  shows "lru_inv items (c\<lparr>lc_lru := l, lc_heap := (lc_heap c)[p := e]\<rparr>)"
    and "lru_view items (c\<lparr>lc_lru := l, lc_heap := (lc_heap c)[p := e]\<rparr>) = other_keys (le_key e) (lru_view items c) @ [e]"
proof -
  have same: "le_key (lc_heap c ! snd y) = le_key (lc_heap c ! p) \<longleftrightarrow> fst y = h" "snd y = p \<longleftrightarrow> fst y = h"
    if "y \<in> set (items (lc_lru c))" for y
    using lru_inv_same_key[OF inv that x] by simp_all
  have p: "p < length (lc_heap c)" using inv x by (fastforce simp: lru_inv_def)
  have "snd x \<noteq> p" if "x \<in> set (items (lc_lru c))" "fst x \<noteq> h" for x
    using same(2) that by simp
  then have "map (\<lambda>x. (lc_heap c)[p := e] ! snd x) (filter (\<lambda>x. fst x \<noteq> h) (items (lc_lru c)))
      = map (\<lambda>x. lc_heap c ! snd x) (filter (\<lambda>x. fst x \<noteq> h) (items (lc_lru c)))"
    by (intro map_cong refl nth_list_update_neq) (auto dest: not_sym)
  then show "lru_view items (c\<lparr>lc_lru := l, lc_heap := (lc_heap c)[p := e]\<rparr>) = other_keys (le_key e) (lru_view items c) @ [e]"
    using p by (simp add: lru_view_def l e filter_map comp_def same(1) cong: filter_cong)
  have keys: "le_key ((lc_heap c)[p := e] ! q) = le_key (lc_heap c ! q)" for q
    using e p by (cases "q = p") auto
  have "y = (h, p)" if "y \<in> set (items (lc_lru c))" "fst y = h" for y
    using same(2)[OF that(1)] that(2) by (simp add: prod_eq_iff)
  then have set_l: "set (items l) = set (items (lc_lru c))"
    unfolding l set_append set_filter list.set using x by blast
  have "p \<notin> snd ` set (filter (\<lambda>x. fst x \<noteq> h) (items (lc_lru c)))" using same(2) by force
  then have "distinct (map fst (items l))" "distinct (map snd (items l))"
    using inv unfolding l lru_inv_def by (auto simp: distinct_map_filter)
  then show "lru_inv items (c\<lparr>lc_lru := l, lc_heap := (lc_heap c)[p := e]\<rparr>)"
    using inv by (simp add: lru_inv_def set_l keys)
qed

lemma lru_inv_push:
  assumes inv: "lru_inv items c" and k: "lc_cache c (le_key e) = None"
    and l: "items l = items (lc_lru c) @ [(h, length (lc_heap c))]" "h \<notin> fst ` set (items (lc_lru c))"
  shows "lru_inv items (c\<lparr>lc_heap := lc_heap c @ [e], lc_cache := (lc_cache c)(le_key e \<mapsto> h), lc_lru := l\<rparr>)"
    and "lru_view items (c\<lparr>lc_heap := lc_heap c @ [e], lc_cache := (lc_cache c)(le_key e \<mapsto> h), lc_lru := l\<rparr>)
      = lru_view items c @ [e]"
proof -
  have old: "(lc_heap c @ [e]) ! snd x = lc_heap c ! snd x" if "x \<in> set (items (lc_lru c))" for x
    using inv that by (auto simp: lru_inv_def nth_append)
  then show "lru_view items (c\<lparr>lc_heap := lc_heap c @ [e], lc_cache := (lc_cache c)(le_key e \<mapsto> h), lc_lru := l\<rparr>)
      = lru_view items c @ [e]"
    by (simp add: lru_view_def l)
  have bound: "snd x < length (lc_heap c)" if "x \<in> set (items (lc_lru c))" for x
    using inv that by (simp add: lru_inv_def)
  have "((lc_cache c)(le_key e \<mapsto> h)) k' = Some h' \<longleftrightarrow>
      (\<exists>q. (h', q) \<in> set (items l) \<and> le_key ((lc_heap c @ [e]) ! q) = k')" for k' h'
  proof (cases "h' = h")
    case True
    have "lc_cache c k' \<noteq> Some h" using inv l(2) by (force simp: lru_inv_def)
    moreover have "(h, q) \<in> set (items l) \<longleftrightarrow> q = length (lc_heap c)" for q
      using l(2) by (auto simp: l(1) image_iff)
    ultimately show ?thesis using True by auto
  next
    case False
    have "(h', q) \<in> set (items l) \<and> le_key ((lc_heap c @ [e]) ! q) = k' \<longleftrightarrow>
        (h', q) \<in> set (items (lc_lru c)) \<and> le_key (lc_heap c ! q) = k'" for q
      using False old[of "(h', q)"] by (auto simp: l(1))
    moreover have "lc_cache c k' = Some h' \<longleftrightarrow>
        (\<exists>q. (h', q) \<in> set (items (lc_lru c)) \<and> le_key (lc_heap c ! q) = k')"
      using inv by (simp add: lru_inv_def)
    ultimately show ?thesis using False k by (cases "k' = le_key e") simp_all
  qed
  moreover have "distinct (map snd (items (lc_lru c) @ [(h, length (lc_heap c))]))"
    using inv bound by (fastforce simp: lru_inv_def)
  ultimately show "lru_inv items (c\<lparr>lc_heap := lc_heap c @ [e], lc_cache := (lc_cache c)(le_key e \<mapsto> h), lc_lru := l\<rparr>)"
    using inv l bound by (auto simp: lru_inv_def less_Suc_eq)
qed

section \<open>The operations refine the abstract ones\<close>

lemma find_key_other [simp]: "find_key k (other_keys k es) = None"
  by auto

lemma same_options_trans: "same_options a b \<Longrightarrow> same_options b c \<Longrightarrow> same_options a c"
  by (simp add: same_options_def)

lemma abs_expire_same: "same_options c c' \<Longrightarrow> abs_expire c' = abs_expire c"
  by (simp add: same_options_def abs_expire_def fun_eq_iff)

context linked_list
begin

lemma entry_at: "lru_inv items c \<Longrightarrow> (h, p) \<in> set (items (lc_lru c)) \<Longrightarrow> entry_at dl c h = lc_heap c ! p"
  by (simp add: entry_at_def lru_inv_def Value)

lemma deleteElement:
  assumes inv: "lru_inv items c" and x: "(h, p) \<in> set (items (lc_lru c))"
  shows "lru_inv items (deleteElement dl h c)"
    and "lru_view items (deleteElement dl h c) = other_keys (le_key (lc_heap c ! p)) (lru_view items c)"
    and "same_options c (deleteElement dl h c)"
proof -
  have l: "items (lo_Remove dl h (lc_lru c)) = filter (\<lambda>x. fst x \<noteq> h) (items (lc_lru c))"
    using x by (intro Remove) force
  note r = lru_inv_remove[OF inv x l]
  show "lru_inv items (deleteElement dl h c)"
    and "lru_view items (deleteElement dl h c) = other_keys (le_key (lc_heap c ! p)) (lru_view items c)"
    using r by (simp_all only: deleteElement_def Let_def entry_at[OF inv x])
  show "same_options c (deleteElement dl h c)"
    by (simp add: deleteElement_def Let_def same_options_def)
qed

text \<open>The least recently used element is at the front.\<close>

lemma front_delete:
  assumes inv: "lru_inv items c" and f: "lo_Front dl (lc_lru c) = Some h"
  shows "\<exists>e es. lru_view items c = e # es \<and> entry_at dl c h = e \<and> lru_inv items (deleteElement dl h c)
    \<and> lru_view items (deleteElement dl h c) = es \<and> same_options c (deleteElement dl h c)"
proof -
  from f obtain p xs where xs: "items (lc_lru c) = (h, p) # xs" by (auto simp: Front split: list.splits)
  then have x: "(h, p) \<in> set (items (lc_lru c))" by simp
  let ?e = "lc_heap c ! p" and ?es = "map (\<lambda>x. lc_heap c ! snd x) xs"
  have v: "lru_view items c = ?e # ?es" by (simp add: lru_view_def xs)
  then have "le_key ?e \<notin> le_key ` set ?es" using lru_inv_distinct[OF inv] by (simp add: image_image)
  then have "other_keys (le_key ?e) (lru_view items c) = ?es" by (simp add: v other_keys_id)
  then show ?thesis using v deleteElement[OF inv x] entry_at[OF inv x] by simp
qed

lemma front_None: "lo_Front dl (lc_lru c) = None \<longleftrightarrow> lru_view items c = []"
  by (simp add: Front lru_view_def split: list.split)

lemma oldest_loop:
  assumes "lru_inv items c" and "length (lru_view items c) \<le> n"
  shows "lru_inv items (oldest_loop dl now n c) \<and> same_options c (oldest_loop dl now n c)
    \<and> lru_view items (oldest_loop dl now n c) = dropWhile (\<lambda>e. le_expires e \<le> now) (lru_view items c)"
  using assms
proof (induction n arbitrary: c)
  case (Suc n)
  show ?case
  proof (cases "lo_Front dl (lc_lru c)")
    case None
    then show ?thesis using Suc.prems front_None[of c] by (simp add: same_options_def)
  next
    case (Some h)
    from front_delete[OF Suc.prems(1) Some] obtain e es where
      f: "lru_view items c = e # es" "entry_at dl c h = e" "lru_inv items (deleteElement dl h c)"
        "lru_view items (deleteElement dl h c) = es" "same_options c (deleteElement dl h c)" by blast
    then show ?thesis
      using Suc.IH[OF f(3)] Suc.prems Some same_options_trans[OF f(5)] by auto
  qed
qed (simp add: same_options_def)

lemma maybeDeleteOldest:
  assumes "lru_inv items c"
  shows "lru_inv items (maybeDeleteOldest dl now c) \<and> same_options c (maybeDeleteOldest dl now c)
    \<and> lru_view items (maybeDeleteOldest dl now c) = abs_expire c now (lru_view items c)"
  using assms oldest_loop[OF assms, of "lo_Len dl (lc_lru c)"]
  by (simp add: maybeDeleteOldest_def abs_expire_def Len lru_view_def)

lemma lru_touch:
  assumes inv: "lru_inv items c" and x: "(h, p) \<in> set (items (lc_lru c))" and e: "le_key e = le_key (lc_heap c ! p)"
  defines "c' \<equiv> c\<lparr>lc_lru := lo_MoveToBack dl h (lc_lru c), lc_heap := (lc_heap c)[p := e]\<rparr>"
  shows "lru_inv items c' \<and> same_options c c' \<and> lru_view items c' = other_keys (le_key e) (lru_view items c) @ [e]"
    and "p < length (lc_heap c)"
proof -
  have l: "items (lo_MoveToBack dl h (lc_lru c)) = filter (\<lambda>x. fst x \<noteq> h) (items (lc_lru c)) @ [(h, p)]"
    using inv x by (intro MoveToBack) (auto simp: lru_inv_def)
  show "lru_inv items c' \<and> same_options c c' \<and> lru_view items c' = other_keys (le_key e) (lru_view items c) @ [e]"
    using lru_inv_touch[OF inv x l e] by (simp add: c'_def same_options_def)
  show "p < length (lc_heap c)" using inv x by (fastforce simp: lru_inv_def)
qed

lemma setWithExpire:
  assumes inv: "lru_inv items c"
  shows "lru_inv items (setWithExpire dl now k v ex c) \<and> same_options c (setWithExpire dl now k v ex c)
    \<and> lru_view items (setWithExpire dl now k v ex c)
      = abs_expire c now (abs_push c \<lparr>le_key = k, le_value = v, le_expires = ex\<rparr> (lru_view items c))"
proof (cases "lc_cache c k")
  case None
  let ?e = "\<lparr>le_key = k, le_value = v, le_expires = ex\<rparr>"
  obtain h l where pb: "lo_PushBack dl (length (lc_heap c)) (lc_lru c) = (h, l)" by fastforce
  let ?c = "c\<lparr>lc_heap := lc_heap c @ [?e], lc_cache := (lc_cache c)(k \<mapsto> h), lc_lru := l\<rparr>"
  have k: "find_key k (lru_view items c) = None" using lru_lookup(1)[OF inv, of k] None by simp
  have c: "lru_inv items ?c" "lru_view items ?c = lru_view items c @ [?e]" "same_options c ?c"
    using lru_inv_push[OF inv, of ?e l h] None PushBack[OF pb] by (simp_all add: same_options_def)
  have len: "lo_Len dl l = Suc (length (lru_view items c))"
    using c(2) by (simp add: Len lru_view_def) (metis length_append_singleton length_map)
  show ?thesis
  proof (cases "lc_maxSize c > 0 \<and> int (lo_Len dl l) > lc_maxSize c")
    case True
    obtain h' where f: "lo_Front dl (lc_lru ?c) = Some h'"
      using c(2) front_None[of ?c] by (cases "lo_Front dl (lc_lru ?c)") auto
    from front_delete[OF c(1) f] have d: "lru_inv items (deleteElement dl h' ?c)"
      "lru_view items (deleteElement dl h' ?c) = tl (lru_view items c @ [?e])" "same_options c (deleteElement dl h' ?c)"
      using c(2,3) same_options_trans by auto
    have "setWithExpire dl now k v ex c = maybeDeleteOldest dl now (deleteElement dl h' ?c)"
      using True f by (simp add: setWithExpire_def None pb Let_def)
    then show ?thesis
      using maybeDeleteOldest[OF d(1), of now] d(2,3) k True len abs_expire_same[OF d(3)] same_options_trans[OF d(3)]
      by (simp add: abs_push_def)
  next
    case False
    then have "setWithExpire dl now k v ex c = maybeDeleteOldest dl now ?c"
      by (auto simp: setWithExpire_def None pb Let_def)
    then show ?thesis
      using maybeDeleteOldest[OF c(1), of now] c(2,3) k False len abs_expire_same[OF c(3)] same_options_trans[OF c(3)]
      by (auto simp: abs_push_def other_keys_id)
  qed
next
  case (Some h)
  then obtain p where x: "(h, p) \<in> set (items (lc_lru c))" "le_key (lc_heap c ! p) = k"
      "find_key k (lru_view items c) = Some (lc_heap c ! p)"
    using lru_lookup(2)[OF inv Some] by blast
  let ?e = "(lc_heap c ! p)\<lparr>le_value := v, le_expires := ex\<rparr>"
  have e: "?e = \<lparr>le_key = k, le_value = v, le_expires = ex\<rparr>" using x(2) by (cases "lc_heap c ! p") simp
  let ?c = "c\<lparr>lc_lru := lo_MoveToBack dl h (lc_lru c), lc_heap := (lc_heap c)[p := ?e]\<rparr>"
  have v: "lo_Value dl (lc_lru c) h = p" using inv x(1) by (simp add: lru_inv_def Value)
  have t: "lru_inv items ?c" "same_options c ?c" "lru_view items ?c = other_keys k (lru_view items c) @ [?e]"
    using lru_touch(1)[OF inv x(1), of ?e] x(2) by simp_all
  have "setWithExpire dl now k v ex c = maybeDeleteOldest dl now ?c"
    by (simp add: setWithExpire_def Some v Let_def)
  then show ?thesis
    using maybeDeleteOldest[OF t(1), of now] t(2,3) x(3) abs_expire_same[OF t(2)] same_options_trans[OF t(2)]
    by (simp add: abs_push_def e)
qed

end

text \<open>Adding an element for an entry that is already in the heap, as \<open>CloneTo\<close> does.\<close>

lemma lru_inv_adopt:
  assumes inv: "lru_inv items n" and p: "p < length (lc_heap n)" "p \<notin> snd ` set (items (lc_lru n))"
    and k: "lc_cache n (le_key (lc_heap n ! p)) = None"
    and l: "items l = items (lc_lru n) @ [(h, p)]" "h \<notin> fst ` set (items (lc_lru n))"
  shows "lru_inv items (n\<lparr>lc_cache := (lc_cache n)(le_key (lc_heap n ! p) \<mapsto> h), lc_lru := l\<rparr>)"
proof -
  have "((lc_cache n)(le_key (lc_heap n ! p) \<mapsto> h)) k' = Some h' \<longleftrightarrow>
      (\<exists>q. (h', q) \<in> set (items l) \<and> le_key (lc_heap n ! q) = k')" for k' h'
  proof (cases "h' = h")
    case True
    have "lc_cache n k' \<noteq> Some h" using inv l(2) by (force simp: lru_inv_def)
    moreover have "(h, q) \<in> set (items l) \<longleftrightarrow> q = p" for q using l(2) by (auto simp: l(1) image_iff)
    ultimately show ?thesis using True by auto
  next
    case False
    have "lc_cache n k' = Some h' \<longleftrightarrow> (\<exists>q. (h', q) \<in> set (items (lc_lru n)) \<and> le_key (lc_heap n ! q) = k')"
      using inv by (simp add: lru_inv_def)
    then show ?thesis using False k by (cases "k' = le_key (lc_heap n ! p)") (simp_all add: l(1))
  qed
  then show ?thesis using inv l p by (auto simp: lru_inv_def)
qed

context linked_list
begin

lemma lru_get:
  assumes inv: "lru_inv items c" and g: "lru_get dl t1 t2 k c = (r, c')"
  shows "lru_inv items c' \<and> same_options c c'
    \<and> (map_option (\<lambda>p. lc_heap c' ! p) r, lru_view items c') = abs_get c t1 t2 k (lru_view items c)"
proof (cases "lc_cache c k")
  case None
  then have "find_key k (lru_view items c) = None" using lru_lookup(1)[OF inv, of k] by simp
  then show ?thesis using inv g None by (auto simp: lru_get_def abs_get_def simp del: find_key_None)
next
  case (Some h)
  then obtain p where x: "(h, p) \<in> set (items (lc_lru c))" "le_key (lc_heap c ! p) = k"
      "find_key k (lru_view items c) = Some (lc_heap c ! p)"
    using lru_lookup(2)[OF inv Some] by blast
  note d = deleteElement[OF inv x(1)] and entry = entry_at[OF inv x(1)]
  have v: "lo_Value dl (lc_lru c) h = p" using inv x(1) by (simp add: lru_inv_def Value)
  show ?thesis
  proof (cases "\<not> lc_staleReturn c \<and> lc_maxAge c > 0 \<and> le_expires (lc_heap c ! p) \<le> t1")
    case True
    then have "r = None" "c' = maybeDeleteOldest dl t2 (deleteElement dl h c)"
      using g by (simp_all add: lru_get_def Some entry)
    then show ?thesis
      using maybeDeleteOldest[OF d(1), of t2] d(2,3) True x same_options_trans[OF d(3)] abs_expire_same[OF d(3)]
      by (simp add: abs_get_def)
  next
    case False
    define e where "e = (if lc_maxAge c > 0 \<and> lc_updateAgeOnGet c
      then (lc_heap c ! p)\<lparr>le_expires := t2 + lc_maxAge c\<rparr> else lc_heap c ! p)"
    have t: "p < length (lc_heap c)" "le_key e = k" using lru_touch(2)[OF inv x(1) refl] x(2) by (simp_all add: e_def)
    have "r = Some p" "c' = c\<lparr>lc_lru := lo_MoveToBack dl h (lc_lru c), lc_heap := (lc_heap c)[p := e]\<rparr>"
      using g False by (auto simp: lru_get_def Some entry v Let_def e_def)
    moreover have "abs_get c t1 t2 k (lru_view items c) = (Some e, other_keys k (lru_view items c) @ [e])"
      using False x(3) by (auto simp: abs_get_def e_def Let_def)
    ultimately show ?thesis
      using lru_touch(1)[OF inv x(1), of e] x(2) t by simp
  qed
qed

lemma lru_Get:
  assumes inv: "lru_inv items c" and "lru_Get dl t1 t2 k c = (r, c')"
  shows "lru_inv items c' \<and> same_options c c'
    \<and> (r, lru_view items c') = map_prod (map_option le_value) id (abs_get c t1 t2 k (lru_view items c))"
proof -
  obtain p c1 where g: "lru_get dl t1 t2 k c = (p, c1)" by fastforce
  have "r = map_option (\<lambda>p. le_value (lc_heap c1 ! p)) p \<and> c' = c1"
    using assms(2) g by (cases p) (auto simp: lru_Get_def)
  then show ?thesis
    using lru_get[OF inv g] by (cases "abs_get c t1 t2 k (lru_view items c)") (auto simp: option.map_comp comp_def)
qed

lemma lru_Delete:
  assumes inv: "lru_inv items c"
  shows "lru_inv items (lru_Delete dl k c) \<and> same_options c (lru_Delete dl k c)
    \<and> lru_view items (lru_Delete dl k c) = other_keys k (lru_view items c)"
proof (cases "lc_cache c k")
  case None
  then show ?thesis using inv lru_lookup(1)[OF inv, of k] by (simp add: lru_Delete_def other_keys_id)
next
  case (Some h)
  with lru_lookup(2)[OF inv Some] deleteElement[OF inv] show ?thesis by (auto simp: lru_Delete_def)
qed

lemma lru_Clear: "lru_inv items (lru_Clear dl c) \<and> same_options c (lru_Clear dl c) \<and> lru_view items (lru_Clear dl c) = []"
  by (simp add: lru_Clear_def lru_inv_def lru_view_def New same_options_def)

lemma lru_New: "lru_inv items (lru_New dl a m u s e) \<and> lru_view items (lru_New dl a m u s e) = []"
  by (simp add: lru_New_def lru_inv_def lru_view_def New)

lemma clone_loop:
  assumes inv: "lru_inv items c" and "items (lc_lru c) = xs @ ys" "length ys \<le> k"
    and "e = (case ys of [] \<Rightarrow> None | y # _ \<Rightarrow> Some (fst y))"
    and "lru_inv items n" "lc_heap n = lc_heap c" "map snd (items (lc_lru n)) = map snd xs"
  shows "lru_inv items (clone_loop dl c k e n) \<and> same_options n (clone_loop dl c k e n)
    \<and> lc_heap (clone_loop dl c k e n) = lc_heap c
    \<and> map snd (items (lc_lru (clone_loop dl c k e n))) = map snd (items (lc_lru c))"
  using assms(2-)
proof (induction k arbitrary: xs ys e n)
  case (Suc k)
  show ?case
  proof (cases ys)
    case Nil
    then show ?thesis using Suc.prems by simp
  next
    case (Cons y zs)
    obtain h p where y: "y = (h, p)" by fastforce
    have x: "(h, p) \<in> set (items (lc_lru c))" using Suc.prems(1) Cons y by simp
    obtain h' l where pb: "lo_PushBack dl p (lc_lru n) = (h', l)" by fastforce
    let ?n = "n\<lparr>lc_cache := (lc_cache n)(le_key (lc_heap n ! p) \<mapsto> h'), lc_lru := l\<rparr>"
    have fresh: "p \<notin> snd ` set xs" "p < length (lc_heap c)"
    proof -
      have "distinct (map snd (items (lc_lru c)))" using inv by (simp add: lru_inv_def)
      then show "p \<notin> snd ` set xs" by (simp add: Suc.prems(1) Cons y)
      show "p < length (lc_heap c)" using inv x by (fastforce simp: lru_inv_def)
    qed
    have "le_key (lc_heap c ! p) \<notin> (\<lambda>x. le_key (lc_heap c ! snd x)) ` set xs"
      using lru_inv_distinct[OF inv] unfolding lru_view_def Suc.prems(1) Cons y by (simp add: image_image)
    moreover have "(\<lambda>x. le_key (lc_heap c ! snd x)) ` set xs = le_key ` set (lru_view items n)"
      using arg_cong[OF Suc.prems(6), of "\<lambda>zs. (\<lambda>q. le_key (lc_heap c ! q)) ` set zs"]
      by (simp add: lru_view_def Suc.prems(5) image_image)
    ultimately have k: "lc_cache n (le_key (lc_heap n ! p)) = None"
      using lru_lookup(1)[OF Suc.prems(4)] Suc.prems(5) by simp
    have "snd ` set xs = snd ` set (items (lc_lru n))" using Suc.prems(6) by (metis list.set_map)
    then have inv': "lru_inv items ?n"
      using lru_inv_adopt[OF Suc.prems(4), of p l h'] PushBack[OF pb] fresh k Suc.prems(5) by simp
    have next': "lo_Next dl (lc_lru c) h = (case zs of [] \<Rightarrow> None | z # _ \<Rightarrow> Some (fst z))"
      using inv Suc.prems(1) unfolding Cons y by (intro Next) (auto simp: lru_inv_def)
    have step: "clone_loop dl c (Suc k) e n = clone_loop dl c k (lo_Next dl (lc_lru c) h) ?n"
      using Suc.prems(3) x inv pb entry_at[OF inv x] Suc.prems(5)
      by (simp add: Cons y lru_inv_def Value)
    have "same_options n ?n" by (simp add: same_options_def)
    then show ?thesis
      using Suc.IH[of "xs @ [y]" zs "lo_Next dl (lc_lru c) h" ?n] Suc.prems inv' next' PushBack[OF pb] step
        same_options_trans[of n ?n]
      by (simp add: Cons y)
  qed
qed simp

lemma lru_CloneTo:
  assumes inv: "lru_inv items c"
  shows "lru_inv items (lru_CloneTo dl c n) \<and> same_options n (lru_CloneTo dl c n)
    \<and> lru_view items (lru_CloneTo dl c n) = lru_view items c"
proof -
  let ?n = "n\<lparr>lc_lru := lo_New dl, lc_cache := (\<lambda>_. None), lc_heap := lc_heap c\<rparr>"
  have n: "lru_inv items ?n" "same_options n ?n" by (simp_all add: lru_inv_def New same_options_def)
  have "lru_inv items (lru_CloneTo dl c n) \<and> same_options ?n (lru_CloneTo dl c n)
    \<and> lc_heap (lru_CloneTo dl c n) = lc_heap c
    \<and> map snd (items (lc_lru (lru_CloneTo dl c n))) = map snd (items (lc_lru c))"
    unfolding lru_CloneTo_def
    by (rule clone_loop[OF inv, of "[]" "items (lc_lru c)"]) (use n(1) in \<open>auto simp: Len Front New split: list.split\<close>)
  moreover have "lru_view items d = map (\<lambda>q. lc_heap d ! q) (map snd (items (lc_lru d)))" for d :: "('l, 'h, 'k, 'v) lru_cache"
    by (simp add: lru_view_def)
  ultimately show ?thesis using same_options_trans[OF n(2)] by metis
qed

end

section \<open>A list that satisfies the contract\<close>

text \<open>Elements are numbered, and a new element gets a number above all others.\<close>

definition hlist_ops :: "((nat \<times> nat) list, nat) list_ops" where
  "hlist_ops = \<lparr>lo_New = [],
     lo_PushBack = (\<lambda>p l. let h = Suc (foldr max (map fst l) 0) in (h, l @ [(h, p)])),
     lo_MoveToBack = (\<lambda>h l. case map_of l h of Some p \<Rightarrow> filter (\<lambda>x. fst x \<noteq> h) l @ [(h, p)] | None \<Rightarrow> l),
     lo_Remove = (\<lambda>h l. filter (\<lambda>x. fst x \<noteq> h) l),
     lo_Front = (\<lambda>l. case l of [] \<Rightarrow> None | x # _ \<Rightarrow> Some (fst x)),
     lo_Next = (\<lambda>l h. case dropWhile (\<lambda>x. fst x \<noteq> h) l of _ # y # _ \<Rightarrow> Some (fst y) | _ \<Rightarrow> None),
     lo_Value = (\<lambda>l h. case map_of l h of Some p \<Rightarrow> p | None \<Rightarrow> 0),
     lo_Len = length\<rparr>"

lemma foldr_max_ge: "x \<in> set xs \<Longrightarrow> x \<le> foldr max xs (0 :: nat)"
  by (induction xs) auto

interpretation hl: linked_list hlist_ops "\<lambda>l. l"
proof unfold_locales
  fix p l h l' assume "lo_PushBack hlist_ops p l = (h, l')"
  then show "l' = l @ [(h, p)] \<and> h \<notin> fst ` set l"
    using foldr_max_ge[of "Suc (foldr max (map fst l) 0)" "map fst l"] by (auto simp: hlist_ops_def Let_def)
next
  fix l :: "(nat \<times> nat) list" and xs h p ys
  assume d: "distinct (map fst l)" and l: "l = xs @ (h, p) # ys"
  then have "dropWhile (\<lambda>x. fst x \<noteq> h) l = (h, p) # ys"
    by (induction xs arbitrary: l) auto
  then show "lo_Next hlist_ops l h = (case ys of [] \<Rightarrow> None | y # _ \<Rightarrow> Some (fst y))"
    by (simp add: hlist_ops_def split: list.split)
qed (auto simp: hlist_ops_def split: list.split option.split)

section \<open>Properties\<close>

text \<open>
  C25: reading the cache is the abstract read on the entries in order of use: it finds the entry
  with the key unless it is too old, makes it the most recently used, and drops what is too old otherwise.
\<close>

theorem lru_Get_refines:
  assumes "linked_list dl items" and "lru_inv items c" and "lru_Get dl t1 t2 k c = (r, c')"
  shows "lru_inv items c' \<and>
    (r, lru_view items c') = map_prod (map_option le_value) id (abs_get c t1 t2 k (lru_view items c))"
  using linked_list.lru_Get[OF assms] by simp

definition demo_lru :: "((nat \<times> nat) list, nat, string, nat) lru_cache" where
  "demo_lru = lru_set hlist_ops 1 1 ''b'' 8 (lru_set hlist_ops 0 0 ''a'' 7 (lru_New hlist_ops 10 2 False False False))"

lemma demo_lru_inv: "lru_inv (\<lambda>l. l) demo_lru"
  by (simp add: demo_lru_def lru_set_def hl.setWithExpire hl.lru_New)

theorem lru_Get_refines_witness:
  "fst (lru_Get hlist_ops 5 5 ''a'' demo_lru) = Some 7 \<and> lru_inv (\<lambda>l. l) (snd (lru_Get hlist_ops 5 5 ''a'' demo_lru))"
proof
  show "fst (lru_Get hlist_ops 5 5 ''a'' demo_lru) = Some 7" by code_simp
  show "lru_inv (\<lambda>l. l) (snd (lru_Get hlist_ops 5 5 ''a'' demo_lru))"
    using lru_Get_refines[OF hl.linked_list_axioms demo_lru_inv prod.collapse[symmetric]] by blast
qed

text \<open>
  Everything that can happen to a cache made with the options \<open>a m u s e\<close> (age, size, update of the age, stale reads,
  evict callback). The last index but one is the largest size limit among its own and those of the caches whose
  entries \<open>CloneTo\<close> has given it. \<open>CloneTo\<close> makes two caches share their entries; what the other one does to
  them is \<open>shared\<close>: values and expiries change, keys never do.
\<close>

definition size_limit :: "int \<Rightarrow> enat" where
  "size_limit m = (if m > 0 then enat (nat m) else \<infinity>)"

inductive lru_reachable ::
  "('l, 'h) list_ops \<Rightarrow> int \<Rightarrow> int \<Rightarrow> bool \<Rightarrow> bool \<Rightarrow> bool \<Rightarrow> enat \<Rightarrow> ('l, 'h, 'k, 'v) lru_cache \<Rightarrow> bool"
  for dl
where
  start: "lru_reachable dl a m u s e (size_limit m) (lru_New dl a m u s e)"
| clear: "lru_reachable dl a m u s e b c \<Longrightarrow> lru_reachable dl a m u s e b (lru_Clear dl c)"
| get: "lru_reachable dl a m u s e b c \<Longrightarrow> lru_reachable dl a m u s e b (snd (lru_get dl t1 t2 k c))"
| put: "lru_reachable dl a m u s e b c \<Longrightarrow> lru_reachable dl a m u s e b (setWithExpire dl t k v ex c)"
| del: "lru_reachable dl a m u s e b c \<Longrightarrow> lru_reachable dl a m u s e b (lru_Delete dl k c)"
| clone: "lru_reachable dl a m u s e b c \<Longrightarrow> lru_reachable dl a' m' u' s' e' b' n \<Longrightarrow>
    lru_reachable dl a' m' u' s' e' (max (size_limit m') b) (lru_CloneTo dl c n)"
| shared: "lru_reachable dl a m u s e b c \<Longrightarrow> map le_key es = map le_key (lc_heap c) \<Longrightarrow>
    lru_reachable dl a m u s e b (c\<lparr>lc_heap := es\<rparr>)"

text \<open>The operations made of these.\<close>

lemma reachable_set: "lru_reachable dl a m u s e b c \<Longrightarrow> lru_reachable dl a m u s e b (lru_set dl t1 t2 k v c)"
  unfolding lru_set_def by (rule lru_reachable.put)

lemma reachable_Get: "lru_reachable dl a m u s e b c \<Longrightarrow> lru_reachable dl a m u s e b (snd (lru_Get dl t1 t2 k c))"
  using lru_reachable.get[of dl a m u s e b c t1 t2 k] by (auto simp: lru_Get_def split: prod.splits option.splits)

lemma reachable_GetWithExpire:
  "lru_reachable dl a m u s e b c \<Longrightarrow> lru_reachable dl a m u s e b (snd (lru_GetWithExpire dl t1 t2 k c))"
  using lru_reachable.get[of dl a m u s e b c t1 t2 k] by (auto simp: lru_GetWithExpire_def split: prod.splits option.splits)

lemma reachable_GetOrStore:
  "lru_reachable dl a m u s e b c \<Longrightarrow> lru_reachable dl a m u s e b (snd (lru_GetOrStore dl t1 t2 t3 t4 k v c))"
  using lru_reachable.get[of dl a m u s e b c t1 t2 k]
  by (auto simp: lru_GetOrStore_def intro: reachable_set split: prod.splits option.splits)

lemma reachable_Compute:
  "lru_reachable dl a m u s e b c \<Longrightarrow> lru_reachable dl a m u s e b (snd (lru_Compute dl t1 t2 t3 t4 k f c))"
  using lru_reachable.get[of dl a m u s e b c t1 t2 k]
  by (auto simp: lru_Compute_def intro: reachable_set lru_reachable.del split: prod.splits option.splits)

lemma lru_New_maxSize: "lc_maxSize (lru_New dl a m u s e) = m"
  by (simp add: lru_New_def)

lemma abs_push_length:
  assumes "enat (length es) \<le> b" and "size_limit (lc_maxSize c) \<le> b"
  shows "enat (length (abs_push c e es)) \<le> b"
proof (cases "le_key e \<in> le_key ` set es")
  case True
  then obtain e' where "e' \<in> set es" "le_key e' = le_key e" by auto
  then have "length (other_keys (le_key e) es) < length es"
    by (intro length_filter_less[of e']) auto
  then have "length (abs_push c e es) \<le> length es" using True by (simp add: abs_push_def)
  then show ?thesis using assms(1) order_trans enat_ord_simps(1) by blast
next
  case False
  show ?thesis
  proof (cases "lc_maxSize c > 0 \<and> int (length es) + 1 > lc_maxSize c")
    case True
    then show ?thesis using False assms(1) by (simp add: abs_push_def)
  next
    case small: False
    then have "enat (Suc (length es)) \<le> size_limit (lc_maxSize c)" by (auto simp: size_limit_def)
    then have "enat (Suc (length es)) \<le> b" using assms(2) by (rule order_trans)
    moreover have "length (abs_push c e es) = Suc (length es)" using False small by (auto simp: abs_push_def other_keys_id)
    ultimately show ?thesis by simp
  qed
qed

lemma abs_expire_length: "length (abs_expire c now es) \<le> length es"
  by (simp add: abs_expire_def length_dropWhile_le)

lemma abs_get_length: "length (snd (abs_get c t1 t2 k es)) \<le> length es"
proof (cases "find_key k es")
  case (Some e)
  then have "e \<in> set es \<and> le_key e = k" by (auto simp: find_key_def find_Some_iff)
  then have "length (other_keys k es) < length es" by (intro length_filter_less) auto
  then show ?thesis
    using abs_expire_length[of c t2 "other_keys k es"] by (auto simp: abs_get_def Some Let_def)
qed (simp add: abs_get_def del: find_key_None)

lemma shared_view:
  assumes "lru_inv items c" and "map le_key es = map le_key (lc_heap c)"
  shows "lru_inv items (c\<lparr>lc_heap := es\<rparr>) \<and> length (lru_view items (c\<lparr>lc_heap := es\<rparr>)) = length (lru_view items c)"
proof -
  have len: "length es = length (lc_heap c)" using assms(2) by (rule map_eq_imp_length_eq)
  have key: "le_key (es ! p) = le_key (lc_heap c ! p)" if "p < length (lc_heap c)" for p
    using assms(2) that len by (metis nth_map)
  have "(h, p) \<in> set (items (lc_lru c)) \<and> le_key (es ! p) = k \<longleftrightarrow> (h, p) \<in> set (items (lc_lru c)) \<and> le_key (lc_heap c ! p) = k"
    for h p k using assms(1) key[of p] by (auto simp: lru_inv_def)
  then show ?thesis using assms(1) by (simp add: lru_inv_def lru_view_def len)
qed

text \<open>
  C26: a cache never holds more entries than the largest size limit among its own and those of the caches
  whose entries \<open>CloneTo\<close> has given it (so than its own limit, when nothing was cloned into it), never two with
  the same key, and its map and its list always name the same entries, whatever operations run in whatever
  order, also when caches share entries after \<open>CloneTo\<close>.
\<close>

theorem lru_bounded:
  assumes "linked_list dl items" and "lru_reachable dl a m u s e b c"
  shows "lru_inv items c \<and> distinct (map le_key (lru_view items c)) \<and> enat (length (lru_view items c)) \<le> b \<and>
    lc_maxSize c = m \<and> size_limit m \<le> b"
proof -
  have le: "k \<le> l \<Longrightarrow> enat l \<le> x \<Longrightarrow> enat k \<le> x" for k l x by (meson enat_ord_simps(1) order_trans)
  from assms(2) have "lru_inv items c \<and> lc_maxSize c = m \<and> size_limit m \<le> b \<and> enat (length (lru_view items c)) \<le> b"
  proof induction
    case (start a m u s e)
    show ?case by (simp add: linked_list.lru_New[OF assms(1)] lru_New_maxSize flip: zero_enat_def)
  next
    case (clear a m u s e b c)
    then show ?case using linked_list.lru_Clear[OF assms(1), of c] by (simp add: same_options_def flip: zero_enat_def)
  next
    case (get a m u s e b c t1 t2 k)
    obtain r c' where g: "lru_get dl t1 t2 k c = (r, c')" by fastforce
    have "length (lru_view items c') \<le> length (lru_view items c)"
      using linked_list.lru_get[OF assms(1) _ g] get.IH abs_get_length[of c t1 t2 k "lru_view items c"]
      by (metis snd_conv)
    then show ?case using linked_list.lru_get[OF assms(1) _ g] get.IH g le by (simp add: same_options_def)
  next
    case (put a m u s e b c t k v ex)
    let ?es = "abs_push c \<lparr>le_key = k, le_value = v, le_expires = ex\<rparr> (lru_view items c)"
    have "enat (length ?es) \<le> b" using put.IH by (intro abs_push_length) simp_all
    then show ?case
      using linked_list.setWithExpire[OF assms(1), of c t k v ex] put.IH le[OF abs_expire_length[of c t ?es]]
      by (simp add: same_options_def)
  next
    case (del a m u s e b c k)
    have "length (other_keys k (lru_view items c)) \<le> length (lru_view items c)" by simp
    from le[OF this, of b] show ?case
      using linked_list.lru_Delete[OF assms(1), of c k] del.IH by (simp add: same_options_def)
  next
    case (clone a m u s e b c a' m' u' s' e' b' n)
    then show ?case
      using linked_list.lru_CloneTo[OF assms(1), of c n] by (simp add: same_options_def le_max_iff_disj)
  next
    case (shared a m u s e b c es)
    then show ?case using shared_view[of items c es] by simp
  qed
  then show ?thesis using lru_inv_distinct by blast
qed

definition demo_clone :: "((nat \<times> nat) list, nat, string, nat) lru_cache" where
  "demo_clone = lru_CloneTo hlist_ops demo_lru (lru_New hlist_ops 10 1 False False False)"

theorem lru_bounded_witness:
  "enat (length (lru_view (\<lambda>l. l) demo_lru)) \<le> 2 \<and> enat (length (lru_view (\<lambda>l. l) demo_clone)) \<le> 2"
proof -
  have 1: "lru_reachable hlist_ops 10 2 False False False (size_limit 2) demo_lru"
    unfolding demo_lru_def by (intro reachable_set lru_reachable.start)
  have "lru_reachable hlist_ops 10 1 False False False (max (size_limit 1) (size_limit 2)) demo_clone"
    unfolding demo_clone_def by (rule lru_reachable.clone[OF 1 lru_reachable.start])
  from lru_bounded[OF hl.linked_list_axioms 1] lru_bounded[OF hl.linked_list_axioms this]
  show ?thesis by (simp add: size_limit_def numeral_eq_enat)
qed

text \<open>
  \<open>CloneTo\<close> does not look at the size limit of its target: cloned into a cache for one entry, a cache of two entries
  leaves two there.
\<close>

theorem clone_exceeds_limit: "lc_maxSize demo_clone = 1 \<and> length (lru_view (\<lambda>l. l) demo_clone) = 2"
  by code_simp

end
