(* ===== verification/FakeIP.thy ===== *)
theory FakeIP imports LruProps NetIP begin

text \<open>
  component/fakeip: the pool that gives each host name a fake address and finds the name again. The
  pool works over a store, an interface in the code and the record \<open>store_ops\<close> here, with two
  implementations: two LRU caches (memory.go), and one bucket of the cache file, in which names and
  addresses are keys alike (cachefile.go over component/profile/cachefile/fakeip.go). The
  last address of a prefix comes from the package netipx and is an argument.
\<close>

section \<open>pool.go\<close>

datatype flush_result = Flushed | FlushPanics

record 's store_ops =
  so_GetByHost :: "string \<Rightarrow> 's \<Rightarrow> addr option \<times> 's"
  so_PutByHost :: "string \<Rightarrow> addr \<Rightarrow> 's \<Rightarrow> 's"
  so_GetByIP :: "addr \<Rightarrow> 's \<Rightarrow> string option \<times> 's"
  so_PutByIP :: "addr \<Rightarrow> string \<Rightarrow> 's \<Rightarrow> 's"
  so_DelByIP :: "addr \<Rightarrow> 's \<Rightarrow> 's"
  so_Exist :: "addr \<Rightarrow> 's \<Rightarrow> bool"
  so_CloneTo :: "'s \<Rightarrow> 's \<Rightarrow> 's"
  so_FlushFakeIP :: "'s \<Rightarrow> flush_result \<times> 's"

record 's pool =
  p_gateway :: addr
  p_first :: addr
  p_last :: addr
  p_offset :: addr
  p_cycle :: bool
  p_ipnet :: prefix
  p_store :: 's

text \<open>The address of the next host: the one after the last, or again the first of the pool.\<close>

definition pool_get :: "'s store_ops \<Rightarrow> string \<Rightarrow> 's pool \<Rightarrow> addr \<times> 's pool" where
  "pool_get so host p =
     (let p1 = p\<lparr>p_offset := addr_Next (p_offset p)\<rparr>;
          p2 = (if \<not> addr_Less (p_offset p1) (p_last p1)
                then p1\<lparr>p_cycle := True, p_offset := p_first p1\<rparr> else p1);
          p3 = (if p_cycle p2 \<or> so_Exist so (p_offset p2) (p_store p2)
                then p2\<lparr>p_store := so_DelByIP so (p_offset p2) (p_store p2)\<rparr> else p2)
      in (p_offset p3, p3\<lparr>p_store := so_PutByIP so (p_offset p3) host (p_store p3)\<rparr>))"

definition pool_Lookup :: "'s store_ops \<Rightarrow> string \<Rightarrow> 's pool \<Rightarrow> addr \<times> 's pool" where
  "pool_Lookup so name p =
     (let host = ToLower name in
      case so_GetByHost so host (p_store p) of
        (Some ip, s) \<Rightarrow> (ip, p\<lparr>p_store := s\<rparr>)
      | (None, s) \<Rightarrow>
          (case pool_get so host (p\<lparr>p_store := s\<rparr>) of
             (ip, p1) \<Rightarrow> (ip, p1\<lparr>p_store := so_PutByHost so host ip (p_store p1)\<rparr>)))"

definition pool_LookBack :: "'s store_ops \<Rightarrow> addr \<Rightarrow> 's pool \<Rightarrow> string option \<times> 's pool" where
  "pool_LookBack so ip p = (case so_GetByIP so ip (p_store p) of (r, s) \<Rightarrow> (r, p\<lparr>p_store := s\<rparr>))"

definition pool_Exist :: "'s store_ops \<Rightarrow> addr \<Rightarrow> 's pool \<Rightarrow> bool" where
  "pool_Exist so ip p = so_Exist so ip (p_store p)"

definition pool_CloneFrom :: "'s store_ops \<Rightarrow> 's pool \<Rightarrow> 's pool \<Rightarrow> 's pool" where
  "pool_CloneFrom so old p = p\<lparr>p_store := so_CloneTo so (p_store old) (p_store p)\<rparr>"

text \<open>\<open>FlushFakeIP\<close>: how it ended, and the pool.\<close>

definition pool_FlushFakeIP :: "'s store_ops \<Rightarrow> 's pool \<Rightarrow> flush_result \<times> 's pool" where
  "pool_FlushFakeIP so p =
     (case so_FlushFakeIP so (p_store p) of
        (Flushed, s) \<Rightarrow> (Flushed, p\<lparr>p_store := s, p_cycle := False, p_offset := addr_Prev (p_first p)\<rparr>)
      | (r, s) \<Rightarrow> (r, p\<lparr>p_store := s\<rparr>))"

definition offsetKey :: string where
  "offsetKey = ''key-offset-fake-ip''"

definition cycleKey :: string where
  "cycleKey = ''key-cycle-fake-ip''"

text \<open>The two functions act on a pool over the cache file only (\<open>persistent\<close>).\<close>

definition pool_StoreState :: "'s store_ops \<Rightarrow> bool \<Rightarrow> 's pool \<Rightarrow> 's pool" where
  "pool_StoreState so persistent p =
     (if persistent then
        let s = so_PutByHost so offsetKey (p_offset p) (p_store p) in
        p\<lparr>p_store := (if p_cycle p then so_PutByHost so cycleKey (p_offset p) s else s)\<rparr>
      else p)"

definition pool_restoreState :: "'s store_ops \<Rightarrow> bool \<Rightarrow> 's pool \<Rightarrow> 's pool" where
  "pool_restoreState so persistent p =
     (if persistent then
        (case so_GetByHost so cycleKey (p_store p) of (c, s) \<Rightarrow>
         let p1 = p\<lparr>p_store := s, p_cycle := (if c \<noteq> None then True else p_cycle p)\<rparr> in
         (case so_GetByHost so offsetKey (p_store p1) of
            (Some offset, s) \<Rightarrow>
              if pfx_Contains (p_ipnet p1) offset then p1\<lparr>p_store := s, p_offset := offset\<rparr>
              else snd (pool_FlushFakeIP so (p1\<lparr>p_store := s\<rparr>))
          | (None, s) \<Rightarrow>
              if so_Exist so (p_first p1) s then snd (pool_FlushFakeIP so (p1\<lparr>p_store := s\<rparr>))
              else p1\<lparr>p_store := s\<rparr>))
      else p)"

text \<open>\<open>New\<close> with the store it makes for its options; \<open>None\<close> is the error for a prefix that is too small.\<close>

definition pool_New ::
  "(prefix \<Rightarrow> addr) \<Rightarrow> 's store_ops \<Rightarrow> bool \<Rightarrow> prefix \<Rightarrow> 's \<Rightarrow> 's pool option"
where
  "pool_New PrefixLastIP so persistent ipnet store =
     (let hostAddr = pfx_addr (pfx_Masked ipnet);
          gateway = addr_Next hostAddr;
          first = addr_Next (addr_Next (addr_Next gateway));
          last = PrefixLastIP ipnet in
      if \<not> pfx_IsValid ipnet \<or> \<not> IsValid first \<or> \<not> addr_Less first last then None
      else Some (pool_restoreState so persistent
        \<lparr>p_gateway = gateway, p_first = first, p_last = last, p_offset = addr_Prev first,
         p_cycle = False, p_ipnet = ipnet, p_store = store\<rparr>))"

section \<open>memory.go\<close>

text \<open>The caches have a size and no age, so they never read the clock.\<close>

record ('l, 'h) memory_store =
  ms_cacheIP :: "('l, 'h, string, addr) lru_cache"
  ms_cacheHost :: "('l, 'h, addr, string) lru_cache"

definition newMemoryStore :: "('l, 'h) list_ops \<Rightarrow> int \<Rightarrow> ('l, 'h) memory_store" where
  "newMemoryStore dl maxSize =
     \<lparr>ms_cacheIP = lru_New dl 0 maxSize False False False, ms_cacheHost = lru_New dl 0 maxSize False False False\<rparr>"

definition mem_GetByHost ::
  "('l, 'h) list_ops \<Rightarrow> string \<Rightarrow> ('l, 'h) memory_store \<Rightarrow> addr option \<times> ('l, 'h) memory_store"
where
  "mem_GetByHost dl host m =
     (case lru_Get dl 0 0 host (ms_cacheIP m) of
        (Some ip, c) \<Rightarrow> (Some ip, m\<lparr>ms_cacheIP := c, ms_cacheHost := snd (lru_Get dl 0 0 ip (ms_cacheHost m))\<rparr>)
      | (None, c) \<Rightarrow> (None, m\<lparr>ms_cacheIP := c\<rparr>))"

definition mem_PutByHost :: "('l, 'h) list_ops \<Rightarrow> string \<Rightarrow> addr \<Rightarrow> ('l, 'h) memory_store \<Rightarrow> ('l, 'h) memory_store" where
  "mem_PutByHost dl host ip m = m\<lparr>ms_cacheIP := lru_set dl 0 0 host ip (ms_cacheIP m)\<rparr>"

definition mem_GetByIP ::
  "('l, 'h) list_ops \<Rightarrow> addr \<Rightarrow> ('l, 'h) memory_store \<Rightarrow> string option \<times> ('l, 'h) memory_store"
where
  "mem_GetByIP dl ip m =
     (case lru_Get dl 0 0 ip (ms_cacheHost m) of
        (Some host, c) \<Rightarrow> (Some host, m\<lparr>ms_cacheHost := c, ms_cacheIP := snd (lru_Get dl 0 0 host (ms_cacheIP m))\<rparr>)
      | (None, c) \<Rightarrow> (None, m\<lparr>ms_cacheHost := c\<rparr>))"

definition mem_PutByIP :: "('l, 'h) list_ops \<Rightarrow> addr \<Rightarrow> string \<Rightarrow> ('l, 'h) memory_store \<Rightarrow> ('l, 'h) memory_store" where
  "mem_PutByIP dl ip host m = m\<lparr>ms_cacheHost := lru_set dl 0 0 ip host (ms_cacheHost m)\<rparr>"

definition mem_DelByIP :: "('l, 'h) list_ops \<Rightarrow> addr \<Rightarrow> ('l, 'h) memory_store \<Rightarrow> ('l, 'h) memory_store" where
  "mem_DelByIP dl ip m =
     (case lru_Get dl 0 0 ip (ms_cacheHost m) of
        (Some host, c) \<Rightarrow>
          m\<lparr>ms_cacheIP := lru_Delete dl host (ms_cacheIP m), ms_cacheHost := lru_Delete dl ip c\<rparr>
      | (None, c) \<Rightarrow> m\<lparr>ms_cacheHost := lru_Delete dl ip c\<rparr>)"

definition mem_Exist :: "addr \<Rightarrow> ('l, 'h) memory_store \<Rightarrow> bool" where
  "mem_Exist ip m = lru_Exist ip (ms_cacheHost m)"

definition mem_CloneTo :: "('l, 'h) list_ops \<Rightarrow> ('l, 'h) memory_store \<Rightarrow> ('l, 'h) memory_store \<Rightarrow> ('l, 'h) memory_store" where
  "mem_CloneTo dl m n =
     n\<lparr>ms_cacheIP := lru_CloneTo dl (ms_cacheIP m) (ms_cacheIP n),
       ms_cacheHost := lru_CloneTo dl (ms_cacheHost m) (ms_cacheHost n)\<rparr>"

definition mem_FlushFakeIP :: "('l, 'h) list_ops \<Rightarrow> ('l, 'h) memory_store \<Rightarrow> flush_result \<times> ('l, 'h) memory_store" where
  "mem_FlushFakeIP dl m =
     (Flushed, m\<lparr>ms_cacheIP := lru_Clear dl (ms_cacheIP m), ms_cacheHost := lru_Clear dl (ms_cacheHost m)\<rparr>)"

definition memory_ops :: "('l, 'h) list_ops \<Rightarrow> ('l, 'h) memory_store store_ops" where
  "memory_ops dl = \<lparr>so_GetByHost = mem_GetByHost dl, so_PutByHost = mem_PutByHost dl,
     so_GetByIP = mem_GetByIP dl, so_PutByIP = mem_PutByIP dl, so_DelByIP = mem_DelByIP dl,
     so_Exist = mem_Exist, so_CloneTo = mem_CloneTo dl, so_FlushFakeIP = mem_FlushFakeIP dl\<rparr>"

section \<open>cachefile.go\<close>

text \<open>
  The bucket of the cache file, in the database bbolt: its functions are an argument. \<open>bo_Put\<close> is \<open>None\<close> when
  the database refuses the key, which the code logs and forgets. A store without a database is \<open>None\<close>;
  transactions that fail for other reasons are not modelled.
\<close>

record 'b bucket_ops =
  bo_Get :: "bytes \<Rightarrow> 'b \<Rightarrow> bytes option"
  bo_Put :: "bytes \<Rightarrow> bytes \<Rightarrow> 'b \<Rightarrow> 'b option"
  bo_Delete :: "bytes \<Rightarrow> 'b \<Rightarrow> 'b"
  bo_DeleteBucket :: "'b \<Rightarrow> 'b"

definition string_bytes :: "string \<Rightarrow> bytes" where
  "string_bytes s = map (\<lambda>c. word_of_nat (byte_val c)) s"

definition bytes_string :: "bytes \<Rightarrow> string" where
  "bytes_string bs = map (\<lambda>b. char_of (unat b)) bs"

definition file_GetByHost :: "'b bucket_ops \<Rightarrow> string \<Rightarrow> 'b option \<Rightarrow> addr option \<times> 'b option" where
  "file_GetByHost bo host db =
     (case db of
        None \<Rightarrow> (None, db)
      | Some b \<Rightarrow>
          (case bo_Get bo (string_bytes host) b of
             None \<Rightarrow> (None, db)
           | Some v \<Rightarrow> (if AddrFromSlice v = NoAddr then None else Some (AddrFromSlice v), db)))"

definition file_PutByHost :: "'b bucket_ops \<Rightarrow> string \<Rightarrow> addr \<Rightarrow> 'b option \<Rightarrow> 'b option" where
  "file_PutByHost bo host ip db =
     (case db of
        None \<Rightarrow> db
      | Some b \<Rightarrow> (case bo_Put bo (string_bytes host) (AsSlice ip) b of None \<Rightarrow> db | Some b' \<Rightarrow> Some b'))"

definition file_GetByIP :: "'b bucket_ops \<Rightarrow> addr \<Rightarrow> 'b option \<Rightarrow> string option \<times> 'b option" where
  "file_GetByIP bo ip db =
     (case db of
        None \<Rightarrow> (None, db)
      | Some b \<Rightarrow> (map_option bytes_string (bo_Get bo (AsSlice ip) b), db))"

definition file_PutByIP :: "'b bucket_ops \<Rightarrow> addr \<Rightarrow> string \<Rightarrow> 'b option \<Rightarrow> 'b option" where
  "file_PutByIP bo ip host db =
     (case db of
        None \<Rightarrow> db
      | Some b \<Rightarrow> (case bo_Put bo (AsSlice ip) (string_bytes host) b of None \<Rightarrow> db | Some b' \<Rightarrow> Some b'))"

definition file_DelByIP :: "'b bucket_ops \<Rightarrow> addr \<Rightarrow> 'b option \<Rightarrow> 'b option" where
  "file_DelByIP bo ip db =
     (case db of
        None \<Rightarrow> db
      | Some b \<Rightarrow>
          let host = (case bo_Get bo (AsSlice ip) b of None \<Rightarrow> [] | Some v \<Rightarrow> v);
              b1 = bo_Delete bo (AsSlice ip) b in
          Some (if length host > 0 then bo_Delete bo host b1 else b1))"

definition file_Exist :: "'b bucket_ops \<Rightarrow> addr \<Rightarrow> 'b option \<Rightarrow> bool" where
  "file_Exist bo ip db \<longleftrightarrow> fst (file_GetByIP bo ip db) \<noteq> None"

definition file_CloneTo :: "'b option \<Rightarrow> 'b option \<Rightarrow> 'b option" where
  "file_CloneTo db target = target"

text \<open>The code does not check for a missing database here.\<close>

definition file_FlushFakeIP :: "'b bucket_ops \<Rightarrow> 'b option \<Rightarrow> flush_result \<times> 'b option" where
  "file_FlushFakeIP bo db =
     (case db of None \<Rightarrow> (FlushPanics, db) | Some b \<Rightarrow> (Flushed, Some (bo_DeleteBucket bo b)))"

definition file_ops :: "'b bucket_ops \<Rightarrow> 'b option store_ops" where
  "file_ops bo = \<lparr>so_GetByHost = file_GetByHost bo, so_PutByHost = file_PutByHost bo,
     so_GetByIP = file_GetByIP bo, so_PutByIP = file_PutByIP bo, so_DelByIP = file_DelByIP bo,
     so_Exist = file_Exist bo, so_CloneTo = file_CloneTo, so_FlushFakeIP = file_FlushFakeIP bo\<rparr>"

end
