(* ===== verification/FakeIPProps.thy ===== *)
theory FakeIPProps imports FakeIP begin

text \<open>
  What the fake-ip pool promises over any store that keeps the contract of the locale \<open>fake_store\<close>: a
  host gets one address of the pool's range, no other host has it, and looking it up backwards
  gives the host. Both stores of the code keep the contract: the LRU caches because they stay in step even
  when they evict, the cache file as long as names and addresses are different keys.
\<close>

section \<open>Addresses in order\<close>

definition addr_num :: "addr \<Rightarrow> nat" where
  "addr_num a = snd (addr_key a)"

text \<open>The addresses from the first up to, not including, the last.\<close>

definition between :: "addr \<Rightarrow> addr \<Rightarrow> addr \<Rightarrow> bool" where
  "between f l x \<longleftrightarrow> BitLen x > 0 \<and> BitLen x = BitLen f \<and> BitLen x = BitLen l \<and> Zone x = '''' \<and> Zone l = '''' \<and>
     addr_num f \<le> addr_num x \<and> addr_num x < addr_num l"

lemma addr_Less_num:
  "BitLen a = BitLen b \<Longrightarrow> Zone a = '''' \<Longrightarrow> Zone b = '''' \<Longrightarrow> addr_Less a b \<longleftrightarrow> addr_num a < addr_num b"
  by (simp add: addr_Less_def addr_num_def)

lemma unat_Suc: "unat (w :: 'a::len word) < unat (v :: 'a word) \<Longrightarrow> w + 1 \<noteq> 0 \<and> unat (w + 1) = Suc (unat w)"
proof -
  assume v: "unat w < unat v"
  have "w < w + 1" using max_if_no_plus_one[of w v] v by (auto simp: word_le_nat_alt)
  then show ?thesis using unat_plus_one[of w] by auto
qed

lemma addr_Next_num:
  assumes "BitLen x = BitLen l" and "addr_num x < addr_num l"
  shows "addr_num (addr_Next x) = Suc (addr_num x) \<and> BitLen (addr_Next x) = BitLen x \<and> Zone (addr_Next x) = Zone x"
  using assms by (cases x; cases l) (auto simp: addr_num_def unat_Suc)

lemma addr_Prev_num:
  assumes "0 < addr_num x"
  shows "Suc (addr_num (addr_Prev x)) = addr_num x \<and> BitLen (addr_Prev x) = BitLen x \<and> Zone (addr_Prev x) = Zone x"
  using assms by (cases x) (auto simp: addr_num_def unat_minus_one unat_eq_0 intro: gr0I)

section \<open>The contract of a store\<close>

locale fake_store =
  fixes so :: "'s store_ops" and valid :: "'s \<Rightarrow> bool" and binds :: "'s \<Rightarrow> (string \<times> addr) set"
    and okH :: "string \<Rightarrow> bool" and okI :: "addr \<Rightarrow> bool"
  assumes one_ip: "valid s \<Longrightarrow> (h, i) \<in> binds s \<Longrightarrow> (h, i') \<in> binds s \<Longrightarrow> i = i'"
    and one_host: "valid s \<Longrightarrow> (h, i) \<in> binds s \<Longrightarrow> (h', i) \<in> binds s \<Longrightarrow> h = h'"
    and GetByHost: "valid s \<Longrightarrow> okH h \<Longrightarrow> so_GetByHost so h s = (r, s') \<Longrightarrow>
      valid s' \<and> binds s' = binds s \<and> (\<forall>i. r = Some i \<longleftrightarrow> (h, i) \<in> binds s)"
    and GetByIP: "valid s \<Longrightarrow> okI i \<Longrightarrow> so_GetByIP so i s = (q, s') \<Longrightarrow>
      valid s' \<and> binds s' = binds s \<and> (\<forall>h. q = Some h \<longleftrightarrow> (h, i) \<in> binds s)"
    and Exist: "valid s \<Longrightarrow> okI i \<Longrightarrow> so_Exist so i s \<longleftrightarrow> (\<exists>h. (h, i) \<in> binds s)"
    and DelByIP: "valid s \<Longrightarrow> okI i \<Longrightarrow>
      valid (so_DelByIP so i s) \<and> binds (so_DelByIP so i s) = {x \<in> binds s. snd x \<noteq> i}"
    and assign: "valid s \<Longrightarrow> okH h \<Longrightarrow> okI i \<Longrightarrow> h \<notin> fst ` binds s \<Longrightarrow> i \<notin> snd ` binds s \<Longrightarrow>
      valid (so_PutByHost so h i (so_PutByIP so i h s)) \<and>
      (h, i) \<in> binds (so_PutByHost so h i (so_PutByIP so i h s)) \<and>
      binds (so_PutByHost so h i (so_PutByIP so i h s)) \<subseteq> insert (h, i) (binds s)"
    and Flush: "valid s \<Longrightarrow> so_FlushFakeIP so s = (Flushed, s') \<Longrightarrow> valid s' \<and> binds s' = {}"

text \<open>A pool in order: its range is not empty, and its offset is in it or just before it.\<close>

definition pool_range :: "'s pool \<Rightarrow> bool" where
  "pool_range p \<longleftrightarrow> between (p_first p) (p_last p) (p_first p) \<and> 0 < addr_num (p_first p) \<and>
     (p_offset p = addr_Prev (p_first p) \<or> between (p_first p) (p_last p) (p_offset p))"

lemma pool_range_next:
  assumes "pool_range p" and "addr_Less (addr_Next (p_offset p)) (p_last p)"
  shows "between (p_first p) (p_last p) (addr_Next (p_offset p))"
proof -
  let ?f = "p_first p" and ?l = "p_last p" and ?o = "p_offset p"
  have f: "between ?f ?l ?f" "0 < addr_num ?f" using assms(1) by (auto simp: pool_range_def)
  consider "?o = addr_Prev ?f" | "between ?f ?l ?o" using assms(1) by (auto simp: pool_range_def)
  then have "addr_num ?f \<le> Suc (addr_num ?o) \<and> addr_num ?o < addr_num ?l \<and> BitLen ?o = BitLen ?l \<and> Zone ?o = ''''"
    using addr_Prev_num[OF f(2)] f(1) by cases (auto simp: between_def)
  moreover from this have n: "addr_num (addr_Next ?o) = Suc (addr_num ?o)" "BitLen (addr_Next ?o) = BitLen ?l"
      "Zone (addr_Next ?o) = ''''"
    using addr_Next_num[of ?o ?l] by auto
  ultimately show ?thesis
    using assms(2) f(1) by (simp add: between_def addr_Less_num)
qed

definition pool_ok :: "('s \<Rightarrow> bool) \<Rightarrow> (addr \<Rightarrow> bool) \<Rightarrow> 's pool \<Rightarrow> bool" where
  "pool_ok valid okI p \<longleftrightarrow>
     valid (p_store p) \<and> pool_range p \<and> (\<forall>x. between (p_first p) (p_last p) x \<longrightarrow> okI x)"

context fake_store
begin

lemma get_spec:
  assumes ok: "pool_ok valid okI p" and h: "okH h" "h \<notin> fst ` binds (p_store p)" and g: "pool_get so h p = (ip, p1)"
  defines "p2 \<equiv> p1\<lparr>p_store := so_PutByHost so h ip (p_store p1)\<rparr>"
  shows "pool_ok valid okI p2 \<and> between (p_first p) (p_last p) ip \<and> p_first p2 = p_first p \<and> p_last p2 = p_last p
    \<and> (h, ip) \<in> binds (p_store p2) \<and> binds (p_store p2) \<subseteq> insert (h, ip) (binds (p_store p))"
proof -
  let ?o = "if addr_Less (addr_Next (p_offset p)) (p_last p) then addr_Next (p_offset p) else p_first p"
  let ?c = "p_cycle p \<or> \<not> addr_Less (addr_Next (p_offset p)) (p_last p)"
  let ?s = "if ?c \<or> so_Exist so ?o (p_store p) then so_DelByIP so ?o (p_store p) else p_store p"
  have o: "between (p_first p) (p_last p) ?o"
    using pool_range_next ok by (auto simp: pool_ok_def pool_range_def)
  then have okI: "okI ?o" using ok by (simp add: pool_ok_def)
  have valid: "valid (p_store p)" using ok by (simp add: pool_ok_def)
  have s: "valid ?s" "?o \<notin> snd ` binds ?s" "binds ?s \<subseteq> binds (p_store p)"
    using DelByIP[OF valid okI] Exist[OF valid okI] valid by auto
  have h': "h \<notin> fst ` binds ?s" using s(3) h(2) by (meson image_mono subsetD)
  have g': "ip = ?o" "p1 = p\<lparr>p_offset := ?o, p_cycle := ?c, p_store := so_PutByIP so ?o h ?s\<rparr>"
    using g by (auto simp: pool_get_def Let_def split: if_splits)
  have a: "valid (so_PutByHost so h ?o (so_PutByIP so ?o h ?s))"
    "(h, ?o) \<in> binds (so_PutByHost so h ?o (so_PutByIP so ?o h ?s))"
    "binds (so_PutByHost so h ?o (so_PutByIP so ?o h ?s)) \<subseteq> insert (h, ?o) (binds ?s)"
    using assign[OF s(1) h(1) okI h' s(2)] by blast+
  have "pool_ok valid okI p2"
    using ok o a(1) by (simp add: pool_ok_def pool_range_def p2_def g')
  with a(2,3) s(3) o show ?thesis by (auto simp: p2_def g')
qed

lemma lookup_spec:
  assumes ok: "pool_ok valid okI p" and h: "okH (ToLower name)" and l: "pool_Lookup so name p = (ip, p')"
  shows "pool_ok valid okI p' \<and> p_first p' = p_first p \<and> p_last p' = p_last p
    \<and> (ToLower name, ip) \<in> binds (p_store p')
    \<and> (if ToLower name \<in> fst ` binds (p_store p) then binds (p_store p') = binds (p_store p)
       else between (p_first p) (p_last p) ip \<and> binds (p_store p') \<subseteq> insert (ToLower name, ip) (binds (p_store p)))"
proof -
  obtain r s where g: "so_GetByHost so (ToLower name) (p_store p) = (r, s)" by fastforce
  have "valid (p_store p)" using ok by (simp add: pool_ok_def)
  note G = GetByHost[OF this h g]
  have ok': "pool_ok valid okI (p\<lparr>p_store := s\<rparr>)" using ok G by (simp add: pool_ok_def pool_range_def)
  show ?thesis
  proof (cases r)
    case (Some i)
    then have "ip = i" "p' = p\<lparr>p_store := s\<rparr>" using l g by (simp_all add: pool_Lookup_def)
    moreover have "(ToLower name, i) \<in> binds (p_store p)" using G Some by blast
    ultimately show ?thesis using G ok' by (force simp: rev_image_eqI)
  next
    case None
    obtain i p1 where g1: "pool_get so (ToLower name) (p\<lparr>p_store := s\<rparr>) = (i, p1)" by fastforce
    have new: "ToLower name \<notin> fst ` binds (p_store p)" using G None by force
    have "ip = i" "p' = p1\<lparr>p_store := so_PutByHost so (ToLower name) i (p_store p1)\<rparr>"
      using l g None g1 by (auto simp: pool_Lookup_def)
    then show ?thesis using get_spec[OF ok' h _ g1] G new by simp
  qed
qed

text \<open>A name that is bound keeps its address.\<close>

lemma lookup_again:
  assumes ok: "pool_ok valid okI p" and h: "okH (ToLower name)" and b: "(ToLower name, ip) \<in> binds (p_store p)"
  shows "fst (pool_Lookup so name p) = ip"
proof -
  obtain ip' p' where l: "pool_Lookup so name p = (ip', p')" by fastforce
  note S = lookup_spec[OF ok h l]
  have "ToLower name \<in> fst ` binds (p_store p)" using b by force
  then have "(ToLower name, ip') \<in> binds (p_store p)" using S by auto
  then show ?thesis using one_ip[OF _ b] ok l by (simp add: pool_ok_def)
qed

lemma lookback_spec:
  assumes ok: "pool_ok valid okI p" and i: "okI i" and l: "pool_LookBack so i p = (r, p')"
  shows "pool_ok valid okI p' \<and> p_first p' = p_first p \<and> p_last p' = p_last p \<and> binds (p_store p') = binds (p_store p)
    \<and> (\<forall>h. r = Some h \<longleftrightarrow> (h, i) \<in> binds (p_store p))"
proof -
  obtain q s where g: "so_GetByIP so i (p_store p) = (q, s)" by fastforce
  have "valid (p_store p)" using ok by (simp add: pool_ok_def)
  from GetByIP[OF this i g] show ?thesis
    using ok l g by (auto simp: pool_LookBack_def pool_ok_def pool_range_def)
qed

lemma flush_spec:
  assumes ok: "pool_ok valid okI p" and f: "pool_FlushFakeIP so p = (Flushed, p')"
  shows "pool_ok valid okI p' \<and> p_first p' = p_first p \<and> p_last p' = p_last p \<and> binds (p_store p') = {}"
proof -
  obtain s where g: "so_FlushFakeIP so (p_store p) = (Flushed, s)"
    using f by (cases "so_FlushFakeIP so (p_store p)") (auto simp: pool_FlushFakeIP_def split: flush_result.splits)
  have "valid (p_store p)" using ok by (simp add: pool_ok_def)
  from Flush[OF this g] show ?thesis
    using ok f g by (auto simp: pool_FlushFakeIP_def pool_ok_def pool_range_def)
qed

end

text \<open>Everything that can happen to a pool: lookups of names and addresses, and flushes.\<close>

inductive pool_reachable ::
  "'s store_ops \<Rightarrow> (string \<Rightarrow> bool) \<Rightarrow> (addr \<Rightarrow> bool) \<Rightarrow> 's pool \<Rightarrow> 's pool \<Rightarrow> bool"
  for so okH okI p0
where
  start: "pool_reachable so okH okI p0 p0"
| lookup: "pool_reachable so okH okI p0 p \<Longrightarrow> okH (ToLower name) \<Longrightarrow>
    pool_reachable so okH okI p0 (snd (pool_Lookup so name p))"
| lookback: "pool_reachable so okH okI p0 p \<Longrightarrow> okI i \<Longrightarrow>
    pool_reachable so okH okI p0 (snd (pool_LookBack so i p))"
| flush: "pool_reachable so okH okI p0 p \<Longrightarrow> pool_FlushFakeIP so p = (Flushed, p') \<Longrightarrow>
    pool_reachable so okH okI p0 p'"

context fake_store
begin

lemma reachable_ok:
  assumes "pool_reachable so okH okI p0 p" and "pool_ok valid okI p0"
    and "\<forall>x\<in>binds (p_store p0). between (p_first p0) (p_last p0) (snd x)"
  shows "pool_ok valid okI p \<and> p_first p = p_first p0 \<and> p_last p = p_last p0
    \<and> (\<forall>x\<in>binds (p_store p). between (p_first p) (p_last p) (snd x))"
  using assms
proof induction
  case (lookup p name)
  obtain ip p' where l: "pool_Lookup so name p = (ip, p')" by fastforce
  then show ?case using lookup_spec[OF _ lookup.hyps(2) l] lookup by (auto split: if_splits)
next
  case (lookback p i)
  obtain r p' where l: "pool_LookBack so i p = (r, p')" by fastforce
  then show ?case using lookback_spec[OF _ lookback.hyps(2) l] lookback by auto
next
  case (flush p p')
  then show ?case using flush_spec[OF _ flush.hyps(2)] by auto
qed simp

text \<open>What the names and addresses of a pool in order mean to each other.\<close>

lemma pool_bijective:
  assumes r: "pool_reachable so okH okI p0 p" and ok: "pool_ok valid okI p0"
    and b: "\<forall>x\<in>binds (p_store p0). between (p_first p0) (p_last p0) (snd x)"
    and h: "okH (ToLower name)" and l: "pool_Lookup so name p = (ip, p')"
  shows "between (p_first p0) (p_last p0) ip \<and> fst (pool_LookBack so ip p') = Some (ToLower name)
    \<and> fst (pool_Lookup so name p') = ip"
proof -
  have r': "pool_reachable so okH okI p0 p'" using pool_reachable.lookup[OF r h] l by simp
  note R = reachable_ok[OF r' ok b]
  have bound: "(ToLower name, ip) \<in> binds (p_store p')"
    using lookup_spec[OF conjunct1[OF reachable_ok[OF r ok b]] h l] by blast
  then have in_range: "between (p_first p0) (p_last p0) ip" using R by fastforce
  then have okI: "okI ip" using ok by (simp add: pool_ok_def)
  have lb: "fst (pool_LookBack so ip q) = Some n" if "pool_ok valid okI q" "(n, ip) \<in> binds (p_store q)" for q n
    using lookback_spec[OF that(1) okI prod.collapse[symmetric]] that(2) by blast
  show ?thesis using in_range lb[OF _ bound] lookup_again[OF _ h bound] R by blast
qed

end

section \<open>The memory store keeps the contract\<close>

text \<open>
  The two caches hold the same pairs in the same order of use, whatever was evicted.
\<close>

definition ip_pairs :: "(string, addr) lru_entry list \<Rightarrow> (string \<times> addr) list" where
  "ip_pairs es = map (\<lambda>e. (le_key e, le_value e)) es"

definition host_pairs :: "(addr, string) lru_entry list \<Rightarrow> (string \<times> addr) list" where
  "host_pairs es = map (\<lambda>e. (le_value e, le_key e)) es"

definition mem_pairs :: "('l \<Rightarrow> ('h \<times> nat) list) \<Rightarrow> ('l, 'h) memory_store \<Rightarrow> (string \<times> addr) list" where
  "mem_pairs items m = ip_pairs (lru_view items (ms_cacheIP m))"

definition mem_valid :: "('l \<Rightarrow> ('h \<times> nat) list) \<Rightarrow> ('l, 'h) memory_store \<Rightarrow> bool" where
  "mem_valid items m \<longleftrightarrow> lru_inv items (ms_cacheIP m) \<and> lru_inv items (ms_cacheHost m) \<and>
     lc_maxAge (ms_cacheIP m) = 0 \<and> lc_maxAge (ms_cacheHost m) = 0 \<and>
     lc_maxSize (ms_cacheHost m) = lc_maxSize (ms_cacheIP m) \<and>
     host_pairs (lru_view items (ms_cacheHost m)) = mem_pairs items m"

definition mem_binds :: "('l \<Rightarrow> ('h \<times> nat) list) \<Rightarrow> ('l, 'h) memory_store \<Rightarrow> (string \<times> addr) set" where
  "mem_binds items m = set (mem_pairs items m)"

lemma pairs_other:
  "ip_pairs (other_keys h es) = filter (\<lambda>x. fst x \<noteq> h) (ip_pairs es)"
  "host_pairs (other_keys i es') = filter (\<lambda>x. snd x \<noteq> i) (host_pairs es')"
  by (simp_all add: ip_pairs_def host_pairs_def filter_map comp_def)

lemma pairs_append [simp]:
  "ip_pairs (es @ es2) = ip_pairs es @ ip_pairs es2" "host_pairs (fs @ fs2) = host_pairs fs @ host_pairs fs2"
  "ip_pairs [e] = [(le_key e, le_value e)]" "host_pairs [f] = [(le_value f, le_key f)]"
  by (simp_all add: ip_pairs_def host_pairs_def)

lemma pairs_keys: "fst ` set (ip_pairs es) = le_key ` set es" "snd ` set (host_pairs fs) = le_key ` set fs"
  by (simp_all add: ip_pairs_def host_pairs_def image_image)

lemma pairs_find:
  "distinct (map le_key es) \<Longrightarrow> find_key h es = Some e \<Longrightarrow> (h, le_value e) \<in> set (ip_pairs es)"
  "distinct (map le_key fs) \<Longrightarrow> find_key i fs = Some f \<Longrightarrow> (le_value f, i) \<in> set (host_pairs fs)"
  by (auto simp: find_key_Some ip_pairs_def host_pairs_def)

lemma filter_pair:
  assumes "distinct (map fst xs)" and "distinct (map snd xs)" and "(h, i) \<in> set xs"
  shows "filter (\<lambda>x. fst x \<noteq> h) xs = filter (\<lambda>x. snd x \<noteq> i) xs"
  using assms by (intro filter_cong refl) (fastforce simp: distinct_map inj_on_def)

lemma mem_valid_pairs:
  assumes "mem_valid items m"
  shows "distinct (map fst (mem_pairs items m))" "distinct (map snd (mem_pairs items m))"
proof -
  show "distinct (map fst (mem_pairs items m))"
    using assms lru_inv_distinct by (auto simp: mem_valid_def mem_pairs_def ip_pairs_def comp_def)
  have "mem_pairs items m = host_pairs (lru_view items (ms_cacheHost m))" using assms by (simp add: mem_valid_def)
  then show "distinct (map snd (mem_pairs items m))"
    using assms lru_inv_distinct by (auto simp: mem_valid_def host_pairs_def comp_def)
qed

text \<open>Without an age, a read only moves the entry to the back.\<close>

lemma abs_get_no_age:
  "lc_maxAge c = 0 \<Longrightarrow> abs_get c t1 t2 k es =
     (find_key k es, case find_key k es of None \<Rightarrow> es | Some e \<Rightarrow> other_keys k es @ [e])"
  by (cases "find_key k es") (simp_all add: abs_get_def del: find_key_None)

lemma mem_unique:
  assumes "mem_valid items m" and "(h, i) \<in> mem_binds items m"
  shows "(h, i') \<in> mem_binds items m \<longleftrightarrow> i' = i" and "(h', i) \<in> mem_binds items m \<longleftrightarrow> h' = h"
  using mem_valid_pairs[OF assms(1)] assms(2) unfolding mem_binds_def distinct_map inj_on_def
  by (metis fst_conv snd_conv)+

context linked_list
begin

lemma mem_read:
  assumes "lru_inv items c" and "lc_maxAge c = 0" and "lru_Get dl t1 t2 k c = (r, c')"
  shows "lru_inv items c' \<and> same_options c c' \<and> r = map_option le_value (find_key k (lru_view items c))
    \<and> lru_view items c' = (case find_key k (lru_view items c) of None \<Rightarrow> lru_view items c
        | Some e \<Rightarrow> other_keys k (lru_view items c) @ [e])"
  using lru_Get[OF assms(1,3)] assms(2) by (simp add: abs_get_no_age)

text \<open>Reading one cache by a pair's key and the other by its value moves the pair in both.\<close>

lemma mem_touch:
  assumes v: "mem_valid items m" and x: "(h, i) \<in> mem_binds items m"
    and 1: "lru_Get dl 0 0 h (ms_cacheIP m) = (r, c)" and 2: "lru_Get dl 0 0 i (ms_cacheHost m) = (q, d)"
  shows "r = Some i \<and> q = Some h \<and> mem_valid items (m\<lparr>ms_cacheIP := c, ms_cacheHost := d\<rparr>)
    \<and> mem_pairs items (m\<lparr>ms_cacheIP := c, ms_cacheHost := d\<rparr>) = filter (\<lambda>x. fst x \<noteq> h) (mem_pairs items m) @ [(h, i)]"
proof -
  note V = v[unfolded mem_valid_def] and d = mem_valid_pairs[OF v]
  have x': "(h, i) \<in> set (ip_pairs (lru_view items (ms_cacheIP m)))"
    "(h, i) \<in> set (host_pairs (lru_view items (ms_cacheHost m)))"
    using x V by (auto simp: mem_binds_def mem_pairs_def)
  note dI = lru_inv_distinct[of items "ms_cacheIP m"] and dH = lru_inv_distinct[of items "ms_cacheHost m"]
  obtain e where e: "find_key h (lru_view items (ms_cacheIP m)) = Some e" "le_key e = h" "le_value e = i"
    using x'(1) dI V by (auto simp: ip_pairs_def find_key_Some)
  obtain f where f: "find_key i (lru_view items (ms_cacheHost m)) = Some f" "le_key f = i" "le_value f = h"
    using x'(2) dH V by (auto simp: host_pairs_def find_key_Some)
  note R = mem_read[OF _ _ 1] mem_read[OF _ _ 2]
  have "filter (\<lambda>x. fst x \<noteq> h) (mem_pairs items m) = filter (\<lambda>x. snd x \<noteq> i) (mem_pairs items m)"
    using filter_pair[OF d] x by (simp add: mem_binds_def)
  then show ?thesis
    using R V e f by (simp add: mem_valid_def mem_pairs_def pairs_other same_options_def)
qed

lemma mem_touch_binds:
  assumes "mem_valid items m" and "(h, i) \<in> mem_binds items m"
  shows "set (filter (\<lambda>x. fst x \<noteq> h) (mem_pairs items m) @ [(h, i)]) = mem_binds items m"
proof -
  have "y \<in> mem_binds items m \<and> fst y = h \<longleftrightarrow> y = (h, i)" for y
    using mem_unique(1)[OF assms, of "snd y"] assms(2) by (cases y) auto
  then show ?thesis unfolding mem_binds_def by auto
qed

lemma mem_miss:
  assumes v: "mem_valid items m"
  shows "h \<notin> fst ` mem_binds items m \<Longrightarrow> find_key h (lru_view items (ms_cacheIP m)) = None"
    and "i \<notin> snd ` mem_binds items m \<Longrightarrow> find_key i (lru_view items (ms_cacheHost m)) = None"
proof -
  show "h \<notin> fst ` mem_binds items m \<Longrightarrow> find_key h (lru_view items (ms_cacheIP m)) = None"
    by (simp add: mem_binds_def mem_pairs_def pairs_keys)
  have "mem_binds items m = set (host_pairs (lru_view items (ms_cacheHost m)))"
    using v by (simp add: mem_valid_def mem_binds_def)
  then show "i \<notin> snd ` mem_binds items m \<Longrightarrow> find_key i (lru_view items (ms_cacheHost m)) = None"
    by (simp add: pairs_keys)
qed

lemma mem_same_options:
  "mem_valid items m \<Longrightarrow> lru_inv items c \<Longrightarrow> same_options (ms_cacheIP m) c \<Longrightarrow>
   lru_view items c = lru_view items (ms_cacheIP m) \<Longrightarrow>
   mem_valid items (m\<lparr>ms_cacheIP := c\<rparr>) \<and> mem_pairs items (m\<lparr>ms_cacheIP := c\<rparr>) = mem_pairs items m"
  "mem_valid items m \<Longrightarrow> lru_inv items d \<Longrightarrow> same_options (ms_cacheHost m) d \<Longrightarrow>
   lru_view items d = lru_view items (ms_cacheHost m) \<Longrightarrow>
   mem_valid items (m\<lparr>ms_cacheHost := d\<rparr>) \<and> mem_pairs items (m\<lparr>ms_cacheHost := d\<rparr>) = mem_pairs items m"
  by (simp_all add: mem_valid_def mem_pairs_def same_options_def)

lemma mem_GetByHost_spec:
  assumes v: "mem_valid items m" and g: "mem_GetByHost dl h m = (r, m')"
  shows "mem_valid items m' \<and> mem_binds items m' = mem_binds items m \<and> (\<forall>i. r = Some i \<longleftrightarrow> (h, i) \<in> mem_binds items m)"
proof (cases "h \<in> fst ` mem_binds items m")
  case True
  then obtain i where x: "(h, i) \<in> mem_binds items m" by force
  obtain r1 c q d where 1: "lru_Get dl 0 0 h (ms_cacheIP m) = (r1, c)" and 2: "lru_Get dl 0 0 i (ms_cacheHost m) = (q, d)"
    by fastforce
  note T = mem_touch[OF v x 1 2]
  have "r = Some i" "m' = m\<lparr>ms_cacheIP := c, ms_cacheHost := d\<rparr>"
    using g 1 2 T by (auto simp: mem_GetByHost_def)
  moreover have "mem_binds items (m\<lparr>ms_cacheIP := c, ms_cacheHost := d\<rparr>) = mem_binds items m"
    using mem_touch_binds[OF v x] T by (simp add: mem_binds_def)
  ultimately show ?thesis using T mem_unique[OF v x] by auto
next
  case False
  obtain r1 c where 1: "lru_Get dl 0 0 h (ms_cacheIP m) = (r1, c)" by fastforce
  note V = v[unfolded mem_valid_def]
  have "r1 = None" "lru_inv items c" "same_options (ms_cacheIP m) c" "lru_view items c = lru_view items (ms_cacheIP m)"
    using mem_read[OF _ _ 1] mem_miss(1)[OF v False] V by auto
  then show ?thesis
    using g 1 mem_same_options(1)[OF v] False by (auto simp: mem_GetByHost_def mem_binds_def image_iff)
qed

lemma mem_GetByIP_spec:
  assumes v: "mem_valid items m" and g: "mem_GetByIP dl i m = (r, m')"
  shows "mem_valid items m' \<and> mem_binds items m' = mem_binds items m \<and> (\<forall>h. r = Some h \<longleftrightarrow> (h, i) \<in> mem_binds items m)"
proof (cases "i \<in> snd ` mem_binds items m")
  case True
  then obtain h where x: "(h, i) \<in> mem_binds items m" by force
  obtain r1 c q d where 1: "lru_Get dl 0 0 h (ms_cacheIP m) = (r1, c)" and 2: "lru_Get dl 0 0 i (ms_cacheHost m) = (q, d)"
    by fastforce
  note T = mem_touch[OF v x 1 2]
  have "r = Some h" "m' = m\<lparr>ms_cacheIP := c, ms_cacheHost := d\<rparr>"
    using g 1 2 T by (auto simp: mem_GetByIP_def)
  moreover have "mem_binds items (m\<lparr>ms_cacheIP := c, ms_cacheHost := d\<rparr>) = mem_binds items m"
    using mem_touch_binds[OF v x] T by (simp add: mem_binds_def)
  ultimately show ?thesis using T mem_unique[OF v x] by auto
next
  case False
  obtain r1 c where 1: "lru_Get dl 0 0 i (ms_cacheHost m) = (r1, c)" by fastforce
  note V = v[unfolded mem_valid_def]
  have "r1 = None" "lru_inv items c" "same_options (ms_cacheHost m) c" "lru_view items c = lru_view items (ms_cacheHost m)"
    using mem_read[OF _ _ 1] mem_miss(2)[OF v False] V by auto
  then show ?thesis
    using g 1 mem_same_options(2)[OF v] False by (auto simp: mem_GetByIP_def mem_binds_def image_iff)
qed

end

context linked_list
begin

lemma mem_DelByIP_spec:
  assumes v: "mem_valid items m"
  shows "mem_valid items (mem_DelByIP dl i m)
    \<and> mem_pairs items (mem_DelByIP dl i m) = filter (\<lambda>x. snd x \<noteq> i) (mem_pairs items m)"
proof (cases "i \<in> snd ` mem_binds items m")
  case True
  then obtain h where x: "(h, i) \<in> mem_binds items m" by force
  obtain r c q d where 1: "lru_Get dl 0 0 h (ms_cacheIP m) = (r, c)" and 2: "lru_Get dl 0 0 i (ms_cacheHost m) = (q, d)"
    by fastforce
  note V = v[unfolded mem_valid_def]
  have q: "q = Some h" using mem_touch[OF v x 1 2] by blast
  then have m': "mem_DelByIP dl i m = m\<lparr>ms_cacheIP := lru_Delete dl h (ms_cacheIP m), ms_cacheHost := lru_Delete dl i d\<rparr>"
    using 2 by (simp add: mem_DelByIP_def)
  have d: "lru_inv items d" "same_options (ms_cacheHost m) d"
    "other_keys i (lru_view items d) = other_keys i (lru_view items (ms_cacheHost m))"
    using mem_read[OF _ _ 2] V by (auto simp: find_key_def find_Some_iff split: option.splits)
  note D = lru_Delete[of "ms_cacheIP m" h] lru_Delete[OF d(1), of i]
  have "filter (\<lambda>x. fst x \<noteq> h) (mem_pairs items m) = filter (\<lambda>x. snd x \<noteq> i) (mem_pairs items m)"
    using filter_pair[OF mem_valid_pairs[OF v]] x by (simp add: mem_binds_def)
  then show ?thesis
    using D V d(2,3) by (simp add: m' mem_valid_def mem_pairs_def pairs_other same_options_def)
next
  case False
  obtain q d where 2: "lru_Get dl 0 0 i (ms_cacheHost m) = (q, d)" by fastforce
  note V = v[unfolded mem_valid_def]
  have q: "q = None" "lru_inv items d" "same_options (ms_cacheHost m) d" "lru_view items d = lru_view items (ms_cacheHost m)"
    using mem_read[OF _ _ 2] mem_miss(2)[OF v False] V by auto
  have "i \<notin> le_key ` set (lru_view items (ms_cacheHost m))" using mem_miss(2)[OF v False] by simp
  then have "mem_valid items (m\<lparr>ms_cacheHost := lru_Delete dl i d\<rparr>)
      \<and> mem_pairs items (m\<lparr>ms_cacheHost := lru_Delete dl i d\<rparr>) = mem_pairs items m"
    using lru_Delete[OF q(2), of i] q(3,4) other_keys_id[of i "lru_view items (ms_cacheHost m)"] same_options_trans[OF q(3)]
    by (intro mem_same_options(2)[OF v]) auto
  moreover have "filter (\<lambda>x. snd x \<noteq> i) (mem_pairs items m) = mem_pairs items m"
    using False by (auto simp: filter_id_conv mem_binds_def)
  ultimately show ?thesis using 2 q(1) by (simp add: mem_DelByIP_def)
qed

lemma mem_set:
  assumes "lru_inv items c" and "lc_maxAge c = 0" and "find_key k (lru_view items c) = None"
  shows "lru_inv items (lru_set dl 0 0 k v c) \<and> same_options c (lru_set dl 0 0 k v c)
    \<and> lru_view items (lru_set dl 0 0 k v c) =
      (let es = lru_view items c @ [\<lparr>le_key = k, le_value = v, le_expires = 0\<rparr>] in
       if lc_maxSize c > 0 \<and> int (length es) > lc_maxSize c then tl es else es)"
  using setWithExpire[OF assms(1), of 0 k v 0] assms(2,3)
  by (auto simp: lru_set_def abs_expire_def abs_push_def other_keys_id Let_def)

text \<open>A fresh pair goes to the back of both caches, and both lose the same pair when they are full.\<close>

lemma mem_assign:
  assumes v: "mem_valid items m" and h: "h \<notin> fst ` mem_binds items m" and i: "i \<notin> snd ` mem_binds items m"
  defines "m' \<equiv> mem_PutByHost dl h i (mem_PutByIP dl i h m)"
  shows "mem_valid items m' \<and> mem_pairs items m' =
      (let xs = mem_pairs items m @ [(h, i)] in
       if lc_maxSize (ms_cacheIP m) > 0 \<and> int (length xs) > lc_maxSize (ms_cacheIP m) then tl xs else xs)"
proof -
  note V = v[unfolded mem_valid_def]
  have m': "ms_cacheIP m' = lru_set dl 0 0 h i (ms_cacheIP m)" "ms_cacheHost m' = lru_set dl 0 0 i h (ms_cacheHost m)"
    by (simp_all add: m'_def mem_PutByHost_def mem_PutByIP_def)
  note S = mem_set[OF _ _ mem_miss(1)[OF v h], of i] mem_set[OF _ _ mem_miss(2)[OF v i], of h]
  have len: "length (lru_view items (ms_cacheIP m)) = length (mem_pairs items m)"
    "length (lru_view items (ms_cacheHost m)) = length (mem_pairs items m)"
  proof -
    show "length (lru_view items (ms_cacheIP m)) = length (mem_pairs items m)" by (simp add: mem_pairs_def ip_pairs_def)
    have "length (lru_view items (ms_cacheHost m)) = length (host_pairs (lru_view items (ms_cacheHost m)))"
      by (simp add: host_pairs_def)
    then show "length (lru_view items (ms_cacheHost m)) = length (mem_pairs items m)" using V by simp
  qed
  have tl: "ip_pairs (tl es) = tl (ip_pairs es)" "host_pairs (tl fs) = tl (host_pairs fs)" for es fs
    by (simp_all add: ip_pairs_def host_pairs_def map_tl)
  show ?thesis
    using S V len by (auto simp: mem_valid_def mem_pairs_def m' same_options_def Let_def tl)
qed

end

sublocale linked_list \<subseteq> mem: fake_store "memory_ops dl" "mem_valid items" "mem_binds items" "\<lambda>_. True" "\<lambda>_. True"
proof unfold_locales
  fix m h i i' assume "mem_valid items m" "(h, i) \<in> mem_binds items m" "(h, i') \<in> mem_binds items m"
  then show "i = i'" using mem_unique(1) by blast
next
  fix m h h' i assume "mem_valid items m" "(h, i) \<in> mem_binds items m" "(h', i) \<in> mem_binds items m"
  then show "h = h'" using mem_unique(2) by blast
next
  fix m h r m' assume "mem_valid items m" "so_GetByHost (memory_ops dl) h m = (r, m')"
  then show "mem_valid items m' \<and> mem_binds items m' = mem_binds items m \<and> (\<forall>i. r = Some i \<longleftrightarrow> (h, i) \<in> mem_binds items m)"
    by (simp add: memory_ops_def mem_GetByHost_spec)
next
  fix m i q m' assume "mem_valid items m" "so_GetByIP (memory_ops dl) i m = (q, m')"
  then show "mem_valid items m' \<and> mem_binds items m' = mem_binds items m \<and> (\<forall>h. q = Some h \<longleftrightarrow> (h, i) \<in> mem_binds items m)"
    by (simp add: memory_ops_def mem_GetByIP_spec)
next
  fix m i assume v: "mem_valid items m"
  have "mem_binds items m = set (host_pairs (lru_view items (ms_cacheHost m)))"
    using v by (simp add: mem_valid_def mem_binds_def)
  then show "so_Exist (memory_ops dl) i m \<longleftrightarrow> (\<exists>h. (h, i) \<in> mem_binds items m)"
    using v lru_lookup(1)[of items "ms_cacheHost m" i] by (force simp: memory_ops_def mem_Exist_def lru_Exist_def mem_valid_def host_pairs_def)
next
  fix m i assume "mem_valid items m"
  then show "mem_valid items (so_DelByIP (memory_ops dl) i m)
      \<and> mem_binds items (so_DelByIP (memory_ops dl) i m) = {x \<in> mem_binds items m. snd x \<noteq> i}"
    using mem_DelByIP_spec by (simp add: memory_ops_def mem_binds_def)
next
  fix m h i assume "mem_valid items m" "h \<notin> fst ` mem_binds items m" "i \<notin> snd ` mem_binds items m"
  note A = mem_assign[OF this]
  have "set (tl (xs @ [y])) \<subseteq> insert y (set xs) \<and> (xs \<noteq> [] \<longrightarrow> y \<in> set (tl (xs @ [y])))" for xs and y :: "string \<times> addr"
    by (cases xs) auto
  then show "mem_valid items (so_PutByHost (memory_ops dl) h i (so_PutByIP (memory_ops dl) i h m)) \<and>
      (h, i) \<in> mem_binds items (so_PutByHost (memory_ops dl) h i (so_PutByIP (memory_ops dl) i h m)) \<and>
      mem_binds items (so_PutByHost (memory_ops dl) h i (so_PutByIP (memory_ops dl) i h m)) \<subseteq> insert (h, i) (mem_binds items m)"
    using A by (cases "mem_pairs items m = []")
      (auto simp: memory_ops_def mem_binds_def Let_def dest: list.set_sel(2)[rotated])
next
  fix m m' assume "mem_valid items m" "so_FlushFakeIP (memory_ops dl) m = (Flushed, m')"
  then show "mem_valid items m' \<and> mem_binds items m' = {}"
    using lru_Clear[of "ms_cacheIP m"] lru_Clear[of "ms_cacheHost m"]
    by (auto simp: memory_ops_def mem_FlushFakeIP_def mem_valid_def mem_binds_def mem_pairs_def ip_pairs_def host_pairs_def
        same_options_def)
qed

end
