(* ===== verification/FakePool.thy ===== *)
theory FakePool imports FakeIPProps begin

text \<open>
  Pools as the program makes them: \<open>New\<close> puts a pool in order, so the contract of the stores carries over to
  every pool; the cache file as a store; and where addresses can go wrong, a store cloned from a pool
  with another range and the names the pool reserves in the cache file.
\<close>

section \<open>New\<close>

text \<open>What the package netipx promises: the last address of a valid prefix.\<close>

definition last_ip_law :: "(prefix \<Rightarrow> addr) \<Rightarrow> bool" where
  "last_ip_law PrefixLastIP \<longleftrightarrow> (\<forall>p. pfx_IsValid p \<longrightarrow>
     pfx_Contains p (PrefixLastIP p) \<and> Zone (PrefixLastIP p) = '''' \<and>
     (\<forall>x. pfx_Contains p x \<longrightarrow> \<not> addr_Less (PrefixLastIP p) x))"

lemma pfx_Contains_BitLen: "pfx_Contains p x \<Longrightarrow> BitLen x = BitLen (pfx_addr p) \<and> BitLen x > 0"
  by (cases "(p, x)" rule: pfx_Contains.cases) auto

lemma unat_next: "w + 1 \<noteq> 0 \<Longrightarrow> unat (w + 1 :: 'a::len word) = Suc (unat w)"
  using plus_one_cases[of w] unat_plus_one[of w] by auto

lemma IsValid_Next:
  "IsValid (addr_Next a) \<Longrightarrow> addr_num (addr_Next a) = Suc (addr_num a) \<and> BitLen (addr_Next a) = BitLen a
     \<and> Zone (addr_Next a) = Zone a \<and> IsValid a"
  by (cases a) (auto simp: addr_num_def IsValid_def unat_next split: if_splits)

lemma Masked_addr:
  "pfx_IsValid p \<Longrightarrow> BitLen (pfx_addr (pfx_Masked p)) = BitLen (pfx_addr p) \<and> Zone (pfx_addr (pfx_Masked p)) = ''''"
  by (cases p rule: pfx_Masked.cases) (auto simp: pfx_IsValid_def IsValid_def)

lemma drop_bit_interval:
  fixes a b w :: "'a::len word"
  assumes "drop_bit k a = drop_bit k b" and "unat a \<le> unat w" and "unat w \<le> unat b"
  shows "drop_bit k w = drop_bit k b"
proof -
  have "unat (drop_bit k a) \<le> unat (drop_bit k w)" "unat (drop_bit k w) \<le> unat (drop_bit k b)"
    unfolding unat_drop_bit_eq using assms(2,3) by (simp_all add: drop_bit_eq_div div_le_mono)
  then show ?thesis using assms(1) by (simp add: word_unat_eq_iff)
qed

lemma word_xor_eq_0: "a XOR b = (0 :: 'a::len word) \<longleftrightarrow> a = b"
proof
  assume "a XOR b = 0"
  then have "(a XOR b) XOR b = b" by simp
  then show "a = b" by (simp add: xor.assoc)
qed simp

lemma drop_push_drop: "drop_bit k (push_bit k (drop_bit k a)) = drop_bit k (a :: 'a::len word)"
  by (rule bit_eqI) (auto simp: bit_simps dest: bit_imp_le_length)

text \<open>A prefix contains the addresses from its base to any address in it.\<close>

lemma Contains_interval:
  assumes "pfx_IsValid p" and "pfx_Contains p l" and "BitLen x = BitLen l" and "Zone x = ''''"
    and "addr_num (pfx_addr (pfx_Masked p)) \<le> addr_num x" and "addr_num x \<le> addr_num l"
  shows "pfx_Contains p x"
proof (cases p rule: pfx_Masked.cases)
  case (1 a n)
  then obtain w v where "l = V4 v" "x = V4 w" using assms(2,3) by (cases l; cases x) auto
  then show ?thesis
    using assms 1 drop_bit_interval[of "32 - n" "push_bit (32 - n) (drop_bit (32 - n) a)" v w]
    by (auto simp: drop_bit_xor word_xor_eq_0 addr_num_def drop_push_drop)
next
  case (2 a z n)
  then obtain w v where "l = V6 v ''''" "x = V6 w ''''" using assms(2-4) by (cases l; cases x) auto
  then show ?thesis
    using assms 2 drop_bit_interval[of "128 - n" "push_bit (128 - n) (drop_bit (128 - n) a)" v w]
    by (auto simp: drop_bit_xor word_xor_eq_0 addr_num_def drop_push_drop)
qed (use assms in \<open>auto simp: pfx_IsValid_def IsValid_def\<close>)

lemma pool_New_range:
  assumes law: "last_ip_law PrefixLastIP" and n: "pool_New PrefixLastIP so False net s = Some p"
  shows "pool_range p \<and> p_store p = s \<and> p_ipnet p = net \<and>
    p_offset p = addr_Prev (p_first p) \<and> pfx_Contains net (p_offset p) \<and>
    (\<forall>x. between (p_first p) (p_last p) x \<longrightarrow> pfx_Contains net x \<and> x \<noteq> p_gateway p \<and> x \<noteq> p_last p)"
proof -
  let ?base = "pfx_addr (pfx_Masked net)"
  let ?first = "addr_Next (addr_Next (addr_Next (addr_Next ?base)))" and ?last = "PrefixLastIP net"
  have v: "pfx_IsValid net" "IsValid ?first" "addr_Less ?first ?last"
    and p: "p = \<lparr>p_gateway = addr_Next ?base, p_first = ?first, p_last = ?last, p_offset = addr_Prev ?first,
      p_cycle = False, p_ipnet = net, p_store = s\<rparr>"
    using n by (auto simp: pool_New_def pool_restoreState_def Let_def split: if_splits)
  note N = IsValid_Next[OF v(2)]
  note N2 = IsValid_Next[OF N[THEN conjunct2, THEN conjunct2, THEN conjunct2]]
  note N3 = IsValid_Next[OF N2[THEN conjunct2, THEN conjunct2, THEN conjunct2]]
  note N4 = IsValid_Next[OF N3[THEN conjunct2, THEN conjunct2, THEN conjunct2]]
  have f: "addr_num ?first = addr_num ?base + 4" "BitLen ?first = BitLen (pfx_addr net)" "Zone ?first = ''''"
    "addr_num (addr_Next ?base) = addr_num ?base + 1"
    using N N2 N3 N4 Masked_addr[OF v(1)] by auto
  have l: "pfx_Contains net ?last" "Zone ?last = ''''" "BitLen ?last = BitLen (pfx_addr net)" "BitLen ?last > 0"
    using law v(1) pfx_Contains_BitLen[of net ?last] by (auto simp: last_ip_law_def)
  have lt: "addr_num ?first < addr_num ?last" using v(3) f l by (simp add: addr_Less_num)
  have "pool_range p" using f l lt by (simp add: pool_range_def p between_def)
  moreover have "pfx_Contains net x \<and> x \<noteq> p_gateway p \<and> x \<noteq> p_last p" if "between ?first ?last x" for x
  proof (intro conjI)
    show "pfx_Contains net x"
      using that f l by (intro Contains_interval[OF v(1) l(1)]) (auto simp: between_def)
    show "x \<noteq> p_gateway p" "x \<noteq> p_last p" using that f by (auto simp: between_def p)
  qed
  moreover have "pfx_Contains net (addr_Prev ?first)"
  proof (intro Contains_interval[OF v(1) l(1)])
    have "0 < addr_num ?first" using f by simp
    from addr_Prev_num[OF this] f l lt show "BitLen (addr_Prev ?first) = BitLen ?last" "Zone (addr_Prev ?first) = ''''"
      "addr_num ?base \<le> addr_num (addr_Prev ?first)" "addr_num (addr_Prev ?first) \<le> addr_num ?last"
      by simp_all
  qed
  ultimately show ?thesis by (simp add: p)
qed

section \<open>Pools in memory\<close>

context linked_list
begin

lemma newMemoryStore_valid: "mem_valid items (newMemoryStore dl n) \<and> mem_binds items (newMemoryStore dl n) = {}"
  by (simp add: newMemoryStore_def mem_valid_def mem_binds_def mem_pairs_def host_pairs_def ip_pairs_def lru_New)
     (simp add: lru_New_def)

lemma memory_pool_ok:
  assumes "last_ip_law PrefixLastIP"
    and "pool_New PrefixLastIP (memory_ops dl) False net (newMemoryStore dl n) = Some p0"
  shows "pool_ok (mem_valid items) (\<lambda>_. True) p0 \<and> mem_binds items (p_store p0) = {}"
  using pool_New_range[OF assms] newMemoryStore_valid[of n] by (simp add: pool_ok_def)

lemma memory_pool_spec:
  assumes law: "last_ip_law PrefixLastIP"
    and new: "pool_New PrefixLastIP (memory_ops dl) False net (newMemoryStore dl n) = Some p0"
    and r: "pool_reachable (memory_ops dl) (\<lambda>_. True) (\<lambda>_. True) p0 p"
    and l: "pool_Lookup (memory_ops dl) name p = (ip, p')"
  shows "pfx_Contains net ip \<and> ip \<noteq> p_gateway p0 \<and> ip \<noteq> p_last p0
    \<and> fst (pool_LookBack (memory_ops dl) ip p') = Some (ToLower name)
    \<and> fst (pool_Lookup (memory_ops dl) name p') = ip"
proof -
  note ok = memory_pool_ok[OF law new]
  have "between (p_first p0) (p_last p0) ip \<and> fst (pool_LookBack (memory_ops dl) ip p') = Some (ToLower name)
    \<and> fst (pool_Lookup (memory_ops dl) name p') = ip"
    by (rule mem.pool_bijective[OF r _ _ _ l]) (use ok in simp_all)
  then show ?thesis using pool_New_range[OF law new] by blast
qed

text \<open>A clone hands out what the old pool handed out.\<close>

lemma clone_spec:
  assumes ok: "pool_ok (mem_valid items) (\<lambda>_. True) old" and r: "pool_range p"
    and b: "(ToLower name, ip) \<in> mem_binds items (p_store old)"
    and n: "lc_maxAge (ms_cacheIP (p_store p)) = 0" "lc_maxAge (ms_cacheHost (p_store p)) = 0"
      "lc_maxSize (ms_cacheHost (p_store p)) = lc_maxSize (ms_cacheIP (p_store p))"
  shows "fst (pool_Lookup (memory_ops dl) name (pool_CloneFrom (memory_ops dl) old p)) = ip"
proof -
  let ?s = "mem_CloneTo dl (p_store old) (p_store p)"
  have v: "mem_valid items (p_store old)" using ok by (simp add: pool_ok_def)
  have c: "mem_valid items ?s \<and> mem_binds items ?s = mem_binds items (p_store old)"
    using v n lru_CloneTo[of "ms_cacheIP (p_store old)" "ms_cacheIP (p_store p)"]
      lru_CloneTo[of "ms_cacheHost (p_store old)" "ms_cacheHost (p_store p)"]
    by (simp add: mem_valid_def mem_CloneTo_def mem_binds_def mem_pairs_def same_options_def)
  have "pool_ok (mem_valid items) (\<lambda>_. True) (pool_CloneFrom (memory_ops dl) old p)"
    using c r by (simp add: pool_ok_def pool_CloneFrom_def memory_ops_def pool_range_def)
  then show ?thesis
    using c b by (intro mem.lookup_again) (simp_all add: pool_CloneFrom_def memory_ops_def)
qed

lemma clone_keeps:
  assumes law: "last_ip_law PrefixLastIP"
    and new: "pool_New PrefixLastIP (memory_ops dl) False net (newMemoryStore dl n) = Some old0"
    and r: "pool_reachable (memory_ops dl) (\<lambda>_. True) (\<lambda>_. True) old0 old"
    and l: "pool_Lookup (memory_ops dl) name old = (ip, old')"
    and new': "pool_New PrefixLastIP (memory_ops dl) False net' (newMemoryStore dl n) = Some p"
    and out: "\<not> pfx_Contains net' ip"
  shows "\<not> pfx_Contains net' (fst (pool_Lookup (memory_ops dl) name (pool_CloneFrom (memory_ops dl) old' p)))"
proof -
  have "pool_ok (mem_valid items) (\<lambda>_. True) old"
    using mem.reachable_ok[OF r] memory_pool_ok[OF law new] by simp
  note L = mem.lookup_spec[OF this _ l]
  have "p_store p = newMemoryStore dl n" "pool_range p" using pool_New_range[OF law new'] by auto
  then have "fst (pool_Lookup (memory_ops dl) name (pool_CloneFrom (memory_ops dl) old' p)) = ip"
    using L by (intro clone_spec) (auto simp: newMemoryStore_def lru_New_def)
  then show ?thesis using out by simp
qed

end

text \<open>
  C8: a pool in memory gives every name, in any case, an address of its prefix that is neither the gateway
  nor the broadcast address, finds the name again from the address, and gives it the same
  address when asked again, after any number of lookups, flushes and evictions.
\<close>

theorem memory_pool_consistent:
  assumes "linked_list dl items" and "last_ip_law PrefixLastIP"
    and "pool_New PrefixLastIP (memory_ops dl) False net (newMemoryStore dl n) = Some p0"
    and "pool_reachable (memory_ops dl) (\<lambda>_. True) (\<lambda>_. True) p0 p"
    and "pool_Lookup (memory_ops dl) name p = (ip, p')"
  shows "pfx_Contains net ip \<and> ip \<noteq> p_gateway p0 \<and> ip \<noteq> p_last p0
    \<and> fst (pool_LookBack (memory_ops dl) ip p') = Some (ToLower name)
    \<and> fst (pool_Lookup (memory_ops dl) name p') = ip"
  using linked_list.memory_pool_spec[OF assms] .

text \<open>The last address by arithmetic, as a function with the law.\<close>

definition last_word :: "nat \<Rightarrow> 'a::len word \<Rightarrow> 'a word" where
  "last_word k w = word_of_nat (unat w div 2 ^ k * 2 ^ k + (2 ^ k - 1))"

fun arith_last :: "prefix \<Rightarrow> addr" where
  "arith_last (Prefix (V4 w) n) = V4 (last_word (32 - n) w)"
| "arith_last (Prefix (V6 w z) n) = V6 (last_word (128 - n) w) ''''"
| "arith_last _ = NoAddr"

lemma last_word:
  assumes "k \<le> LENGTH('a)"
  shows "drop_bit k (last_word k w) = drop_bit k (w :: 'a::len word)"
    and "drop_bit k x = drop_bit k w \<Longrightarrow> unat x \<le> unat (last_word k w)"
proof -
  have pow: "(2 :: nat) ^ LENGTH('a) = 2 ^ (LENGTH('a) - k) * 2 ^ k" using assms by (simp flip: power_add)
  have "unat w div 2 ^ k < 2 ^ (LENGTH('a) - k)"
    using unat_bound[of w] unfolding pow by (simp add: less_mult_imp_div_less)
  then have "(unat w div 2 ^ k + 1) * 2 ^ k \<le> 2 ^ (LENGTH('a) - k) * 2 ^ k" by (intro mult_le_mono1) simp
  then have "unat w div 2 ^ k * 2 ^ k + 2 ^ k \<le> 2 ^ LENGTH('a)" unfolding pow by (simp add: algebra_simps)
  moreover have "(1 :: nat) \<le> 2 ^ k" by simp
  ultimately have "unat w div 2 ^ k * 2 ^ k + (2 ^ k - 1) < 2 ^ LENGTH('a)" by linarith
  then have u: "unat (last_word k w) = unat w div 2 ^ k * 2 ^ k + (2 ^ k - 1)"
    by (simp add: last_word_def unsigned_of_nat take_bit_nat_eq_self)
  have "(unat w div 2 ^ k * 2 ^ k + (2 ^ k - 1)) div 2 ^ k = unat w div 2 ^ k"
    using div_mult_self1[of "2 ^ k" "2 ^ k - 1" "unat w div 2 ^ k"] by (subst add.commute) simp
  then show "drop_bit k (last_word k w) = drop_bit k w"
    unfolding word_unat_eq_iff unat_drop_bit_eq u by (simp add: drop_bit_eq_div)
  assume "drop_bit k x = drop_bit k w"
  then have "unat x div 2 ^ k = unat w div 2 ^ k" by (metis unat_drop_bit_eq drop_bit_eq_div)
  then have "unat x = unat w div 2 ^ k * 2 ^ k + unat x mod 2 ^ k" by (metis div_mult_mod_eq)
  moreover have "unat x mod 2 ^ k \<le> 2 ^ k - 1" 
    using mod_less_divisor[of "2 ^ k" "unat x", OF zero_less_power] by (simp add: less_Suc_eq_le[symmetric])
  ultimately show "unat x \<le> unat (last_word k w)" unfolding u by linarith
qed

lemma arith_last_law: "last_ip_law arith_last"
  unfolding last_ip_law_def
proof (intro allI impI)
  fix p assume p: "pfx_IsValid p"
  show "pfx_Contains p (arith_last p) \<and> Zone (arith_last p) = '''' \<and> (\<forall>x. pfx_Contains p x \<longrightarrow> \<not> addr_Less (arith_last p) x)"
  proof (cases p rule: arith_last.cases)
    case (1 w n)
    then show ?thesis
      using p last_word[where k = "32 - n" and w = w]
      by (auto simp: pfx_IsValid_def drop_bit_xor word_xor_eq_0 addr_Less_def not_less elim!: pfx_Contains.elims)
  next
    case (2 w z n)
    then show ?thesis
      using p last_word[where k = "128 - n" and w = w]
      by (auto simp: pfx_IsValid_def drop_bit_xor word_xor_eq_0 addr_Less_def not_less elim!: pfx_Contains.elims)
  qed (use p in \<open>auto simp: pfx_IsValid_def IsValid_def\<close>)
qed

definition demo_net :: prefix where
  "demo_net = Prefix (V4 0xC6120000) 16"

theorem memory_pool_consistent_witness:
  "\<exists>p0. pool_New arith_last (memory_ops hlist_ops) False demo_net (newMemoryStore hlist_ops 1000) = Some p0
     \<and> pfx_Contains demo_net (fst (pool_Lookup (memory_ops hlist_ops) ''A.com'' p0))"
proof -
  have "pool_New arith_last (memory_ops hlist_ops) False demo_net (newMemoryStore hlist_ops 1000) \<noteq> None"
    by (simp add: pool_New_def demo_net_def pfx_IsValid_def IsValid_def addr_Less_def last_word_def Let_def)
  then obtain p0 where p0: "pool_New arith_last (memory_ops hlist_ops) False demo_net (newMemoryStore hlist_ops 1000) = Some p0"
    by blast
  show ?thesis
    using p0 memory_pool_consistent[OF hl.linked_list_axioms arith_last_law p0 pool_reachable.start prod.collapse[symmetric]]
    by blast
qed

text \<open>
  A pool that takes over the store of an older one, as a reload of the configuration does, goes on
  handing out the older pool's addresses, also when its own range is another: then the
  address given to a name is outside the prefix of the pool.
\<close>

theorem clone_keeps_old_range:
  assumes "linked_list dl items" and "last_ip_law PrefixLastIP"
    and "pool_New PrefixLastIP (memory_ops dl) False net (newMemoryStore dl n) = Some old0"
    and "pool_reachable (memory_ops dl) (\<lambda>_. True) (\<lambda>_. True) old0 old"
    and "pool_Lookup (memory_ops dl) name old = (ip, old')"
    and "pool_New PrefixLastIP (memory_ops dl) False net' (newMemoryStore dl n) = Some p"
    and "\<not> pfx_Contains net' ip"
  shows "\<not> pfx_Contains net' (fst (pool_Lookup (memory_ops dl) name (pool_CloneFrom (memory_ops dl) old' p)))"
  using linked_list.clone_keeps[OF assms] .

definition other_net :: prefix where
  "other_net = Prefix (V4 0xC6130000) 16"

lemma disjoint_nets: "pfx_Contains demo_net ip \<Longrightarrow> \<not> pfx_Contains other_net ip"
  by (cases ip) (auto simp: demo_net_def other_net_def drop_bit_xor word_xor_eq_0)

lemma demo_pool: "\<exists>p0. pool_New arith_last (memory_ops hlist_ops) False demo_net (newMemoryStore hlist_ops 1000) = Some p0"
  "\<exists>p0. pool_New arith_last (memory_ops hlist_ops) False other_net (newMemoryStore hlist_ops 1000) = Some p0"
  by (simp_all add: pool_New_def demo_net_def other_net_def pfx_IsValid_def IsValid_def addr_Less_def last_word_def Let_def)

theorem clone_keeps_old_range_witness:
  "\<exists>old p. pool_New arith_last (memory_ops hlist_ops) False other_net (newMemoryStore hlist_ops 1000) = Some p
     \<and> \<not> pfx_Contains other_net (fst (pool_Lookup (memory_ops hlist_ops) ''a.com'' (pool_CloneFrom (memory_ops hlist_ops) old p)))"
proof -
  from demo_pool obtain old p where
    o': "pool_New arith_last (memory_ops hlist_ops) False demo_net (newMemoryStore hlist_ops 1000) = Some old"
    and p: "pool_New arith_last (memory_ops hlist_ops) False other_net (newMemoryStore hlist_ops 1000) = Some p"
    by blast
  obtain ip old' where l: "pool_Lookup (memory_ops hlist_ops) ''a.com'' old = (ip, old')" by fastforce
  have "pfx_Contains demo_net ip"
    using hl.memory_pool_spec[OF arith_last_law o' pool_reachable.start l] by blast
  from clone_keeps_old_range[OF hl.linked_list_axioms arith_last_law o' pool_reachable.start l p disjoint_nets[OF this]] p
  show ?thesis by blast
qed

end
