(* ===== verification/FakeFile.thy ===== *)
theory FakeFile imports FakePool begin

text \<open>
  The cache file as the store of the fake-ip pool: it keeps the contract of \<open>fake_store\<close> for names whose bytes are
  not an address of the pool and that are not the two names the pool saves its own state under.
\<close>

section \<open>The cache file keeps the contract\<close>

text \<open>The documented behaviour of a bucket: a map from byte strings to byte strings, whose keys have a bounded length.\<close>

definition bucket_key :: "bytes \<Rightarrow> bool" where
  "bucket_key k \<longleftrightarrow> 0 < length k \<and> length k \<le> 32768"

locale bucket =
  fixes bo :: "'b bucket_ops" and entries_of :: "'b \<Rightarrow> bytes \<Rightarrow> bytes option"
  assumes bo_Get: "bo_Get bo k b = entries_of b k"
    and bo_Put: "bucket_key k \<Longrightarrow> \<exists>b'. bo_Put bo k v b = Some b' \<and> entries_of b' = (entries_of b)(k \<mapsto> v)"
    and bo_Delete: "entries_of (bo_Delete bo k b) = (entries_of b)(k := None)"
    and bo_DeleteBucket: "entries_of (bo_DeleteBucket bo b) = (\<lambda>_. None)"

text \<open>
  The names and addresses a pool over the range \<open>R\<close> may use: names and addresses must be different keys, and
  the two names the pool keeps its own state under are taken.
\<close>

definition file_okH :: "addr set \<Rightarrow> string \<Rightarrow> bool" where
  "file_okH R h \<longleftrightarrow> bucket_key (string_bytes h) \<and> string_bytes h \<notin> AsSlice ` R \<and> h \<noteq> offsetKey \<and> h \<noteq> cycleKey"

definition file_binds :: "('b \<Rightarrow> bytes \<Rightarrow> bytes option) \<Rightarrow> addr set \<Rightarrow> 'b option \<Rightarrow> (string \<times> addr) set" where
  "file_binds entries_of R db = (case db of None \<Rightarrow> {}
     | Some b \<Rightarrow> {(h, i). file_okH R h \<and> i \<in> R \<and> entries_of b (string_bytes h) = Some (AsSlice i)})"

lemma byte_val_less: "byte_val c < 256"
  by (simp add: byte_val_def)

lemma bytes_string: "bytes_string (string_bytes s) = s"
  by (induction s) (auto simp: bytes_string_def string_bytes_def unsigned_of_nat take_bit_nat_eq_self byte_val_def)

lemma string_bytes_inj: "string_bytes h = string_bytes h' \<longleftrightarrow> h = h'"
  by (metis bytes_string)

definition plain_range :: "addr set \<Rightarrow> bool" where
  "plain_range R \<longleftrightarrow> (\<forall>i\<in>R. IsValid i \<and> Zone i = '''')"

lemma AsSlice_inj:
  assumes "plain_range R" and "i \<in> R" and "j \<in> R" shows "AsSlice i = AsSlice j \<longleftrightarrow> i = j"
  using assms AddrFromSlice_AsSlice unfolding plain_range_def by metis

lemma AsSlice_key: "plain_range R \<Longrightarrow> i \<in> R \<Longrightarrow> bucket_key (AsSlice i)"
  by (cases i) (auto simp: plain_range_def IsValid_def bucket_key_def length_AsSlice[simplified])

lemma AddrFromSlice_R: "plain_range R \<Longrightarrow> i \<in> R \<Longrightarrow> AddrFromSlice (AsSlice i) = i \<and> i \<noteq> NoAddr"
  using AddrFromSlice_AsSlice by (auto simp: plain_range_def IsValid_def)

locale file_store = bucket +
  fixes R :: "addr set"
  assumes plain: "plain_range R"

text \<open>The bucket of a store in order holds a set of pairs, each under both keys, and nothing else of the pool's.\<close>

definition file_rep :: "addr set \<Rightarrow> (bytes \<Rightarrow> bytes option) \<Rightarrow> (string \<times> addr) set \<Rightarrow> bool" where
  "file_rep R e B \<longleftrightarrow> (\<forall>x\<in>B. file_okH R (fst x) \<and> snd x \<in> R) \<and>
     (\<forall>h. file_okH R h \<longrightarrow> (\<forall>v. e (string_bytes h) = Some v \<longleftrightarrow> (\<exists>i. (h, i) \<in> B \<and> v = AsSlice i))) \<and>
     (\<forall>i\<in>R. \<forall>v. e (AsSlice i) = Some v \<longleftrightarrow> (\<exists>h. (h, i) \<in> B \<and> v = string_bytes h))"

lemma file_repD1: "file_rep R e B \<Longrightarrow> (h, i) \<in> B \<Longrightarrow>
    file_okH R h \<and> i \<in> R \<and> e (string_bytes h) = Some (AsSlice i) \<and> e (AsSlice i) = Some (string_bytes h)"
  unfolding file_rep_def by fastforce

lemma file_repD2: "file_rep R e B \<Longrightarrow> file_okH R h \<Longrightarrow> e (string_bytes h) = Some v \<Longrightarrow> \<exists>i. (h, i) \<in> B \<and> v = AsSlice i"
  unfolding file_rep_def by blast

lemma file_repD3: "file_rep R e B \<Longrightarrow> i \<in> R \<Longrightarrow> e (AsSlice i) = Some v \<Longrightarrow> \<exists>h. (h, i) \<in> B \<and> v = string_bytes h"
  unfolding file_rep_def by blast

lemma file_rep_unique:
  assumes "plain_range R" and "file_rep R e B" and "(h, i) \<in> B"
  shows "(h, j) \<in> B \<longleftrightarrow> j = i" and "(g, i) \<in> B \<longleftrightarrow> g = h"
  using file_repD1[OF assms(2)] assms(3) AsSlice_inj[OF assms(1)] string_bytes_inj
  by (metis option.inject)+

lemma file_key: "file_okH R h \<Longrightarrow> i \<in> R \<Longrightarrow> string_bytes h \<noteq> AsSlice i \<and> AsSlice i \<noteq> string_bytes h"
  unfolding file_okH_def by (metis imageI)

lemma file_rep_iff:
  "file_rep R e B \<Longrightarrow> file_okH R h \<Longrightarrow> e (string_bytes h) = Some v \<longleftrightarrow> (\<exists>i. (h, i) \<in> B \<and> v = AsSlice i)"
  "file_rep R e B \<Longrightarrow> i \<in> R \<Longrightarrow> e (AsSlice i) = Some v \<longleftrightarrow> (\<exists>h. (h, i) \<in> B \<and> v = string_bytes h)"
  unfolding file_rep_def by blast+

lemma file_rep_delete:
  assumes p: "plain_range R" and r: "file_rep R e B" and x: "(h, i) \<in> B"
  shows "file_rep R (e(AsSlice i := None, string_bytes h := None)) {x \<in> B. snd x \<noteq> i}"
proof -
  let ?e = "e(AsSlice i := None, string_bytes h := None)"
  have hi: "file_okH R h" "i \<in> R" using file_repD1[OF r x] by auto
  have k: "?e (string_bytes g) = (if g = h then None else e (string_bytes g))" if "file_okH R g" for g
    using file_key[OF that hi(2)] by (simp add: string_bytes_inj)
  have a: "?e (AsSlice j) = (if j = i then None else e (AsSlice j))" if "j \<in> R" for j
    using file_key[OF hi(1) that] AsSlice_inj[OF p that hi(2)] by simp
  have s: "(g, j) \<in> B \<Longrightarrow> g = h \<longleftrightarrow> j = i" for g j
    using file_rep_unique[OF p r x] by blast
  show ?thesis
    unfolding file_rep_def
  proof (intro conjI allI impI ballI)
    fix g v assume g: "file_okH R g"
    show "?e (string_bytes g) = Some v \<longleftrightarrow> (\<exists>j. (g, j) \<in> {x \<in> B. snd x \<noteq> i} \<and> v = AsSlice j)"
      unfolding k[OF g] using s x file_rep_iff(1)[OF r g, of v] by (cases "g = h") (simp, blast, simp, blast)
  next
    fix j v assume j: "j \<in> R"
    show "?e (AsSlice j) = Some v \<longleftrightarrow> (\<exists>g. (g, j) \<in> {x \<in> B. snd x \<noteq> i} \<and> v = string_bytes g)"
      unfolding a[OF j] using file_rep_iff(2)[OF r j, of v] by auto
  qed (use r in \<open>auto simp: file_rep_def\<close>)
qed

lemma file_rep_insert:
  assumes p: "plain_range R" and r: "file_rep R e B" and h: "file_okH R h" and i: "i \<in> R"
    and nh: "h \<notin> fst ` B" and ni: "i \<notin> snd ` B"
  shows "file_rep R (e(AsSlice i \<mapsto> string_bytes h, string_bytes h \<mapsto> AsSlice i)) (insert (h, i) B)"
proof -
  let ?e = "e(AsSlice i \<mapsto> string_bytes h, string_bytes h \<mapsto> AsSlice i)"
  have k: "?e (string_bytes g) = (if g = h then Some (AsSlice i) else e (string_bytes g))" if "file_okH R g" for g
    using file_key[OF that i] by (simp add: string_bytes_inj)
  have a: "?e (AsSlice j) = (if j = i then Some (string_bytes h) else e (AsSlice j))" if "j \<in> R" for j
    using file_key[OF h that] AsSlice_inj[OF p that i] by simp
  show ?thesis
    unfolding file_rep_def
  proof (intro conjI allI impI ballI)
    fix g v assume g: "file_okH R g"
    have "(h, j) \<notin> B" for j using nh by force
    then show "?e (string_bytes g) = Some v \<longleftrightarrow> (\<exists>j. (g, j) \<in> insert (h, i) B \<and> v = AsSlice j)"
      unfolding k[OF g] using file_rep_iff(1)[OF r g, of v] by auto
  next
    fix j v assume j: "j \<in> R"
    have "(g, i) \<notin> B" for g using ni by force
    then show "?e (AsSlice j) = Some v \<longleftrightarrow> (\<exists>g. (g, j) \<in> insert (h, i) B \<and> v = string_bytes g)"
      unfolding a[OF j] using file_rep_iff(2)[OF r j, of v] by auto
  qed (use r h i in \<open>auto simp: file_rep_def\<close>)
qed

definition file_valid :: "('b \<Rightarrow> bytes \<Rightarrow> bytes option) \<Rightarrow> addr set \<Rightarrow> 'b option \<Rightarrow> bool" where
  "file_valid entries_of R db \<longleftrightarrow> (\<exists>b. db = Some b \<and> file_rep R (entries_of b) (file_binds entries_of R db))"

lemma file_repI:
  assumes "plain_range R" and "file_rep R (entries_of b) B"
  shows "file_valid entries_of R (Some b) \<and> file_binds entries_of R (Some b) = B"
proof -
  have "x \<in> file_binds entries_of R (Some b) \<longleftrightarrow> x \<in> B" for x
  proof (cases x)
    case (Pair h i)
    show ?thesis
    proof
      assume "x \<in> file_binds entries_of R (Some b)"
      then have x: "file_okH R h" "i \<in> R" "entries_of b (string_bytes h) = Some (AsSlice i)"
        by (auto simp: file_binds_def Pair)
      then obtain j where j: "(h, j) \<in> B" "AsSlice i = AsSlice j" using file_repD2[OF assms(2)] by blast
      then have "i = j" using AsSlice_inj[OF assms(1) x(2)] file_repD1[OF assms(2) j(1)] by blast
      then show "x \<in> B" using j Pair by simp
    next
      assume "x \<in> B"
      then show "x \<in> file_binds entries_of R (Some b)" using file_repD1[OF assms(2)] by (simp add: file_binds_def Pair)
    qed
  qed
  then have "file_binds entries_of R (Some b) = B" by blast
  then show ?thesis using assms(2) by (simp add: file_valid_def)
qed

context file_store
begin

lemma file_db:
  assumes "file_valid entries_of R s"
  obtains b where "s = Some b" "file_rep R (entries_of b) (file_binds entries_of R s)"
  using assms that by (auto simp: file_valid_def)

lemma file_GetByHost_spec:
  assumes v: "file_valid entries_of R s" and h: "file_okH R h" and g: "so_GetByHost (file_ops bo) h s = (r, s')"
  shows "file_valid entries_of R s' \<and> file_binds entries_of R s' = file_binds entries_of R s
      \<and> (\<forall>i. r = Some i \<longleftrightarrow> (h, i) \<in> file_binds entries_of R s)"
proof -
  obtain b where b: "s = Some b" and rep: "file_rep R (entries_of b) (file_binds entries_of R s)" by (rule file_db[OF v])
  show ?thesis
  proof (cases "entries_of b (string_bytes h)")
    case None
    then show ?thesis using g b v file_repD1[OF rep] by (fastforce simp: file_ops_def file_GetByHost_def bo_Get)
  next
    case (Some w)
    then obtain j where j: "(h, j) \<in> file_binds entries_of R s" "w = AsSlice j" using file_repD2[OF rep h] by blast
    then have "r = Some j \<and> s' = s" using g b Some AddrFromSlice_R[OF plain] file_repD1[OF rep j(1)]
      by (auto simp: file_ops_def file_GetByHost_def bo_Get)
    then show ?thesis using v file_rep_unique(1)[OF plain rep j(1)] by auto
  qed
qed

lemma file_GetByIP_spec:
  assumes v: "file_valid entries_of R s" and i: "i \<in> R" and g: "so_GetByIP (file_ops bo) i s = (q, s')"
  shows "file_valid entries_of R s' \<and> file_binds entries_of R s' = file_binds entries_of R s
      \<and> (\<forall>h. q = Some h \<longleftrightarrow> (h, i) \<in> file_binds entries_of R s)"
proof -
  obtain b where b: "s = Some b" and rep: "file_rep R (entries_of b) (file_binds entries_of R s)" by (rule file_db[OF v])
  have q: "s' = s" "q = map_option bytes_string (entries_of b (AsSlice i))"
    using g b by (auto simp: file_ops_def file_GetByIP_def bo_Get)
  have "q = Some h \<longleftrightarrow> (h, i) \<in> file_binds entries_of R s" for h
    using q(2) file_repD1[OF rep, of h i] file_repD3[OF rep i] bytes_string
    by (cases "entries_of b (AsSlice i)") (simp, fastforce, fastforce)
  then show ?thesis using v q(1) by simp
qed

lemma file_Exist_spec:
  assumes v: "file_valid entries_of R s" and i: "i \<in> R"
  shows "so_Exist (file_ops bo) i s \<longleftrightarrow> (\<exists>h. (h, i) \<in> file_binds entries_of R s)"
proof -
  obtain q s' where g: "so_GetByIP (file_ops bo) i s = (q, s')" by fastforce
  then have "so_Exist (file_ops bo) i s \<longleftrightarrow> (\<exists>h. q = Some h)" by (simp add: file_ops_def file_Exist_def)
  then show ?thesis using file_GetByIP_spec[OF v i g] by simp
qed

lemma file_DelByIP_spec:
  assumes v: "file_valid entries_of R s" and i: "i \<in> R"
  shows "file_valid entries_of R (so_DelByIP (file_ops bo) i s)
    \<and> file_binds entries_of R (so_DelByIP (file_ops bo) i s) = {x \<in> file_binds entries_of R s. snd x \<noteq> i}"
proof -
  obtain b where b: "s = Some b" and rep: "file_rep R (entries_of b) (file_binds entries_of R s)" by (rule file_db[OF v])
  show ?thesis
  proof (cases "entries_of b (AsSlice i)")
    case None
    then have "(entries_of b)(AsSlice i := None) = entries_of b" by auto
    moreover have "{x \<in> file_binds entries_of R s. snd x \<noteq> i} = file_binds entries_of R s"
      using file_repD1[OF rep] None by fastforce
    moreover have "so_DelByIP (file_ops bo) i s = Some (bo_Delete bo (AsSlice i) b)"
      using None b by (simp add: file_ops_def file_DelByIP_def bo_Get)
    ultimately show ?thesis
      using file_repI[OF plain, of entries_of "bo_Delete bo (AsSlice i) b"] rep by (simp add: bo_Delete)
  next
    case (Some w)
    then obtain h where h: "w = string_bytes h" "(h, i) \<in> file_binds entries_of R s" using file_repD3[OF rep i] by blast
    then have "0 < length w" using file_repD1[OF rep h(2)] by (simp add: file_okH_def bucket_key_def)
    then have "so_DelByIP (file_ops bo) i s = Some (bo_Delete bo (string_bytes h) (bo_Delete bo (AsSlice i) b))"
      using Some b h by (simp add: file_ops_def file_DelByIP_def bo_Get)
    moreover have "entries_of (bo_Delete bo (string_bytes h) (bo_Delete bo (AsSlice i) b))
        = (entries_of b)(AsSlice i := None, string_bytes h := None)" by (simp add: bo_Delete)
    ultimately show ?thesis
      using file_repI[OF plain] file_rep_delete[OF plain rep h(2)] by metis
  qed
qed

lemma file_assign_spec:
  assumes v: "file_valid entries_of R s" and h: "file_okH R h" and i: "i \<in> R"
    and n: "h \<notin> fst ` file_binds entries_of R s" "i \<notin> snd ` file_binds entries_of R s"
  shows "file_valid entries_of R (so_PutByHost (file_ops bo) h i (so_PutByIP (file_ops bo) i h s))"
    and "file_binds entries_of R (so_PutByHost (file_ops bo) h i (so_PutByIP (file_ops bo) i h s))
        = insert (h, i) (file_binds entries_of R s)"
proof -
  obtain b where b: "s = Some b" and rep: "file_rep R (entries_of b) (file_binds entries_of R s)" by (rule file_db[OF v])
  obtain b1 where b1: "bo_Put bo (AsSlice i) (string_bytes h) b = Some b1"
    "entries_of b1 = (entries_of b)(AsSlice i \<mapsto> string_bytes h)"
    using bo_Put[OF AsSlice_key[OF plain i]] by blast
  have "bucket_key (string_bytes h)" using h by (simp add: file_okH_def)
  then obtain b2 where b2: "bo_Put bo (string_bytes h) (AsSlice i) b1 = Some b2"
    "entries_of b2 = (entries_of b)(AsSlice i \<mapsto> string_bytes h, string_bytes h \<mapsto> AsSlice i)"
    using bo_Put b1(2) by metis
  have "so_PutByHost (file_ops bo) h i (so_PutByIP (file_ops bo) i h s) = Some b2"
    using b b1 b2 by (simp add: file_ops_def file_PutByHost_def file_PutByIP_def)
  then show "file_valid entries_of R (so_PutByHost (file_ops bo) h i (so_PutByIP (file_ops bo) i h s))"
    "file_binds entries_of R (so_PutByHost (file_ops bo) h i (so_PutByIP (file_ops bo) i h s))
        = insert (h, i) (file_binds entries_of R s)"
    using file_repI[OF plain, of entries_of b2] file_rep_insert[OF plain rep h i n] b2(2) by simp_all
qed

lemma file_flush_spec:
  "so_FlushFakeIP (file_ops bo) s = (Flushed, s') \<Longrightarrow> file_valid entries_of R s' \<and> file_binds entries_of R s' = {}"
  using file_repI[OF plain, of entries_of "bo_DeleteBucket bo (the s)" "{}"]
  by (cases s) (auto simp: file_ops_def file_FlushFakeIP_def bo_DeleteBucket file_rep_def)

lemma file_one:
  assumes v: "file_valid entries_of R s" and x: "(h, i) \<in> file_binds entries_of R s"
  shows "(h, j) \<in> file_binds entries_of R s \<longleftrightarrow> j = i" and "(g, i) \<in> file_binds entries_of R s \<longleftrightarrow> g = h"
  using v file_rep_unique[OF plain _ x] unfolding file_valid_def by blast+

end

sublocale file_store \<subseteq> disk: fake_store "file_ops bo" "file_valid entries_of R" "file_binds entries_of R" "file_okH R" "\<lambda>i. i \<in> R"
proof unfold_locales
  show "file_valid entries_of R s \<Longrightarrow> (h, i) \<in> file_binds entries_of R s \<Longrightarrow> (h, i') \<in> file_binds entries_of R s \<Longrightarrow> i = i'"
    "file_valid entries_of R s \<Longrightarrow> (h, i) \<in> file_binds entries_of R s \<Longrightarrow> (h', i) \<in> file_binds entries_of R s \<Longrightarrow> h = h'"
    for s h h' i i' using file_one by blast+
qed (rule file_GetByHost_spec file_GetByIP_spec file_Exist_spec file_DelByIP_spec file_flush_spec,
    assumption+ | simp add: file_assign_spec)+

section \<open>Persistent pools\<close>

text \<open>The pool of \<open>New\<close> over the cache file is the one in memory with its state restored.\<close>

lemma pool_New_persistent:
  "pool_New PrefixLastIP so True net s = map_option (pool_restoreState so True) (pool_New PrefixLastIP so False net s)"
  by (simp add: pool_New_def pool_restoreState_def[of _ False] Let_def)

text \<open>The addresses a pool over a prefix hands out.\<close>

definition pool_addrs :: "'s pool \<Rightarrow> addr set" where
  "pool_addrs p = {x. between (p_first p) (p_last p) x}"

lemma plain_pool_addrs: "plain_range (pool_addrs p)"
  by (auto simp: plain_range_def pool_addrs_def between_def IsValid_def)

lemma state_keys: "offsetKey \<noteq> cycleKey" "bucket_key (string_bytes offsetKey)" "bucket_key (string_bytes cycleKey)"
  by (simp_all add: offsetKey_def cycleKey_def bucket_key_def string_bytes_def)

lemma state_key_not_ip: "string_bytes offsetKey \<noteq> AsSlice i" "string_bytes cycleKey \<noteq> AsSlice i"
proof -
  have "length (string_bytes offsetKey) = 18" "length (string_bytes cycleKey) = 17"
    by (simp_all add: offsetKey_def cycleKey_def string_bytes_def)
  moreover have "length (AsSlice i) \<in> {0, 4, 16}" by (cases i) (simp_all add: length_AsSlice)
  ultimately show "string_bytes offsetKey \<noteq> AsSlice i" "string_bytes cycleKey \<noteq> AsSlice i" by force+
qed

context file_store
begin

lemma file_rep_state_key:
  assumes "file_rep R e B" and "k = offsetKey \<or> k = cycleKey"
  shows "file_rep R (e(string_bytes k \<mapsto> v)) B"
proof -
  have "file_okH R h \<Longrightarrow> string_bytes h \<noteq> string_bytes k" for h using assms(2) by (auto simp: file_okH_def string_bytes_inj)
  moreover have "AsSlice i \<noteq> string_bytes k" for i using assms(2) state_key_not_ip by metis
  ultimately show ?thesis using assms(1) unfolding file_rep_def by simp
qed

lemma file_put_state:
  assumes v: "file_valid entries_of R s" and k: "k = offsetKey \<or> k = cycleKey"
  obtains b b' where "s = Some b" "so_PutByHost (file_ops bo) k i s = Some b'"
    "entries_of b' = (entries_of b)(string_bytes k \<mapsto> AsSlice i)"
    "file_valid entries_of R (Some b') \<and> file_binds entries_of R (Some b') = file_binds entries_of R s"
proof -
  obtain b where b: "s = Some b" and rep: "file_rep R (entries_of b) (file_binds entries_of R s)" by (rule file_db[OF v])
  have "bucket_key (string_bytes k)" using k state_keys by auto
  then obtain b' where b': "bo_Put bo (string_bytes k) (AsSlice i) b = Some b'"
    "entries_of b' = (entries_of b)(string_bytes k \<mapsto> AsSlice i)"
    using bo_Put by blast
  have "so_PutByHost (file_ops bo) k i s = Some b'" using b b' by (simp add: file_ops_def file_PutByHost_def)
  then show ?thesis
    by (rule that[OF b _ b'(2) file_repI[where entries_of = entries_of and b = b', OF plain file_rep_state_key[OF rep k, of "AsSlice i", folded b'(2)]]])
qed

text \<open>Saving the state keeps the pairs and leaves the offset under its key.\<close>

lemma store_state:
  assumes v: "file_valid entries_of R (p_store p)"
  obtains b where "p_store (pool_StoreState (file_ops bo) True p) = Some b"
    "file_valid entries_of R (Some b)" "file_binds entries_of R (Some b) = file_binds entries_of R (p_store p)"
    "entries_of b (string_bytes offsetKey) = Some (AsSlice (p_offset p))"
proof -
  obtain b0 b1 where b1: "so_PutByHost (file_ops bo) offsetKey (p_offset p) (p_store p) = Some b1"
    "entries_of b1 = (entries_of b0)(string_bytes offsetKey \<mapsto> AsSlice (p_offset p))"
    "file_valid entries_of R (Some b1) \<and> file_binds entries_of R (Some b1) = file_binds entries_of R (p_store p)"
    using file_put_state[OF v, of offsetKey "p_offset p"] by blast
  show ?thesis
  proof (cases "p_cycle p")
    case True
    obtain b2 where b2: "so_PutByHost (file_ops bo) cycleKey (p_offset p) (Some b1) = Some b2"
      "entries_of b2 = (entries_of b1)(string_bytes cycleKey \<mapsto> AsSlice (p_offset p))"
      "file_valid entries_of R (Some b2) \<and> file_binds entries_of R (Some b2) = file_binds entries_of R (Some b1)"
      using file_put_state[OF conjunct1[OF b1(3)], of cycleKey "p_offset p"] by blast
    show ?thesis
      using that[of b2] True b1 b2 state_keys(1) by (simp add: pool_StoreState_def string_bytes_inj)
  qed (use that[of b1] b1 in \<open>simp add: pool_StoreState_def\<close>)
qed

lemma restore_state:
  assumes "entries_of b (string_bytes offsetKey) = Some (AsSlice o1)" and "IsValid o1" and "Zone o1 = ''''"
    and "pfx_Contains (p_ipnet p) o1" and "p_store p = Some b"
  shows "p_offset (pool_restoreState (file_ops bo) True p) = o1 \<and> p_store (pool_restoreState (file_ops bo) True p) = Some b
    \<and> p_first (pool_restoreState (file_ops bo) True p) = p_first p \<and> p_last (pool_restoreState (file_ops bo) True p) = p_last p"
proof -
  have "so_GetByHost (file_ops bo) offsetKey (Some b) = (Some o1, Some b)"
    using assms(1-3) AddrFromSlice_AsSlice[of o1] by (auto simp: file_ops_def file_GetByHost_def bo_Get IsValid_def)
  moreover have "snd (so_GetByHost (file_ops bo) cycleKey (Some b)) = Some b"
    by (auto simp: file_ops_def file_GetByHost_def split: option.splits)
  ultimately show ?thesis
    using assms(4,5) by (cases "so_GetByHost (file_ops bo) cycleKey (Some b)") (simp add: pool_restoreState_def Let_def)
qed

lemma restart:
  assumes law: "last_ip_law PrefixLastIP"
    and new: "pool_New PrefixLastIP (file_ops bo) False net s0 = Some p0" and R: "R = pool_addrs p0"
    and ok: "pool_ok (file_valid entries_of R) (\<lambda>i. i \<in> R) p" and p: "p_first p = p_first p0" "p_last p = p_last p0"
  obtains p' where "pool_New PrefixLastIP (file_ops bo) True net (p_store (pool_StoreState (file_ops bo) True p)) = Some p'"
    "pool_ok (file_valid entries_of R) (\<lambda>i. i \<in> R) p'" "p_offset p' = p_offset p"
    "p_first p' = p_first p" "p_last p' = p_last p"
    "file_binds entries_of R (p_store p') = file_binds entries_of R (p_store p)"
proof -
  have "file_valid entries_of R (p_store p)" using ok by (simp add: pool_ok_def)
  then obtain b where b: "p_store (pool_StoreState (file_ops bo) True p) = Some b"
    "file_valid entries_of R (Some b)" "file_binds entries_of R (Some b) = file_binds entries_of R (p_store p)"
    "entries_of b (string_bytes offsetKey) = Some (AsSlice (p_offset p))"
    by (rule store_state)
  define q where "q = p0\<lparr>p_store := Some b\<rparr>"
  have q: "pool_New PrefixLastIP (file_ops bo) False net (Some b) = Some q"
    using new by (auto simp: pool_New_def Let_def q_def pool_restoreState_def split: if_splits)
  note N = pool_New_range[OF law q]
  have "pool_range p" using ok by (simp add: pool_ok_def)
  then have "p_offset p = addr_Prev (p_first q) \<or> between (p_first q) (p_last q) (p_offset p)"
    using p by (simp add: pool_range_def q_def)
  then have "pfx_Contains net (p_offset p)" using N by auto
  moreover from this have "IsValid (p_offset p) \<and> Zone (p_offset p) = ''''"
    by (cases "(net, p_offset p)" rule: pfx_Contains.cases) (auto simp: IsValid_def)
  ultimately have "p_offset (pool_restoreState (file_ops bo) True q) = p_offset p
    \<and> p_store (pool_restoreState (file_ops bo) True q) = Some b
    \<and> p_first (pool_restoreState (file_ops bo) True q) = p_first q \<and> p_last (pool_restoreState (file_ops bo) True q) = p_last q"
    using restore_state[OF b(4), of q] N by simp
  moreover have "pool_New PrefixLastIP (file_ops bo) True net (p_store (pool_StoreState (file_ops bo) True p))
      = Some (pool_restoreState (file_ops bo) True q)"
    by (simp add: pool_New_persistent b(1) q)
  ultimately show ?thesis
    using that b ok p by (simp add: pool_ok_def pool_range_def q_def)
qed

text \<open>A pool over an empty cache file.\<close>

lemma first_start:
  assumes law: "last_ip_law PrefixLastIP" and e: "entries_of b0 = (\<lambda>_. None)"
    and new: "pool_New PrefixLastIP (file_ops bo) True net (Some b0) = Some p0"
  shows "pool_New PrefixLastIP (file_ops bo) False net (Some b0) = Some p0"
proof -
  obtain q where q: "pool_New PrefixLastIP (file_ops bo) False net (Some b0) = Some q" "p0 = pool_restoreState (file_ops bo) True q"
    using new by (auto simp: pool_New_persistent)
  have "p_store q = Some b0" using pool_New_range[OF law q(1)] by blast
  then have "pool_restoreState (file_ops bo) True q = q"
    using e by (simp add: pool_restoreState_def file_ops_def file_GetByHost_def file_Exist_def file_GetByIP_def bo_Get Let_def)
  then show ?thesis using q by simp
qed

lemma persistent_start:
  assumes law: "last_ip_law PrefixLastIP" and e: "entries_of b0 = (\<lambda>_. None)"
    and new: "pool_New PrefixLastIP (file_ops bo) True net (Some b0) = Some p0" and R: "R = pool_addrs p0"
  shows "pool_ok (file_valid entries_of R) (\<lambda>i. i \<in> R) p0 \<and> file_binds entries_of R (p_store p0) = {}"
proof -
  have "file_rep R (entries_of b0) {}" by (simp add: file_rep_def e)
  then have "file_valid entries_of R (Some b0) \<and> file_binds entries_of R (Some b0) = {}" by (rule file_repI[OF plain])
  then show ?thesis
    using pool_New_range[OF law first_start[OF law e new]] by (simp add: pool_ok_def R pool_addrs_def)
qed

lemma persistent_restart:
  assumes law: "last_ip_law PrefixLastIP" and e: "entries_of b0 = (\<lambda>_. None)"
    and new: "pool_New PrefixLastIP (file_ops bo) True net (Some b0) = Some p0" and R: "R = pool_addrs p0"
    and r: "pool_reachable (file_ops bo) (file_okH R) (\<lambda>i. i \<in> R) p0 p"
    and h: "file_okH R (ToLower name)" and l: "pool_Lookup (file_ops bo) name p = (ip, q)"
  shows "ip \<in> R \<and> fst (pool_LookBack (file_ops bo) ip q) = Some (ToLower name) \<and>
    (\<exists>p'. pool_New PrefixLastIP (file_ops bo) True net (p_store (pool_StoreState (file_ops bo) True q)) = Some p' \<and>
       p_offset p' = p_offset q \<and>
       fst (pool_Lookup (file_ops bo) name p') = ip \<and> fst (pool_LookBack (file_ops bo) ip p') = Some (ToLower name))"
proof -
  note S = persistent_start[OF law e new R]
  have none: "\<forall>x\<in>file_binds entries_of R (p_store p0). between (p_first p0) (p_last p0) (snd x)" using S by simp
  have rq: "pool_reachable (file_ops bo) (file_okH R) (\<lambda>i. i \<in> R) p0 q"
    using pool_reachable.lookup[OF r h] l by simp
  have q: "pool_ok (file_valid entries_of R) (\<lambda>i. i \<in> R) q" "p_first q = p_first p0" "p_last q = p_last p0"
    using disk.reachable_ok[OF rq conjunct1[OF S] none] by auto
  have b: "(ToLower name, ip) \<in> file_binds entries_of R (p_store q)"
    using disk.lookup_spec[OF conjunct1[OF disk.reachable_ok[OF r conjunct1[OF S] none]] h l] by blast
  note B = disk.pool_bijective[OF r conjunct1[OF S] none h l]
  then have ip: "ip \<in> R" by (simp add: R pool_addrs_def)
  obtain p' where p': "pool_New PrefixLastIP (file_ops bo) True net (p_store (pool_StoreState (file_ops bo) True q)) = Some p'"
    "pool_ok (file_valid entries_of R) (\<lambda>i. i \<in> R) p'" "p_offset p' = p_offset q"
    "file_binds entries_of R (p_store p') = file_binds entries_of R (p_store q)"
    by (rule restart[OF law first_start[OF law e new] R q]) blast
  have "fst (pool_Lookup (file_ops bo) name p') = ip" using disk.lookup_again[OF p'(2) h] b p'(4) by simp
  moreover have "fst (pool_LookBack (file_ops bo) ip p') = Some (ToLower name)"
    using disk.lookback_spec[OF p'(2) ip prod.collapse[symmetric]] b p'(4) by blast
  ultimately show ?thesis using B ip p' by blast
qed

end

context file_store
begin

text \<open>The first name of an empty pool takes the address of the new offset.\<close>

lemma first_offset0:
  assumes law: "last_ip_law PrefixLastIP" and e: "entries_of b0 = (\<lambda>_. None)"
    and new: "pool_New PrefixLastIP (file_ops bo) True net (Some b0) = Some p0" and R: "R = pool_addrs p0"
    and h: "file_okH R (ToLower name)" and l: "pool_Lookup (file_ops bo) name p0 = (ip, q)"
  shows "ip \<in> R \<and> p_offset q = ip \<and> (\<exists>b. p_store q = Some b)"
proof -
  note S = persistent_start[OF law e new R]
  have "p_store p0 = Some b0" using pool_New_range[OF law first_start[OF law e new]] by blast
  then have "p_offset q = ip"
    using l e by (auto simp: pool_Lookup_def file_ops_def file_GetByHost_def bo_Get pool_get_def Let_def)
  moreover have "ip \<in> R" "file_valid entries_of R (p_store q)"
    using disk.pool_bijective[OF pool_reachable.start conjunct1[OF S] _ h l] disk.lookup_spec[OF conjunct1[OF S] h l] S
    by (auto simp: R pool_addrs_def pool_ok_def)
  ultimately show ?thesis by (auto simp: file_valid_def)
qed

end

lemma file_store_addrs: "bucket bo entries_of \<Longrightarrow> file_store bo entries_of (pool_addrs p)"
  by (simp add: file_store_def file_store_axioms_def plain_pool_addrs)

text \<open>
  C9: a persistent pool over an empty cache file gives every host name it may hold one address of its range,
  finds the name again from the address, and after the state is saved and a new pool over the same prefix
  is made from the file, as a restart does, goes on from the same offset with the same assignments. Names
  are excluded whose bytes are an address of the pool, and the two names the pool saves its state under.
\<close>

theorem persistent_pool_restarts:
  assumes "bucket bo entries_of" and "last_ip_law PrefixLastIP" and "entries_of b0 = (\<lambda>_. None)"
    and "pool_New PrefixLastIP (file_ops bo) True net (Some b0) = Some p0"
    and "pool_reachable (file_ops bo) (file_okH (pool_addrs p0)) (\<lambda>i. i \<in> pool_addrs p0) p0 p"
    and "file_okH (pool_addrs p0) (ToLower name)" and "pool_Lookup (file_ops bo) name p = (ip, q)"
  shows "pfx_Contains net ip \<and> fst (pool_LookBack (file_ops bo) ip q) = Some (ToLower name) \<and>
    (\<exists>p'. pool_New PrefixLastIP (file_ops bo) True net (p_store (pool_StoreState (file_ops bo) True q)) = Some p' \<and>
       p_offset p' = p_offset q \<and>
       fst (pool_Lookup (file_ops bo) name p') = ip \<and> fst (pool_LookBack (file_ops bo) ip p') = Some (ToLower name))"
proof -
  note fs = file_store_addrs[OF assms(1), of p0]
  have "ip \<in> pool_addrs p0 \<Longrightarrow> pfx_Contains net ip"
    using pool_New_range[OF assms(2) file_store.first_start[OF fs assms(2-4)]] by (simp add: pool_addrs_def)
  then show ?thesis using file_store.persistent_restart[OF fs assms(2-4) refl assms(5-7)] by blast
qed

text \<open>A bucket in memory.\<close>

definition map_bucket :: "(bytes \<Rightarrow> bytes option) bucket_ops" where
  "map_bucket = \<lparr>bo_Get = (\<lambda>k b. b k), bo_Put = (\<lambda>k v b. if bucket_key k then Some (b(k \<mapsto> v)) else None),
     bo_Delete = (\<lambda>k b. b(k := None)), bo_DeleteBucket = (\<lambda>b _. None)\<rparr>"

interpretation mb: bucket map_bucket "\<lambda>b. b"
  by unfold_locales (simp_all add: map_bucket_def)

lemma demo_file_pool:
  obtains p0 where "pool_New arith_last (file_ops map_bucket) True demo_net (Some (\<lambda>_. None)) = Some p0"
  by (simp add: pool_New_persistent pool_New_def demo_net_def pfx_IsValid_def IsValid_def addr_Less_def last_word_def
      Let_def pool_restoreState_def[of _ False])

lemma name_ok: "h = ''a.com'' \<Longrightarrow> file_okH (pool_addrs p) h"
proof -
  have "length (string_bytes ''a.com'') \<noteq> length (AsSlice i)" for i
    by (cases i) (simp_all add: length_AsSlice string_bytes_def)
  then have "string_bytes ''a.com'' \<noteq> AsSlice i" for i by metis
  then show "h = ''a.com'' \<Longrightarrow> file_okH (pool_addrs p) h"
    by (auto simp: file_okH_def bucket_key_def offsetKey_def cycleKey_def string_bytes_def)
qed

theorem persistent_pool_restarts_witness:
  "\<exists>q p'. pool_New arith_last (file_ops map_bucket) True demo_net (p_store (pool_StoreState (file_ops map_bucket) True q)) = Some p'
     \<and> pfx_Contains demo_net (fst (pool_Lookup (file_ops map_bucket) ''A.com'' p'))"
proof -
  obtain p0 where p0: "pool_New arith_last (file_ops map_bucket) True demo_net (Some (\<lambda>_. None)) = Some p0"
    by (rule demo_file_pool)
  obtain ip q where l: "pool_Lookup (file_ops map_bucket) ''A.com'' p0 = (ip, q)" by fastforce
  have "ToLower ''A.com'' = ''a.com''" by code_simp
  then show ?thesis
    using persistent_pool_restarts[OF mb.bucket_axioms arith_last_law refl p0 pool_reachable.start name_ok l] by metis
qed

section \<open>Where persistent pools go wrong\<close>

text \<open>A file that binds a name and saves an offset of the range gives the name's address in any range.\<close>

context bucket
begin

lemma restored_name:
  assumes "entries_of b (string_bytes offsetKey) = Some (AsSlice o1)" and "pfx_Contains net o1" and "Zone o1 = ''''"
    and "entries_of b (string_bytes (ToLower name)) = Some (AsSlice ip)" and "IsValid ip" and "Zone ip = ''''"
    and "pool_New PrefixLastIP (file_ops bo) True net (Some b) = Some p"
  shows "fst (pool_Lookup (file_ops bo) name p) = ip"
proof -
  obtain q where q: "pool_New PrefixLastIP (file_ops bo) False net (Some b) = Some q" "p = pool_restoreState (file_ops bo) True q"
    using assms(7) by (auto simp: pool_New_persistent)
  then have "p_ipnet q = net" "p_store q = Some b"
    by (auto simp: pool_New_def pool_restoreState_def Let_def split: if_splits)
  moreover have "IsValid o1" using assms(2) by (cases "(net, o1)" rule: pfx_Contains.cases) (auto simp: IsValid_def)
  ultimately have "p_store p = Some b"
    using file_store.restore_state[of bo entries_of "{}" b o1 q] assms(1-3) q bucket_axioms
    by (simp add: file_store_def file_store_axioms_def plain_range_def)
  then show ?thesis
    using assms(4-6) AddrFromSlice_AsSlice[of ip]
    by (auto simp: pool_Lookup_def file_ops_def file_GetByHost_def bo_Get IsValid_def)
qed

lemma lookup_state_key:
  assumes "IsValid (p_offset p)" and "Zone (p_offset p) = ''''" and "p_store p = Some b"
  shows "fst (pool_Lookup (file_ops bo) offsetKey (pool_StoreState (file_ops bo) True p)) = p_offset p"
proof -
  obtain b1 where b1: "bo_Put bo (string_bytes offsetKey) (AsSlice (p_offset p)) b = Some b1"
    "entries_of b1 = (entries_of b)(string_bytes offsetKey \<mapsto> AsSlice (p_offset p))"
    using bo_Put[OF state_keys(2)] by blast
  obtain b2 where b2: "bo_Put bo (string_bytes cycleKey) (AsSlice (p_offset p)) b1 = Some b2"
    "entries_of b2 = (entries_of b1)(string_bytes cycleKey \<mapsto> AsSlice (p_offset p))"
    using bo_Put[OF state_keys(3)] by blast
  obtain b' where b': "p_store (pool_StoreState (file_ops bo) True p) = Some b'"
    "entries_of b' (string_bytes offsetKey) = Some (AsSlice (p_offset p))"
    using assms(3) b1 b2 state_keys(1)
    by (cases "p_cycle p") (simp_all add: pool_StoreState_def file_ops_def file_PutByHost_def string_bytes_inj)
  have "ToLower offsetKey = offsetKey" by code_simp
  then show ?thesis
    using assms(1,2) b' AddrFromSlice_AsSlice[of "p_offset p"]
    by (auto simp: pool_Lookup_def file_ops_def file_GetByHost_def bo_Get IsValid_def)
qed

end

text \<open>
  After a pool has saved its state in the cache file, the host name \<open>key-offset-fake-ip\<close> is given the pool's
  current offset, the address of the host that came last, and not one of its own.
\<close>

theorem state_key_takes_address:
  assumes "bucket bo entries_of" and "last_ip_law PrefixLastIP" and "entries_of b0 = (\<lambda>_. None)"
    and "pool_New PrefixLastIP (file_ops bo) True net (Some b0) = Some p0"
    and "file_okH (pool_addrs p0) (ToLower name)" and "pool_Lookup (file_ops bo) name p0 = (ip, q)"
  shows "fst (pool_Lookup (file_ops bo) ''key-offset-fake-ip'' (pool_StoreState (file_ops bo) True q)) = ip"
proof -
  note fs = file_store_addrs[OF assms(1), of p0]
  obtain b where b: "ip \<in> pool_addrs p0" "p_offset q = ip" "p_store q = Some b"
    using file_store.first_offset0[OF fs assms(2-4) refl assms(5,6)] by blast
  then have "IsValid (p_offset q)" "Zone (p_offset q) = ''''"
    using plain_pool_addrs[of p0] by (auto simp: plain_range_def)
  from bucket.lookup_state_key[OF assms(1) this b(3)] b(2) show ?thesis by (simp add: offsetKey_def)
qed

theorem state_key_takes_address_witness:
  "\<exists>p0 q ip. pool_New arith_last (file_ops map_bucket) True demo_net (Some (\<lambda>_. None)) = Some p0
     \<and> pool_Lookup (file_ops map_bucket) ''a.com'' p0 = (ip, q)
     \<and> fst (pool_Lookup (file_ops map_bucket) ''key-offset-fake-ip'' (pool_StoreState (file_ops map_bucket) True q)) = ip"
proof -
  obtain p0 where p0: "pool_New arith_last (file_ops map_bucket) True demo_net (Some (\<lambda>_. None)) = Some p0"
    by (rule demo_file_pool)
  obtain ip q where l: "pool_Lookup (file_ops map_bucket) ''a.com'' p0 = (ip, q)" by fastforce
  have "ToLower ''a.com'' = ''a.com''" by code_simp
  then show ?thesis
    using state_key_takes_address[OF mb.bucket_axioms arith_last_law refl p0 _ l] name_ok p0 l by metis
qed

text \<open>
  A persistent pool made again over a smaller prefix keeps the whole file when the saved offset is in the new
  prefix, and goes on handing out an address the file has for a name, also when it is outside the prefix.
\<close>

theorem restart_keeps_foreign_address:
  assumes "bucket bo entries_of" and "pool_New PrefixLastIP (file_ops bo) True net (Some b) = Some p"
    and "entries_of b (string_bytes offsetKey) = Some (AsSlice off)" and "pfx_Contains net off" and "Zone off = ''''"
    and "entries_of b (string_bytes (ToLower name)) = Some (AsSlice ip)" and "IsValid ip" and "Zone ip = ''''"
    and "\<not> pfx_Contains net ip"
  shows "\<not> pfx_Contains net (fst (pool_Lookup (file_ops bo) name p))"
  using bucket.restored_name[OF assms(1,3-8,2)] assms(9) by simp

theorem restart_keeps_foreign_address_witness:
  "\<exists>p. pool_New arith_last (file_ops map_bucket) True (Prefix (V4 0xC6120000) 24)
      (Some [string_bytes offsetKey \<mapsto> AsSlice (V4 0xC6120008), string_bytes ''a.com'' \<mapsto> AsSlice (V4 0xC6120508)]) = Some p
    \<and> \<not> pfx_Contains (Prefix (V4 0xC6120000) 24) (fst (pool_Lookup (file_ops map_bucket) ''a.com'' p))"
proof -
  let ?net = "Prefix (V4 0xC6120000) 24"
  let ?b = "[string_bytes offsetKey \<mapsto> AsSlice (V4 0xC6120008), string_bytes ''a.com'' \<mapsto> AsSlice (V4 0xC6120508)]"
  obtain p where p: "pool_New arith_last (file_ops map_bucket) True ?net (Some ?b) = Some p"
    by (simp add: pool_New_persistent pool_New_def pfx_IsValid_def IsValid_def addr_Less_def last_word_def
      Let_def pool_restoreState_def[of _ False])
  have "ToLower ''a.com'' = ''a.com''" by code_simp
  then show ?thesis
    using restart_keeps_foreign_address[OF mb.bucket_axioms p, of "V4 0xC6120008" "''a.com''" "V4 0xC6120508"] p
    by (simp add: string_bytes_inj offsetKey_def IsValid_def drop_bit_xor)
qed

end
