(* ===== verification/DnsMsg.thy ===== *)
theory DnsMsg imports NetIP begin

text \<open>
  DNS messages and what dns/util.go, dns/edns0_subnet.go and dns/rcode.go do to them. The message type is
  the one of the package miekg/dns: its fields are data here, its functions (\<open>SetRcode\<close>, \<open>SetQuestion\<close>,
  \<open>Fqdn\<close>, \<open>Question.String\<close>) are the record \<open>dns_lib\<close>, an argument, with their documented
  behaviour in the locale \<open>dns_library\<close>. A message is a value: \<open>Copy\<close> is the message itself. The
  generic helpers of the package lo (least element, clamp, filter, every) are written out.
\<close>

section \<open>Messages\<close>

definition TypeA :: u16 where "TypeA = 1"
definition TypeCNAME :: u16 where "TypeCNAME = 5"
definition TypeTXT :: u16 where "TypeTXT = 16"
definition TypeAAAA :: u16 where "TypeAAAA = 28"
definition TypeOPT :: u16 where "TypeOPT = 41"
definition TypeSVCB :: u16 where "TypeSVCB = 64"
definition TypeHTTPS :: u16 where "TypeHTTPS = 65"
definition ClassINET :: u16 where "ClassINET = 1"

lemmas dns_types = TypeA_def TypeCNAME_def TypeTXT_def TypeAAAA_def TypeOPT_def TypeSVCB_def TypeHTTPS_def

datatype edns_option =
    Subnet (su_Code: u16) (su_Family: u16) (su_Netmask: u8) (su_Address: bytes)
  | OtherOption u16

text \<open>The data of a record: the concrete types the code tells apart.\<close>

datatype rdata = RA bytes | RAAAA bytes | RCNAME string | ROPT "edns_option list" | RHTTPS "bytes list" | ROther

record rr =
  rr_Name :: string
  rr_Rrtype :: u16
  rr_Class :: u16
  rr_Ttl :: u32
  rr_Data :: rdata

record question =
  qu_Name :: string
  qu_Qtype :: u16
  qu_Qclass :: u16

datatype rcode = RcodeSuccess | RcodeFormatError | RcodeServerFailure | RcodeNameError | RcodeNotImplemented
  | RcodeRefused | RcodeOther nat

record msg =
  m_Id :: u16
  m_Response :: bool
  m_Opcode :: int
  m_Authoritative :: bool
  m_RecursionAvailable :: bool
  m_Rcode :: rcode
  m_Question :: "question list"
  m_Answer :: "rr list"
  m_Ns :: "rr list"
  m_Extra :: "rr list"

definition empty_msg :: msg where
  "empty_msg = \<lparr>m_Id = 0, m_Response = False, m_Opcode = 0, m_Authoritative = False, m_RecursionAvailable = False,
     m_Rcode = RcodeSuccess, m_Question = [], m_Answer = [], m_Ns = [], m_Extra = []\<rparr>"

text \<open>\<open>dl_SetRcode m r c\<close> makes \<open>m\<close> the reply with the code \<open>c\<close> to \<open>r\<close>; \<open>dl_Query\<close> is \<open>SetQuestion\<close> on a new message.\<close>

record dns_lib =
  dl_SetRcode :: "msg \<Rightarrow> msg \<Rightarrow> rcode \<Rightarrow> msg"
  dl_Query :: "string \<Rightarrow> u16 \<Rightarrow> msg"
  dl_Fqdn :: "string \<Rightarrow> string"
  dl_QString :: "question \<Rightarrow> string"

locale dns_library =
  fixes lib :: dns_lib
  assumes SetRcode: "dl_SetRcode lib m r c = m' \<Longrightarrow>
      m_Rcode m' = c \<and> m_Id m' = m_Id r \<and> m_Response m' \<and> m_Answer m' = m_Answer m \<and> m_Ns m' = m_Ns m \<and>
      m_Extra m' = m_Extra m \<and> (m_Question r \<noteq> [] \<longrightarrow> m_Question m' = [hd (m_Question r)])"
    and Query: "m_Question (dl_Query lib name t) = [\<lparr>qu_Name = name, qu_Qtype = t, qu_Qclass = ClassINET\<rparr>]"
    and QString: "dl_QString lib q = dl_QString lib q' \<longleftrightarrow> q = q'"

section \<open>TTLs\<close>

definition minimalTTL :: "rr list \<Rightarrow> u32" where
  "minimalTTL records = (case records of [] \<Rightarrow> 0 | r # rs \<Rightarrow> fold min (map rr_Ttl rs) (rr_Ttl r))"

definition Clamp :: "u32 \<Rightarrow> u32 \<Rightarrow> u32 \<Rightarrow> u32" where
  "Clamp x lo hi = (if x < lo then lo else if x > hi then hi else x)"

definition updateTTL :: "rr list \<Rightarrow> u32 \<Rightarrow> rr list" where
  "updateTTL records ttl =
     (if length records = 0 then records
      else
        let delta = minimalTTL records - ttl in
        map (\<lambda>r. r\<lparr>rr_Ttl := Clamp (rr_Ttl r - delta) 1 (rr_Ttl r)\<rparr>) records)"

definition setMsgTTL :: "msg \<Rightarrow> u32 \<Rightarrow> msg" where
  "setMsgTTL m ttl =
     m\<lparr>m_Answer := map (\<lambda>r. r\<lparr>rr_Ttl := ttl\<rparr>) (m_Answer m),
       m_Ns := map (\<lambda>r. r\<lparr>rr_Ttl := ttl\<rparr>) (m_Ns m),
       m_Extra := map (\<lambda>r. r\<lparr>rr_Ttl := ttl\<rparr>) (m_Extra m)\<rparr>"

definition updateMsgTTL :: "msg \<Rightarrow> u32 \<Rightarrow> msg" where
  "updateMsgTTL m ttl =
     m\<lparr>m_Answer := updateTTL (m_Answer m) ttl, m_Ns := updateTTL (m_Ns m) ttl, m_Extra := updateTTL (m_Extra m) ttl\<rparr>"

definition serverFailureCacheTTL :: u32 where
  "serverFailureCacheTTL = 5"

text \<open>What \<open>putMsgToCache\<close> stores: the lifetime in seconds, or nothing.\<close>

definition cacheTTL :: "question \<Rightarrow> msg \<Rightarrow> u32 option" where
  "cacheTTL q m =
     (if qu_Qtype q = TypeTXT \<and> HasPrefix (qu_Name q) ''_acme-challenge.'' then None
      else
        let ttl = (if m_Rcode m = RcodeServerFailure then serverFailureCacheTTL
                   else minimalTTL (m_Answer m @ m_Ns m @ m_Extra m)) in
        if ttl = 0 then None else Some ttl)"

section \<open>Questions and answers\<close>

definition isIPRequest :: "question \<Rightarrow> bool" where
  "isIPRequest q \<longleftrightarrow>
     qu_Qclass q = ClassINET \<and> (qu_Qtype q = TypeA \<or> qu_Qtype q = TypeAAAA \<or> qu_Qtype q = TypeCNAME)"

definition handleMsgWithEmptyAnswer :: "dns_lib \<Rightarrow> msg \<Rightarrow> msg" where
  "handleMsgWithEmptyAnswer lib r =
     (dl_SetRcode lib (empty_msg\<lparr>m_Answer := []\<rparr>) r RcodeSuccess)\<lparr>m_Authoritative := True, m_RecursionAvailable := True\<rparr>"

text \<open>The address of one record: \<open>NoAddr\<close> for other records and for data of another length.\<close>

definition rr_ip :: "rr \<Rightarrow> addr" where
  "rr_ip r = (case rr_Data r of RAAAA bs \<Rightarrow> AddrFromSlice bs | RA bs \<Rightarrow> AddrFromSlice bs | _ \<Rightarrow> NoAddr)"

definition msgToIP :: "msg \<Rightarrow> addr list" where
  "msgToIP m = map Unmap (filter IsValid (map rr_ip (m_Answer m)))"

definition msgToDomain :: "msg \<Rightarrow> string" where
  "msgToDomain m = (case m_Question m of [] \<Rightarrow> '''' | q # _ \<Rightarrow> TrimRight (qu_Name q) ''.'')"

section \<open>The client subnet\<close>

text \<open>
  \<open>setEdns0Subnet\<close>. The search leaves the OPT record and the subnet option it looked at last (\<open>None\<close> for
  a nil pointer, which every failed type assertion makes of them), as positions, or stops with the
  answer False when there is a subnet option and no override.
\<close>

datatype subnet_scan = FoundNoOverride | Scanned "nat option" "(nat \<times> nat) option"

fun scan_options :: "bool \<Rightarrow> nat \<Rightarrow> nat \<Rightarrow> edns_option list \<Rightarrow> (bool \<times> (nat \<times> nat) option)" where
  "scan_options override i j [] = (False, None)"
| "scan_options override i j (Subnet _ _ _ _ # os) = (True, Some (i, j))"
| "scan_options override i j (OtherOption _ # os) = scan_options override i (Suc j) os"

fun scan_extra :: "bool \<Rightarrow> nat \<Rightarrow> nat option \<Rightarrow> rr list \<Rightarrow> subnet_scan" where
  "scan_extra override i opt [] = Scanned opt None"
| "scan_extra override i opt (r # rs) =
     (case rr_Data r of
        ROPT os \<Rightarrow>
          (case scan_options override i 0 os of
             (True, p) \<Rightarrow> if \<not> override then FoundNoOverride else Scanned (Some i) p
           | (False, _) \<Rightarrow> scan_extra override (Suc i) (Some i) rs)
      | _ \<Rightarrow> scan_extra override (Suc i) None rs)"

definition new_opt :: rr where
  "new_opt = \<lparr>rr_Name = ''.'', rr_Rrtype = TypeOPT, rr_Class = 0, rr_Ttl = 0, rr_Data = ROPT []\<rparr>"

fun put_option :: "edns_option \<Rightarrow> nat option \<Rightarrow> rdata \<Rightarrow> rdata" where
  "put_option so None (ROPT os) = ROPT (os @ [so])"
| "put_option so (Some j) (ROPT os) = ROPT (os[j := so])"
| "put_option so _ d = d"

definition subnet_option :: "prefix \<Rightarrow> edns_option" where
  "subnet_option p =
     Subnet 8 (if Is4 (pfx_addr p) then 1 else 2) (word_of_nat (pfx_bits p)) (AsSlice (pfx_addr p))"

definition setEdns0Subnet :: "msg \<Rightarrow> prefix \<Rightarrow> bool \<Rightarrow> bool \<times> msg" where
  "setEdns0Subnet m clientSubnet override =
     (case scan_extra override 0 None (m_Extra m) of
        FoundNoOverride \<Rightarrow> (False, m)
      | Scanned opt sub \<Rightarrow>
          let (extra, i) = (case opt of None \<Rightarrow> (m_Extra m @ [new_opt], length (m_Extra m)) | Some i \<Rightarrow> (m_Extra m, i));
              r = extra ! i in
          (True, m\<lparr>m_Extra := extra[i := r\<lparr>rr_Data :=
             put_option (subnet_option clientSubnet) (map_option snd sub) (rr_Data r)\<rparr>]\<rparr>))"

end
