(* ===== verification/DnsResolver.thy ===== *)
theory DnsResolver imports DnsMsg DomainTrie Lru begin

text \<open>
  dns/resolver.go, dns/policy.go, dns/rcode.go and the clients of dns/util.go: the clients and their
  wrappers, the race between them, the choice of the name servers for a question, the cache and the lookups.
  A server over the network is an argument: what it answers to a message. The cache is the interface
  \<open>dnsCache\<close> of the code. Times are nanoseconds; every reading of the clock is an argument. Concurrent callers
  of one question, which the code merges into one exchange, and its retries after an error
  are not modelled.
\<close>

section \<open>Clients\<close>

datatype dns_error = AllRequestsFailed "dns_error option" | ServerFailure rcode | ExchangeError nat | ContextDone
  | NoQuestion | IPNotFound | IPVersionError | HostsDiverge

datatype 'c client =
    RcodeClient rcode
  | NetClient 'c
  | DisableType "'c client" u16
  | Edns0Subnet "'c client" prefix bool

text \<open>\<open>newRCodeClient\<close>: \<open>None\<close> is its panic for another name.\<close>

definition newRCodeClient :: "string \<Rightarrow> 'c client option" where
  "newRCodeClient addr =
     map_option RcodeClient
       (map_of [(''success'', RcodeSuccess), (''format_error'', RcodeFormatError), (''server_failure'', RcodeServerFailure),
          (''name_error'', RcodeNameError), (''not_implemented'', RcodeNotImplemented), (''refused'', RcodeRefused)] addr)"

text \<open>
  \<open>ExchangeContext\<close> of the clients. The client for a return code changes the message it is given in place and returns
  it. The model returns the changed message and leaves the request as it was, a simplification that shows only when the
  same request goes to a second group of servers afterwards.
\<close>

fun client_Exchange :: "dns_lib \<Rightarrow> ('c \<Rightarrow> msg \<Rightarrow> dns_error + msg) \<Rightarrow> 'c client \<Rightarrow> msg \<Rightarrow> dns_error + msg" where
  "client_Exchange lib net (RcodeClient rc) m = Inr (m\<lparr>m_Response := True, m_Rcode := rc\<rparr>)"
| "client_Exchange lib net (NetClient c) m = net c m"
| "client_Exchange lib net (DisableType c qType) m =
     (case m_Question m of
        q # _ \<Rightarrow> if qu_Qtype q = qType then Inr (handleMsgWithEmptyAnswer lib m) else client_Exchange lib net c m
      | [] \<Rightarrow> client_Exchange lib net c m)"
| "client_Exchange lib net (Edns0Subnet c p override) m =
     client_Exchange lib net c (snd (setEdns0Subnet m p override))"

definition wrap_Edns0Subnet :: "(string \<Rightarrow> string) \<Rightarrow> 'c client \<Rightarrow> 'c client" where
  "wrap_Edns0Subnet params c =
     (let ecs = params ''ecs'';
          ecsPrefix = (if ecs \<noteq> '''' then
              (case ParsePrefix ecs of
                 Some p \<Rightarrow> p
               | None \<Rightarrow> (case ParseAddr ecs of Some a \<Rightarrow> Prefix a (BitLen a) | None \<Rightarrow> Prefix NoAddr 0))
            else Prefix NoAddr 0) in
      if pfx_IsValid ecsPrefix then Edns0Subnet c ecsPrefix (params ''ecs-override'' = ''true'') else c)"

text \<open>
  A name server of the configuration. Parameters are a map from names to values, empty for absent ones;
  the proxy adapter is known by an identity, and equality of name servers by all fields.
\<close>

record name_server =
  ns_Net :: string
  ns_Addr :: string
  ns_ProxyAdapter :: "nat option"
  ns_ProxyName :: string
  ns_Params :: "(string \<times> string) list"
  ns_PreferH3 :: bool

definition ns_param :: "name_server \<Rightarrow> string \<Rightarrow> string" where
  "ns_param ns k = (case map_of (ns_Params ns) k of Some v \<Rightarrow> v | None \<Rightarrow> '''')"

definition ns_Equal :: "name_server \<Rightarrow> name_server \<Rightarrow> bool" where
  "ns_Equal ns ns2 \<longleftrightarrow> ns_Net ns = ns_Net ns2 \<and> ns_Addr ns = ns_Addr ns2 \<and> ns_ProxyAdapter ns = ns_ProxyAdapter ns2 \<and>
     ns_ProxyName ns = ns_ProxyName ns2 \<and> set (ns_Params ns) = set (ns_Params ns2) \<and> ns_PreferH3 ns = ns_PreferH3 ns2"

text \<open>One round of the loop of \<open>transform\<close>; \<open>mk\<close> makes the network clients, and \<open>None\<close> is the panic.\<close>

definition transform_one :: "(name_server \<Rightarrow> 'c) \<Rightarrow> name_server \<Rightarrow> 'c client option" where
  "transform_one mk s =
     (case (if ns_Net s = ''rcode'' then newRCodeClient (ns_Addr s) else Some (NetClient (mk s))) of
        None \<Rightarrow> None
      | Some c \<Rightarrow>
          let c1 = wrap_Edns0Subnet (ns_param s) c;
              c2 = (if ns_param s ''disable-ipv4'' = ''true'' then DisableType c1 TypeA else c1);
              c3 = (if ns_param s ''disable-ipv6'' = ''true'' then DisableType c2 TypeAAAA else c2) in
          Some c3)"

fun transform :: "(name_server \<Rightarrow> 'c) \<Rightarrow> name_server list \<Rightarrow> 'c client list option" where
  "transform mk [] = Some []"
| "transform mk (s # servers) =
     (case transform_one mk s of
        None \<Rightarrow> None
      | Some c \<Rightarrow> map_option (\<lambda>cs. c # cs) (transform mk servers))"

section \<open>The race\<close>

text \<open>
  The picker: the functions return in the order of the list; the first answer is the result, the first error
  the error.
\<close>

fun picker_result :: "('e + 'a) list \<Rightarrow> 'a option" where
  "picker_result [] = None"
| "picker_result (Inr x # rs) = Some x"
| "picker_result (Inl e # rs) = picker_result rs"

fun picker_error :: "('e + 'a) list \<Rightarrow> 'e option" where
  "picker_error [] = None"
| "picker_error (Inr x # rs) = picker_error rs"
| "picker_error (Inl e # rs) = Some e"

fun is_rcode :: "'c client \<Rightarrow> bool" where
  "is_rcode (RcodeClient rc) = True"
| "is_rcode _ = False"

text \<open>
  What the world does during an exchange: the answers of the servers and the order in which the
  clients of a race return.
\<close>

record 'c world =
  w_net :: "'c \<Rightarrow> msg \<Rightarrow> dns_error + msg"
  w_order :: "'c client list \<Rightarrow> 'c client list"

definition batch_one :: "dns_lib \<Rightarrow> 'c world \<Rightarrow> msg \<Rightarrow> 'c client \<Rightarrow> dns_error + msg" where
  "batch_one lib w m c =
     (case client_Exchange lib (w_net w) c m of
        Inl e \<Rightarrow> Inl e
      | Inr r \<Rightarrow>
          if m_Rcode r = RcodeServerFailure \<or> m_Rcode r = RcodeRefused then Inl (ServerFailure (m_Rcode r)) else Inr r)"

definition batchExchange :: "dns_lib \<Rightarrow> 'c world \<Rightarrow> 'c client list \<Rightarrow> msg \<Rightarrow> (dns_error + msg) \<times> bool" where
  "batchExchange lib w clients m =
     (case find is_rcode clients of
        Some c \<Rightarrow> (client_Exchange lib (w_net w) c m, False)
      | None \<Rightarrow>
          let rs = map (batch_one lib w m) (w_order w clients) in
          (case picker_result rs of
             Some r \<Rightarrow> (Inr r, True)
           | None \<Rightarrow> (Inl (AllRequestsFailed (picker_error rs)), True)))"

section \<open>Policies\<close>

datatype 'c policy = TriePolicy "'c client list node" | MatcherPolicy "string \<Rightarrow> bool" "'c client list"

fun policy_Match :: "'c policy \<Rightarrow> string \<Rightarrow> 'c client list" where
  "policy_Match (TriePolicy t) domain = (case node_data (Search t domain) of Some cs \<Rightarrow> cs | None \<Rightarrow> [])"
| "policy_Match (MatcherPolicy matcher cs) domain = (if matcher domain then cs else [])"

record 'c resolver =
  re_ipv6 :: bool
  re_ipv6Timeout :: int
  re_main :: "'c client list"
  re_fallback :: "'c client list"
  re_fallbackDomainFilters :: "(string \<Rightarrow> bool) list"
  re_fallbackIPFilters :: "(addr \<Rightarrow> bool) list"
  re_policy :: "'c policy list"

fun policy_loop :: "'c policy list \<Rightarrow> string \<Rightarrow> 'c client list" where
  "policy_loop [] domain = []"
| "policy_loop (p # ps) domain =
     (let cs = policy_Match p domain in if length cs > 0 then cs else policy_loop ps domain)"

definition matchPolicy :: "'c resolver \<Rightarrow> msg \<Rightarrow> 'c client list" where
  "matchPolicy r m = (let domain = msgToDomain m in if domain = '''' then [] else policy_loop (re_policy r) domain)"

definition shouldOnlyQueryFallback :: "'c resolver \<Rightarrow> msg \<Rightarrow> bool" where
  "shouldOnlyQueryFallback r m \<longleftrightarrow>
     (if re_fallback r = [] \<or> length (re_fallbackDomainFilters r) = 0 then False
      else
        let domain = msgToDomain m in
        if domain = '''' then False else list_ex (\<lambda>df. df domain) (re_fallbackDomainFilters r))"

definition shouldIPFallback :: "'c resolver \<Rightarrow> addr \<Rightarrow> bool" where
  "shouldIPFallback r ip \<longleftrightarrow> list_ex (\<lambda>f. f ip) (re_fallbackIPFilters r)"

section \<open>Exchanges\<close>

text \<open>
  The batches of one \<open>ipExchange\<close> run one after the other, so each has its own world. The answer, and which
  servers gave it.
\<close>

datatype source = FromPolicy | FromMain | FromFallback

definition ipExchange ::
  "dns_lib \<Rightarrow> 'c world \<Rightarrow> 'c world \<Rightarrow> 'c resolver \<Rightarrow> msg \<Rightarrow> (dns_error + msg) \<times> source"
where
  "ipExchange lib w1 w2 r m =
     (let matched = matchPolicy r m in
      if length matched \<noteq> 0 then (fst (batchExchange lib w1 matched m), FromPolicy)
      else if shouldOnlyQueryFallback r m then (fst (batchExchange lib w1 (re_fallback r) m), FromFallback)
      else
        let res = fst (batchExchange lib w1 (re_main r) m) in
        if length (re_fallback r) = 0 then (res, FromMain)
        else
          case (case res of
                  Inr a \<Rightarrow> let ips = msgToIP a in length ips \<noteq> 0 \<and> list_all (\<lambda>ip. \<not> shouldIPFallback r ip) ips
                | Inl _ \<Rightarrow> False) of
            True \<Rightarrow> (res, FromMain)
          | False \<Rightarrow> (fst (batchExchange lib w2 (re_fallback r) m), FromFallback))"

record 'k cache_ops =
  co_GetWithExpire :: "string \<Rightarrow> 'k \<Rightarrow> (msg \<times> int) option \<times> 'k"
  co_SetWithExpire :: "string \<Rightarrow> msg \<Rightarrow> int \<Rightarrow> 'k \<Rightarrow> 'k"
  co_Clear :: "'k \<Rightarrow> 'k"

definition second :: int where
  "second = 1000000000"

text \<open>\<open>Duration.Seconds\<close> cut to an integer.\<close>

definition trunc_seconds :: "int \<Rightarrow> int" where
  "trunc_seconds d = (if d < 0 then - ((- d) div second) else d div second)"

definition putMsgToCache :: "'k cache_ops \<Rightarrow> int \<Rightarrow> string \<Rightarrow> question \<Rightarrow> msg \<Rightarrow> 'k \<Rightarrow> 'k" where
  "putMsgToCache co now key q m k =
     (case cacheTTL q m of
        None \<Rightarrow> k
      | Some ttl \<Rightarrow> co_SetWithExpire co key m (now + uint ttl * second) k)"

definition exchangeWithoutCache ::
  "dns_lib \<Rightarrow> 'k cache_ops \<Rightarrow> 'c world \<Rightarrow> 'c world \<Rightarrow> int \<Rightarrow> 'c resolver \<Rightarrow> msg \<Rightarrow> 'k \<Rightarrow> (dns_error + msg) \<times> 'k"
where
  "exchangeWithoutCache lib co w1 w2 now r m k =
     (let q = hd (m_Question m);
          (result, cache) =
            (if isIPRequest q then (fst (ipExchange lib w1 w2 r m), True)
             else
               let matched = matchPolicy r m in
               if length matched \<noteq> 0 then batchExchange lib w1 matched m
               else batchExchange lib w1 (re_main r) m) in
      case result of
        Inl e \<Rightarrow> (Inl e, k)
      | Inr a \<Rightarrow>
          if cache then
            let a1 = a\<lparr>m_Extra := filter (\<lambda>rr. rr_Rrtype rr \<noteq> TypeOPT) (m_Extra a)\<rparr> in
            (Inr a1, putMsgToCache co now (dl_QString lib q) q a1 k)
          else (Inr a, k))"

text \<open>
  \<open>ExchangeContext\<close> with the three readings of the clock, the two on a hit and the one when an answer
  is stored: the answer, whether the exchange is run once more in the background, and the cache.
\<close>

definition resolver_Exchange ::
  "dns_lib \<Rightarrow> 'k cache_ops \<Rightarrow> 'c world \<Rightarrow> 'c world \<Rightarrow> int \<Rightarrow> int \<Rightarrow> int \<Rightarrow> 'c resolver \<Rightarrow> msg \<Rightarrow> 'k
   \<Rightarrow> (dns_error + msg) \<times> bool \<times> 'k"
where
  "resolver_Exchange lib co w1 w2 now1 now2 now3 r m k =
     (if length (m_Question m) = 0 then (Inl NoQuestion, False, k)
      else
        case co_GetWithExpire co (dl_QString lib (hd (m_Question m))) k of
          (Some (cacheM, expireTime), k1) \<Rightarrow>
            if expireTime < now1 then (Inr (setMsgTTL cacheM 1), True, k1)
            else (Inr (updateMsgTTL cacheM (word_of_int (trunc_seconds (expireTime - now2)))), False, k1)
        | (None, k1) \<Rightarrow>
            (case exchangeWithoutCache lib co w1 w2 now3 r m k1 of
               (res, k2) \<Rightarrow> (res, res = Inl ContextDone, k2)))"

section \<open>Lookups\<close>

text \<open>\<open>ex\<close> is \<open>ExchangeContext\<close> in the caller's state.\<close>

definition lookupIP ::
  "dns_lib \<Rightarrow> (msg \<Rightarrow> 's \<Rightarrow> (dns_error + msg) \<times> 's) \<Rightarrow> string \<Rightarrow> u16 \<Rightarrow> 's \<Rightarrow> (dns_error + addr list) \<times> 's"
where
  "lookupIP lib ex host dnsType s =
     (case ParseAddr host of
        Some ip0 \<Rightarrow>
          let ip = Unmap ip0; isIPv4 = Is4 ip in
          if dnsType = TypeAAAA \<and> \<not> isIPv4 then (Inr [ip], s)
          else if dnsType = TypeA \<and> isIPv4 then (Inr [ip], s)
          else (Inl IPVersionError, s)
      | None \<Rightarrow>
          (case ex (dl_Query lib (dl_Fqdn lib host) dnsType) s of
             (Inl e, s1) \<Rightarrow> (Inl e, s1)
           | (Inr a, s1) \<Rightarrow> let ips = msgToIP a in if length ips = 0 then (Inl IPNotFound, s1) else (Inr ips, s1)))"

text \<open>
  How \<open>LookupIP\<close> and \<open>LookupIPPrimaryIPv4\<close> join the two lookups. The list of a failed lookup is empty.
  The answer for IPv6 is \<open>None\<close> when the timer fires first.
\<close>

definition join_LookupIP ::
  "dns_error + addr list \<Rightarrow> (dns_error + addr list) option \<Rightarrow> dns_error + addr list"
where
  "join_LookupIP v4 v6 =
     (let ips = (case v4 of Inr ips \<Rightarrow> ips | Inl _ \<Rightarrow> []) in
      case v6 of
        None \<Rightarrow> Inr ips
      | Some (Inr ipv6s) \<Rightarrow> Inr (ips @ ipv6s)
      | Some (Inl _) \<Rightarrow> (case v4 of Inl _ \<Rightarrow> Inl IPNotFound | Inr _ \<Rightarrow> Inr ips))"

definition join_PrimaryIPv4 :: "dns_error + addr list \<Rightarrow> dns_error + addr list \<Rightarrow> dns_error + addr list" where
  "join_PrimaryIPv4 v4 v6 =
     (case v4 of Inr ips \<Rightarrow> Inr ips | Inl _ \<Rightarrow> (case v6 of Inr ip \<Rightarrow> Inr ip | Inl _ \<Rightarrow> Inl IPNotFound))"

definition ResolveECH :: "dns_lib \<Rightarrow> (msg \<Rightarrow> 's \<Rightarrow> (dns_error + msg) \<times> 's) \<Rightarrow> string \<Rightarrow> 's \<Rightarrow> (dns_error + bytes option) \<times> 's" where
  "ResolveECH lib ex host s =
     (case ex (dl_Query lib (dl_Fqdn lib host) TypeHTTPS) s of
        (Inl e, s1) \<Rightarrow> (Inl e, s1)
      | (Inr a, s1) \<Rightarrow>
          (Inr (case concat (map (\<lambda>rr. case rr_Data rr of RHTTPS echs \<Rightarrow> echs | _ \<Rightarrow> []) (m_Answer a)) of [] \<Rightarrow> None | ech # _ \<Rightarrow> Some ech), s1))"

section \<open>NewResolver\<close>

text \<open>
  A policy of the configuration has a matcher or a domain pattern. \<open>cacheTransform\<close> makes one client for
  equal name servers; its table of clients is passed along. \<open>None\<close> is the panic of an unknown rcode.
\<close>

record policy_config =
  po_Domain :: string
  po_Matcher :: "(string \<Rightarrow> bool) option"
  po_NameServers :: "name_server list"

record dns_config =
  dc_Main :: "name_server list"
  dc_Fallback :: "name_server list"
  dc_Default :: "name_server list"
  dc_ProxyServer :: "name_server list"
  dc_DirectServer :: "name_server list"
  dc_DirectFollowPolicy :: bool
  dc_IPv6 :: bool
  dc_IPv6Timeout :: u32
  dc_FallbackIPFilter :: "(addr \<Rightarrow> bool) list"
  dc_FallbackDomainFilter :: "(string \<Rightarrow> bool) list"
  dc_Policy :: "policy_config list"

type_synonym 'c client_table = "(name_server \<times> 'c client) list"

fun cacheTransform ::
  "(name_server \<Rightarrow> 'c) \<Rightarrow> name_server list \<Rightarrow> 'c client_table \<Rightarrow> ('c client list \<times> 'c client_table) option"
where
  "cacheTransform mk [] tab = Some ([], tab)"
| "cacheTransform mk (ns # servers) tab =
     (case find (\<lambda>nsc. ns_Equal (fst nsc) ns) tab of
        Some nsc \<Rightarrow> map_option (\<lambda>(cs, tab'). (snd nsc # cs, tab')) (cacheTransform mk servers tab)
      | None \<Rightarrow>
          (case transform mk [ns] of
             None \<Rightarrow> None
           | Some [] \<Rightarrow> cacheTransform mk servers tab
           | Some (dc # _) \<Rightarrow>
               map_option (\<lambda>(cs, tab'). (dc # cs, tab')) (cacheTransform mk servers (tab @ [(ns, dc)]))))"

text \<open>The loop over the policies, with the trie that collects neighbouring domain patterns.\<close>

definition insertPolicy ::
  "'c policy option \<Rightarrow> 'c client list node option \<Rightarrow> 'c policy list \<Rightarrow> 'c policy list"
where
  "insertPolicy p triePolicy ps =
     (let ps1 = (case triePolicy of Some t \<Rightarrow> ps @ [TriePolicy (optimize t)] | None \<Rightarrow> ps) in
      case p of Some x \<Rightarrow> ps1 @ [x] | None \<Rightarrow> ps1)"

fun policies_loop ::
  "(name_server \<Rightarrow> 'c) \<Rightarrow> policy_config list \<Rightarrow> 'c client list node option \<Rightarrow> 'c policy list \<Rightarrow> 'c client_table
   \<Rightarrow> ('c policy list \<times> 'c client_table) option"
where
  "policies_loop mk [] triePolicy ps tab = Some (insertPolicy None triePolicy ps, tab)"
| "policies_loop mk (policy # rest) triePolicy ps tab =
     (case cacheTransform mk (po_NameServers policy) tab of
        None \<Rightarrow> None
      | Some (cs, tab1) \<Rightarrow>
          (case po_Matcher policy of
             Some matcher \<Rightarrow>
               policies_loop mk rest None (insertPolicy (Some (MatcherPolicy matcher cs)) triePolicy ps) tab1
           | None \<Rightarrow>
               let t = (case triePolicy of Some t \<Rightarrow> t | None \<Rightarrow> newNode);
                   t1 = (case Insert t (po_Domain policy) cs of Inr t1 \<Rightarrow> t1 | Inl _ \<Rightarrow> t) in
               policies_loop mk rest (Some t1) ps tab1))"

definition plain_resolver :: "dns_config \<Rightarrow> 'c client list \<Rightarrow> 'c resolver" where
  "plain_resolver config servers =
     \<lparr>re_ipv6 = dc_IPv6 config, re_ipv6Timeout = uint (dc_IPv6Timeout config) * 1000000, re_main = servers,
      re_fallback = [], re_fallbackDomainFilters = [], re_fallbackIPFilters = [], re_policy = []\<rparr>"

record 'c resolvers =
  rv_Resolver :: "'c resolver"
  rv_ProxyResolver :: "'c resolver option"
  rv_DirectResolver :: "'c resolver option"

definition optional_resolver ::
  "(name_server \<Rightarrow> 'c) \<Rightarrow> dns_config \<Rightarrow> name_server list \<Rightarrow> 'c client_table \<Rightarrow> ('c resolver option \<times> 'c client_table) option"
where
  "optional_resolver mk config servers tab =
     (if length servers \<noteq> 0 then
        map_option (\<lambda>(cs, tab'). (Some (plain_resolver config cs), tab')) (cacheTransform mk servers tab)
      else Some (None, tab))"

text \<open>
  \<open>NewResolver\<close>. The clients made for the default name servers, which resolve the names of the other
  servers, are part of \<open>mk\<close>.
\<close>

definition NewResolver :: "(name_server \<Rightarrow> 'c) \<Rightarrow> dns_config \<Rightarrow> 'c resolvers option" where
  "NewResolver mk config =
     Option.bind (cacheTransform mk (dc_Main config) []) (\<lambda>(main, tab1).
     Option.bind (optional_resolver mk config (dc_ProxyServer config) tab1) (\<lambda>(proxy, tab2).
     Option.bind (optional_resolver mk config (dc_DirectServer config) tab2) (\<lambda>(direct, tab3).
     Option.bind (if length (dc_Fallback config) \<noteq> 0 then cacheTransform mk (dc_Fallback config) tab3 else Some ([], tab3)) (\<lambda>(fallback, tab4).
     Option.bind (if length (dc_Policy config) \<noteq> 0 then policies_loop mk (dc_Policy config) None [] tab4 else Some ([], tab4)) (\<lambda>(policies, tab5).
       let r = plain_resolver config main;
           r1 = (if length (dc_Fallback config) \<noteq> 0
                 then r\<lparr>re_fallback := fallback, re_fallbackIPFilters := dc_FallbackIPFilter config,
                        re_fallbackDomainFilters := dc_FallbackDomainFilter config\<rparr>
                 else r) in
       Some \<lparr>rv_Resolver = r1\<lparr>re_policy := policies\<rparr>, rv_ProxyResolver = proxy,
         rv_DirectResolver =
           (if dc_DirectFollowPolicy config then map_option (\<lambda>d. d\<lparr>re_policy := policies\<rparr>) direct else direct)\<rparr>)))))"

section \<open>The LRU cache as DNS cache\<close>

text \<open>
  The default of \<open>newCache\<close>: stale answers are returned, and there is no age, so the clock is not read inside. The
  cache keeps expiries in whole seconds.
\<close>

definition dns_lru_ops :: "('l, 'h) list_ops \<Rightarrow> ('l, 'h, string, msg) lru_cache cache_ops" where
  "dns_lru_ops dl =
     \<lparr>co_GetWithExpire = (\<lambda>key k. case lru_GetWithExpire dl 0 0 key k of
        (r, k1) \<Rightarrow> (map_option (\<lambda>(m, e). (m, e * second)) r, k1)),
      co_SetWithExpire = (\<lambda>key m e k. setWithExpire dl 0 key m (e div second) k),
      co_Clear = lru_Clear dl\<rparr>"

definition newCache :: "('l, 'h) list_ops \<Rightarrow> int \<Rightarrow> ('l, 'h, string, msg) lru_cache" where
  "newCache dl CacheMaxSize = lru_New dl 0 (if CacheMaxSize = 0 then 4096 else CacheMaxSize) False True False"

end
