(* ===== verification/DnsHandler.thy ===== *)
theory DnsHandler imports DnsResolver FakeIP Hosts Metadata begin

text \<open>
  dns/enhancer.go, dns/middleware.go and dns/service.go with component/fakeip/skipper.go: the enhancer that remembers
  which host an address was given to, the handlers of the DNS server over it, and how they are composed.
  State is passed along: the enhancer, the type noted in the context, the resolver's own state and the
  clock, of which every reading is the next value of a sequence.
\<close>

section \<open>skipper.go\<close>

record skipper =
  sk_Host :: "(string \<Rightarrow> bool) list"
  sk_WhiteList :: bool

definition shouldSkipped :: "skipper \<Rightarrow> string \<Rightarrow> bool" where
  "shouldSkipped p domain \<longleftrightarrow> list_ex (\<lambda>matcher. matcher domain) (sk_Host p)"

definition ShouldSkipped :: "skipper \<Rightarrow> string \<Rightarrow> bool" where
  "ShouldSkipped p domain \<longleftrightarrow>
     (let should = shouldSkipped p domain in if sk_WhiteList p then \<not> should else should)"

section \<open>enhancer.go\<close>

record ('l, 'h, 's) resolver_enhancer =
  eh_mode :: dns_mode
  eh_fakeIPPool :: "'s pool option"
  eh_fakeIPPool6 :: "'s pool option"
  eh_fakeIPSkipper :: skipper
  eh_mapping :: "('l, 'h, addr, string) lru_cache option"
  eh_useHosts :: bool

definition enh_FakeIPEnabled :: "('l, 'h, 's) resolver_enhancer \<Rightarrow> bool" where
  "enh_FakeIPEnabled h \<longleftrightarrow> eh_mode h = DNSFakeIP"

definition enh_MappingEnabled :: "('l, 'h, 's) resolver_enhancer \<Rightarrow> bool" where
  "enh_MappingEnabled h \<longleftrightarrow> eh_mode h = DNSFakeIP \<or> eh_mode h = DNSMapping"

definition enh_IsExistFakeIP :: "'s store_ops \<Rightarrow> ('l, 'h, 's) resolver_enhancer \<Rightarrow> addr \<Rightarrow> bool" where
  "enh_IsExistFakeIP so h ip \<longleftrightarrow>
     (if \<not> enh_FakeIPEnabled h then False
      else case eh_fakeIPPool h of
        Some p \<Rightarrow> pool_Exist so ip p
      | None \<Rightarrow> (case eh_fakeIPPool6 h of Some p6 \<Rightarrow> pool_Exist so ip p6 | None \<Rightarrow> False))"

definition enh_IsFakeIP :: "('l, 'h, 's) resolver_enhancer \<Rightarrow> addr \<Rightarrow> bool" where
  "enh_IsFakeIP h ip \<longleftrightarrow>
     (if \<not> enh_FakeIPEnabled h then False
      else case eh_fakeIPPool h of
        Some p \<Rightarrow> pfx_Contains (p_ipnet p) ip \<and> ip \<noteq> p_gateway p \<and> ip \<noteq> p_last p
      | None \<Rightarrow>
          (case eh_fakeIPPool6 h of
             Some p6 \<Rightarrow> pfx_Contains (p_ipnet p6) ip \<and> ip \<noteq> p_gateway p6 \<and> ip \<noteq> p_last p6
           | None \<Rightarrow> False))"

definition enh_IsFakeBroadcastIP :: "('l, 'h, 's) resolver_enhancer \<Rightarrow> addr \<Rightarrow> bool" where
  "enh_IsFakeBroadcastIP h ip \<longleftrightarrow>
     (if \<not> enh_FakeIPEnabled h then False
      else case eh_fakeIPPool h of
        Some p \<Rightarrow> p_last p = ip
      | None \<Rightarrow> (case eh_fakeIPPool6 h of Some p6 \<Rightarrow> p_last p6 = ip | None \<Rightarrow> False))"

text \<open>\<open>FindHostByIP\<close> moves what it finds to the end of its caches; the mapping is read at \<open>now\<close>.\<close>

definition enh_FindHostByIP ::
  "('l, 'h) list_ops \<Rightarrow> 's store_ops \<Rightarrow> int \<Rightarrow> addr \<Rightarrow> ('l, 'h, 's) resolver_enhancer
   \<Rightarrow> string option \<times> ('l, 'h, 's) resolver_enhancer"
where
  "enh_FindHostByIP dl so now ip h =
     (let (r1, h1) = (case eh_fakeIPPool h of
             Some p \<Rightarrow> (case pool_LookBack so ip p of (r, p') \<Rightarrow> (r, h\<lparr>eh_fakeIPPool := Some p'\<rparr>))
           | None \<Rightarrow> (None, h)) in
      case r1 of Some host \<Rightarrow> (Some host, h1) | None \<Rightarrow>
     (let (r2, h2) = (case eh_fakeIPPool6 h1 of
             Some p \<Rightarrow> (case pool_LookBack so ip p of (r, p') \<Rightarrow> (r, h1\<lparr>eh_fakeIPPool6 := Some p'\<rparr>))
           | None \<Rightarrow> (None, h1)) in
      case r2 of Some host \<Rightarrow> (Some host, h2) | None \<Rightarrow>
     (case eh_mapping h2 of
        Some mp \<Rightarrow> (case lru_Get dl now now ip mp of (r, mp') \<Rightarrow> (r, h2\<lparr>eh_mapping := Some mp'\<rparr>))
      | None \<Rightarrow> (None, h2))))"

definition enh_InsertHostByIP ::
  "('l, 'h) list_ops \<Rightarrow> int \<Rightarrow> addr \<Rightarrow> string \<Rightarrow> ('l, 'h, 's) resolver_enhancer \<Rightarrow> ('l, 'h, 's) resolver_enhancer"
where
  "enh_InsertHostByIP dl now ip host h = h\<lparr>eh_mapping := map_option (lru_set dl now now ip host) (eh_mapping h)\<rparr>"

definition enh_FlushFakeIP ::
  "'s store_ops \<Rightarrow> ('l, 'h, 's) resolver_enhancer \<Rightarrow> flush_result \<times> ('l, 'h, 's) resolver_enhancer"
where
  "enh_FlushFakeIP so h =
     (case eh_fakeIPPool h of
        Some p \<Rightarrow> (case pool_FlushFakeIP so p of (r, p') \<Rightarrow> (r, h\<lparr>eh_fakeIPPool := Some p'\<rparr>))
      | None \<Rightarrow>
          (case eh_fakeIPPool6 h of
             Some p6 \<Rightarrow> (case pool_FlushFakeIP so p6 of (r, p') \<Rightarrow> (r, h\<lparr>eh_fakeIPPool6 := Some p'\<rparr>))
           | None \<Rightarrow> (Flushed, h)))"

definition clone_pool :: "'s store_ops \<Rightarrow> 's pool option \<Rightarrow> 's pool option \<Rightarrow> 's pool option" where
  "clone_pool so old new =
     (case (new, old) of (Some p, Some q) \<Rightarrow> Some (pool_CloneFrom so q p) | _ \<Rightarrow> new)"

definition enh_PatchFrom ::
  "('l, 'h) list_ops \<Rightarrow> 's store_ops \<Rightarrow> ('l, 'h, 's) resolver_enhancer \<Rightarrow> ('l, 'h, 's) resolver_enhancer
   \<Rightarrow> ('l, 'h, 's) resolver_enhancer"
where
  "enh_PatchFrom dl so old h =
     h\<lparr>eh_mapping := (case (eh_mapping h, eh_mapping old) of (Some m, Some n) \<Rightarrow> Some (lru_CloneTo dl n m) | _ \<Rightarrow> eh_mapping h),
       eh_fakeIPPool := clone_pool so (eh_fakeIPPool old) (eh_fakeIPPool h),
       eh_fakeIPPool6 := clone_pool so (eh_fakeIPPool6 old) (eh_fakeIPPool6 h)\<rparr>"

definition enh_StoreFakePoolState ::
  "'s store_ops \<Rightarrow> bool \<Rightarrow> ('l, 'h, 's) resolver_enhancer \<Rightarrow> ('l, 'h, 's) resolver_enhancer"
where
  "enh_StoreFakePoolState so persistent h =
     h\<lparr>eh_fakeIPPool := map_option (pool_StoreState so persistent) (eh_fakeIPPool h),
       eh_fakeIPPool6 := map_option (pool_StoreState so persistent) (eh_fakeIPPool6 h)\<rparr>"

definition no_skipper :: skipper where
  "no_skipper = \<lparr>sk_Host = [], sk_WhiteList = False\<rparr>"

definition NewEnhancer ::
  "('l, 'h) list_ops \<Rightarrow> bool \<Rightarrow> dns_mode \<Rightarrow> 's pool option \<Rightarrow> 's pool option \<Rightarrow> skipper \<Rightarrow> bool
   \<Rightarrow> ('l, 'h, 's) resolver_enhancer"
where
  "NewEnhancer dl ipv6 mode pool pool6 sk useHosts =
     (if mode \<noteq> DNSNormal then
        \<lparr>eh_mode = mode, eh_fakeIPPool = pool, eh_fakeIPPool6 = (if ipv6 then pool6 else None), eh_fakeIPSkipper = sk,
         eh_mapping = Some (lru_New dl 0 4096 False False False), eh_useHosts = useHosts\<rparr>
      else
        \<lparr>eh_mode = mode, eh_fakeIPPool = None, eh_fakeIPPool6 = None, eh_fakeIPSkipper = no_skipper,
         eh_mapping = None, eh_useHosts = useHosts\<rparr>)"

section \<open>middleware.go\<close>

record ('l, 'h, 's, 'r) dns_state =
  st_enh :: "('l, 'h, 's) resolver_enhancer"
  st_type :: string
  st_res :: 'r
  st_clock :: "nat \<Rightarrow> int"
  st_ticks :: nat

type_synonym ('l, 'h, 's, 'r) dns_handler =
  "msg \<Rightarrow> ('l, 'h, 's, 'r) dns_state \<Rightarrow> (dns_error + msg) \<times> ('l, 'h, 's, 'r) dns_state"

text \<open>\<open>mapping.SetWithExpire\<close> with an expiry some seconds after the next reading of the clock.\<close>

definition map_host ::
  "('l, 'h) list_ops \<Rightarrow> addr \<Rightarrow> string \<Rightarrow> int \<Rightarrow> ('l, 'h, 's, 'r) dns_state \<Rightarrow> ('l, 'h, 's, 'r) dns_state"
where
  "map_host dl ip host secs s =
     (let now = st_clock s (st_ticks s); e = st_enh s in
      s\<lparr>st_ticks := Suc (st_ticks s),
        st_enh := e\<lparr>eh_mapping :=
          map_option (setWithExpire dl (now div second) ip host ((now + secs * second) div second)) (eh_mapping e)\<rparr>\<rparr>)"

definition a_record :: "question \<Rightarrow> u16 \<Rightarrow> u32 \<Rightarrow> rdata \<Rightarrow> rr" where
  "a_record q t ttl d = \<lparr>rr_Name = qu_Name q, rr_Rrtype = t, rr_Class = ClassINET, rr_Ttl = ttl, rr_Data = d\<rparr>"

definition handleCName :: "question \<Rightarrow> msg \<Rightarrow> string \<Rightarrow> msg" where
  "handleCName q resp domain = resp\<lparr>m_Answer := a_record q TypeCNAME 10 (RCNAME (domain @ ''.'')) # m_Answer resp\<rparr>"

fun handleIPs ::
  "('l, 'h) list_ops \<Rightarrow> question \<Rightarrow> string \<Rightarrow> addr list \<Rightarrow> msg \<Rightarrow> ('l, 'h, 's, 'r) dns_state
   \<Rightarrow> msg \<times> ('l, 'h, 's, 'r) dns_state"
where
  "handleIPs dl q host [] m s = (m, s)"
| "handleIPs dl q host (ipAddr # ips) m s =
     (let s1 = (if eh_mapping (st_enh s) \<noteq> None then map_host dl ipAddr host 10 s else s) in
      if Is4 ipAddr \<and> qu_Qtype q = TypeA then
        handleIPs dl q host ips (m\<lparr>m_Answer := m_Answer m @ [a_record q TypeA 10 (RA (AsSlice ipAddr))]\<rparr>) s1
      else if qu_Qtype q = TypeAAAA then
        handleIPs dl q host ips (m\<lparr>m_Answer := m_Answer m @ [a_record q TypeAAAA 10 (RAAAA (AsSlice ipAddr))]\<rparr>) s1
      else handleIPs dl q host ips m s)"

text \<open>\<open>search\<close> is the search in the hosts table; its \<open>None\<close> is a search that never returns.\<close>

definition withHosts ::
  "dns_lib \<Rightarrow> ('l, 'h) list_ops \<Rightarrow> (string \<Rightarrow> bool \<Rightarrow> (host_value option \<times> bool) option)
   \<Rightarrow> ('l, 'h, 's, 'r) dns_handler \<Rightarrow> ('l, 'h, 's, 'r) dns_handler"
where
  "withHosts lib dl search next r s =
     (let q = hd (m_Question r) in
      if \<not> isIPRequest q then next r s
      else
        let host = TrimRight (qu_Name q) ''.'' in
        case search host (qu_Qtype q \<noteq> TypeA \<and> qu_Qtype q \<noteq> TypeAAAA) of
          None \<Rightarrow> (Inl HostsDiverge, s)
        | Some (record, ok) \<Rightarrow>
            (case record of
               Some hv \<Rightarrow>
                 if \<not> ok then
                   if hv_IsDomain hv then
                     (let newR = r\<lparr>m_Question := q\<lparr>qu_Name := hv_Domain hv @ ''.''\<rparr> # tl (m_Question r)\<rparr> in
                      case next newR s of
                        (Inr resp, s1) \<Rightarrow>
                          (Inr (handleCName q (resp\<lparr>m_Id := m_Id r, m_Question := m_Question r\<rparr>) (hv_Domain hv)), s1)
                      | (Inl e, s1) \<Rightarrow> (Inl e, s1))
                   else next r s
                 else
                   let done = (\<lambda>m s. (Inr ((dl_SetRcode lib m r RcodeSuccess)
                         \<lparr>m_Authoritative := True, m_RecursionAvailable := True\<rparr>), s\<lparr>st_type := ''host''\<rparr>)) in
                   if qu_Qtype q = TypeA \<or> qu_Qtype q = TypeAAAA then
                     (case handleIPs dl q host (hv_IPs hv) r s of (m, s1) \<Rightarrow> done m s1)
                   else if qu_Qtype q = TypeCNAME then done r s
                   else next r s
             | None \<Rightarrow> next r s))"

text \<open>
  In the CNAME branch above the code adds the record to the request \<open>r\<close>, after \<open>msg\<close> was copied from it: the copy that is
  answered stays as it was.
\<close>

fun map_answers ::
  "('l, 'h) list_ops \<Rightarrow> string \<Rightarrow> rr list \<Rightarrow> ('l, 'h, 's, 'r) dns_state \<Rightarrow> ('l, 'h, 's, 'r) dns_state"
where
  "map_answers dl host [] s = s"
| "map_answers dl host (ans # rest) s =
     (let ip = rr_ip ans in
      if \<not> IsValid ip then map_answers dl host rest s
      else if \<not> IsGlobalUnicast ip then map_answers dl host rest s
      else
        let ttl = (if rr_Ttl ans < 1 then 1 else rr_Ttl ans) in
        map_answers dl host rest (map_host dl (Unmap ip) host (uint ttl) s))"

definition withMapping :: "('l, 'h) list_ops \<Rightarrow> ('l, 'h, 's, 'r) dns_handler \<Rightarrow> ('l, 'h, 's, 'r) dns_handler" where
  "withMapping dl next r s =
     (let q = hd (m_Question r) in
      if \<not> isIPRequest q then next r s
      else
        case next r s of
          (Inl e, s1) \<Rightarrow> (Inl e, s1)
        | (Inr m, s1) \<Rightarrow> (Inr m, map_answers dl (TrimRight (qu_Name q) ''.'') (m_Answer m) s1))"

definition dnsDefaultTTL :: u32 where
  "dnsDefaultTTL = 600"

definition fake_answer :: "dns_lib \<Rightarrow> msg \<Rightarrow> rr \<Rightarrow> msg" where
  "fake_answer lib r rr =
     (dl_SetRcode lib (setMsgTTL (r\<lparr>m_Answer := [rr]\<rparr>) 1) r RcodeSuccess)
       \<lparr>m_Authoritative := True, m_RecursionAvailable := True\<rparr>"

definition withFakeIP ::
  "dns_lib \<Rightarrow> 's store_ops \<Rightarrow> ('l, 'h, 's, 'r) dns_handler \<Rightarrow> ('l, 'h, 's, 'r) dns_handler"
where
  "withFakeIP lib so next r s =
     (let q = hd (m_Question r); host = TrimRight (qu_Name q) ''.''; e = st_enh s in
      if ShouldSkipped (eh_fakeIPSkipper e) host then next r s
      else if qu_Qtype q = TypeA then
        (case eh_fakeIPPool e of
           None \<Rightarrow> (Inr (handleMsgWithEmptyAnswer lib r), s)
         | Some p \<Rightarrow>
             (case pool_Lookup so host p of
                (ip, p') \<Rightarrow>
                  (Inr (fake_answer lib r (a_record q TypeA dnsDefaultTTL (RA (AsSlice ip)))),
                   s\<lparr>st_enh := e\<lparr>eh_fakeIPPool := Some p'\<rparr>, st_type := ''fakeip''\<rparr>)))
      else if qu_Qtype q = TypeAAAA then
        (case eh_fakeIPPool6 e of
           None \<Rightarrow> (Inr (handleMsgWithEmptyAnswer lib r), s)
         | Some p \<Rightarrow>
             (case pool_Lookup so host p of
                (ip, p') \<Rightarrow>
                  (Inr (fake_answer lib r (a_record q TypeAAAA dnsDefaultTTL (RAAAA (AsSlice ip)))),
                   s\<lparr>st_enh := e\<lparr>eh_fakeIPPool6 := Some p'\<rparr>, st_type := ''fakeip''\<rparr>)))
      else if qu_Qtype q = TypeSVCB \<or> qu_Qtype q = TypeHTTPS then (Inr (handleMsgWithEmptyAnswer lib r), s)
      else next r s)"

text \<open>\<open>ex\<close> is \<open>ExchangeContext\<close> of the resolver in its own state.\<close>

definition withResolver ::
  "dns_lib \<Rightarrow> bool \<Rightarrow> (msg \<Rightarrow> 'r \<Rightarrow> (dns_error + msg) \<times> 'r) \<Rightarrow> ('l, 'h, 's, 'r) dns_handler"
where
  "withResolver lib ipv6 ex r s0 =
     (let s = s0\<lparr>st_type := ''raw''\<rparr>; q = hd (m_Question r) in
      if \<not> ipv6 \<and> qu_Qtype q = TypeAAAA then (Inr (handleMsgWithEmptyAnswer lib r), s)
      else
        case ex r (st_res s) of
          (Inl e, t) \<Rightarrow> (Inl e, s\<lparr>st_res := t\<rparr>)
        | (Inr m, t) \<Rightarrow> (Inr ((dl_SetRcode lib m r (m_Rcode m))\<lparr>m_Authoritative := True\<rparr>), s\<lparr>st_res := t\<rparr>))"

definition compose :: "('a \<Rightarrow> 'a) list \<Rightarrow> 'a \<Rightarrow> 'a" where
  "compose middlewares endpoint = foldr (\<lambda>middleware h. middleware h) middlewares endpoint"

text \<open>\<open>newHandler\<close>: the middlewares are chosen once, from the enhancer \<open>mapper\<close> the handler is made for.\<close>

definition newHandler ::
  "dns_lib \<Rightarrow> ('l, 'h) list_ops \<Rightarrow> 's store_ops \<Rightarrow> (string \<Rightarrow> bool \<Rightarrow> (host_value option \<times> bool) option)
   \<Rightarrow> bool \<Rightarrow> (msg \<Rightarrow> 'r \<Rightarrow> (dns_error + msg) \<times> 'r) \<Rightarrow> ('l, 'h, 's) resolver_enhancer
   \<Rightarrow> ('l, 'h, 's, 'r) dns_handler"
where
  "newHandler lib dl so search ipv6 ex mapper =
     compose ((if eh_useHosts mapper then [withHosts lib dl search] else []) @
              (if eh_mode mapper = DNSFakeIP then [withFakeIP lib so] else []) @
              (if eh_mode mapper \<noteq> DNSNormal then [withMapping dl] else []))
       (withResolver lib ipv6 ex)"

section \<open>service.go\<close>

definition ServeMsg :: "('l, 'h, 's, 'r) dns_handler \<Rightarrow> ('l, 'h, 's, 'r) dns_handler" where
  "ServeMsg handler r s = (if length (m_Question r) = 0 then (Inl NoQuestion, s) else handler r s)"

text \<open>\<open>ServeDNS\<close>: the message written back.\<close>

definition ServeDNS :: "dns_lib \<Rightarrow> ('l, 'h, 's, 'r) dns_handler \<Rightarrow> msg \<Rightarrow> ('l, 'h, 's, 'r) dns_state
   \<Rightarrow> msg \<times> ('l, 'h, 's, 'r) dns_state"
where
  "ServeDNS lib handler r s =
     (case ServeMsg handler r s of
        (Inl e, s1) \<Rightarrow> (dl_SetRcode lib empty_msg r RcodeServerFailure, s1)
      | (Inr m, s1) \<Rightarrow> (m, s1))"

end
