(* ===== verification/DnsProps.thy ===== *)
theory DnsProps imports DnsResolver LruProps begin

text \<open>
  What is proved of the DNS resolver: the arithmetic of the lifetimes, the LRU cache as an instance of the cache
  contract (locale \<open>dns_cache\<close>), the freshness of cached answers, the filtering of polluted addresses over
  every history of exchanges, and the order of the policies.
\<close>

section \<open>Lifetimes\<close>

lemma fold_min: "fold min xs (a :: 'a::linorder) = Min (insert a (set xs))"
proof (induction xs arbitrary: a)
  case (Cons x xs)
  have "Min (insert (min x a) (set xs)) = Min (insert a (insert x (set xs)))"
    by (cases "xs = []") (simp_all add: min.assoc min.commute min.left_commute)
  then show ?case using Cons by simp
qed simp

lemma minimalTTL_Min: "rs \<noteq> [] \<Longrightarrow> minimalTTL rs = Min (rr_Ttl ` set rs)"
  by (cases rs) (simp_all add: minimalTTL_def fold_min)

lemma minimalTTL_le: "r \<in> set rs \<Longrightarrow> minimalTTL rs \<le> rr_Ttl r"
  using minimalTTL_Min[of rs] by (cases "rs = []") auto

lemma minimalTTL_in: "rs \<noteq> [] \<Longrightarrow> \<exists>r\<in>set rs. rr_Ttl r = minimalTTL rs"
proof -
  assume "rs \<noteq> []"
  then have "minimalTTL rs \<in> rr_Ttl ` set rs" unfolding minimalTTL_Min[OF \<open>rs \<noteq> []\<close>] by (intro Min_in) auto
  then show ?thesis by auto
qed

lemma minimalTTL_append: "rs \<subseteq> set all \<Longrightarrow> r \<in> rs \<Longrightarrow> minimalTTL all \<le> rr_Ttl r"
  using minimalTTL_le by blast

text \<open>A lifetime that goes down to \<open>ttl\<close> from the least one takes the others down by as much, to one at least.\<close>

lemma Clamp_shift:
  assumes "unat ttl \<le> unat mn" and "unat mn \<le> unat x"
  shows "unat (Clamp (x - (mn - ttl)) 1 x) = max 1 (unat x - (unat mn - unat ttl))"
proof -
  have d: "unat (mn - ttl) = unat mn - unat ttl" using assms(1) by (simp add: unat_sub word_le_nat_alt)
  then have "mn - ttl \<le> x" using assms by (simp add: word_le_nat_alt)
  then have s: "unat (x - (mn - ttl)) = unat x - (unat mn - unat ttl)" using d by (simp add: unat_sub)
  have "x - (mn - ttl) < 1 \<longleftrightarrow> unat x - (unat mn - unat ttl) < 1"
    "\<not> x - (mn - ttl) > x" "unat (1 :: u32) = 1"
    using s by (simp_all add: word_less_nat_alt)
  then show ?thesis using s by (auto simp: Clamp_def)
qed

lemma updateTTL_ttls:
  assumes "ttl \<le> minimalTTL rs"
  shows "map (\<lambda>r. unat (rr_Ttl r)) (updateTTL rs ttl)
    = map (\<lambda>r. max 1 (unat (rr_Ttl r) - (unat (minimalTTL rs) - unat ttl))) rs"
  using assms minimalTTL_le[of _ rs] Clamp_shift[of ttl "minimalTTL rs"]
  by (cases "rs = []") (simp_all add: updateTTL_def Let_def word_le_nat_alt)

lemma updateTTL_data: "map (\<lambda>r. r\<lparr>rr_Ttl := 0\<rparr>) (updateTTL rs ttl) = map (\<lambda>r. r\<lparr>rr_Ttl := 0\<rparr>) rs"
  by (simp add: updateTTL_def Let_def)

text \<open>
  When the lifetimes of cached records are refreshed with what is left of the least one, the least one becomes
  that, every other goes down by as much, none goes below one second, and nothing else of the records changes.
\<close>

theorem updateTTL_keeps_gaps:
  assumes "ttl \<le> minimalTTL rs" and "rs \<noteq> []"
  shows "unat (minimalTTL (updateTTL rs ttl)) = max 1 (unat ttl)
    \<and> map (\<lambda>r. unat (rr_Ttl r)) (updateTTL rs ttl)
        = map (\<lambda>r. max 1 (unat (rr_Ttl r) - (unat (minimalTTL rs) - unat ttl))) rs
    \<and> map (\<lambda>r. r\<lparr>rr_Ttl := 0\<rparr>) (updateTTL rs ttl) = map (\<lambda>r. r\<lparr>rr_Ttl := 0\<rparr>) rs"
proof -
  let ?f = "\<lambda>x. max 1 (x - (unat (minimalTTL rs) - unat ttl))"
  have u: "updateTTL rs ttl \<noteq> []" using assms(2) by (simp add: updateTTL_def Let_def)
  have "(\<lambda>r. unat (rr_Ttl r)) ` set (updateTTL rs ttl) = (\<lambda>r. ?f (unat (rr_Ttl r))) ` set rs"
    using arg_cong[OF updateTTL_ttls[OF assms(1)], of set] by simp
  note S = this
  have all: "\<exists>r'\<in>set rs. unat (rr_Ttl r) = ?f (unat (rr_Ttl r'))" if "r \<in> set (updateTTL rs ttl)" for r
    using S that by blast
  have ex: "\<exists>r\<in>set (updateTTL rs ttl). unat (rr_Ttl r) = ?f (unat (rr_Ttl r'))" if "r' \<in> set rs" for r'
    using S that by (metis (no_types, lifting) imageE imageI)
  obtain m where m: "m \<in> set rs" "rr_Ttl m = minimalTTL rs" using minimalTTL_in[OF assms(2)] by blast
  have le: "unat ttl \<le> unat (minimalTTL rs)" using assms(1) by (simp add: word_le_nat_alt)
  obtain r where "r \<in> set (updateTTL rs ttl)" "unat (rr_Ttl r) = max 1 (unat ttl)"
    using ex[OF m(1)] m(2) le by auto
  then have "unat (minimalTTL (updateTTL rs ttl)) \<le> max 1 (unat ttl)"
    using minimalTTL_le[of r] by (metis word_le_nat_alt)
  moreover obtain q where q: "q \<in> set (updateTTL rs ttl)" "rr_Ttl q = minimalTTL (updateTTL rs ttl)"
    using minimalTTL_in[OF u] by blast
  then have "max 1 (unat ttl) \<le> unat (minimalTTL (updateTTL rs ttl))"
  proof -
    obtain r' where r': "r' \<in> set rs" "unat (rr_Ttl q) = ?f (unat (rr_Ttl r'))" using all[OF q(1)] by blast
    have "unat (minimalTTL rs) \<le> unat (rr_Ttl r')" using minimalTTL_le[OF r'(1)] by (simp add: word_le_nat_alt)
    then show ?thesis using r'(2) q(2) le by auto
  qed
  ultimately show ?thesis using updateTTL_ttls[OF assms(1)] updateTTL_data by auto
qed

definition demo_rr :: "u32 \<Rightarrow> rr" where
  "demo_rr ttl = \<lparr>rr_Name = ''a.com.'', rr_Rrtype = TypeA, rr_Class = ClassINET, rr_Ttl = ttl, rr_Data = RA [1, 2, 3, 4]\<rparr>"

theorem updateTTL_keeps_gaps_witness: "unat (minimalTTL (updateTTL [demo_rr 30, demo_rr 20] 7)) = 7"
proof -
  have "(7 :: u32) \<le> minimalTTL [demo_rr 30, demo_rr 20]" by (simp add: minimalTTL_def demo_rr_def)
  from updateTTL_keeps_gaps[OF this] show ?thesis by simp
qed

section \<open>The cache\<close>

locale dns_cache =
  fixes co :: "'k cache_ops" and valid :: "'k \<Rightarrow> bool" and holds :: "'k \<Rightarrow> string \<Rightarrow> (msg \<times> int) option"
  assumes cache_Get: "valid k \<Longrightarrow> co_GetWithExpire co key k = (r, k') \<Longrightarrow> valid k' \<and> holds k' = holds k \<and> r = holds k key"
    and cache_Set: "valid k \<Longrightarrow> valid (co_SetWithExpire co key m e k) \<and>
      (\<exists>e'\<le>e. holds (co_SetWithExpire co key m e k) key = Some (m, e')) \<and>
      (\<forall>key'. key' \<noteq> key \<longrightarrow> holds (co_SetWithExpire co key m e k) key' \<in> {None, holds k key'})"
    and cache_Clear: "valid k \<Longrightarrow> valid (co_Clear co k) \<and> holds (co_Clear co k) = (\<lambda>_. None)"

definition dns_lru_valid :: "('l \<Rightarrow> ('h \<times> nat) list) \<Rightarrow> ('l, 'h, 'k, 'v) lru_cache \<Rightarrow> bool" where
  "dns_lru_valid items c \<longleftrightarrow> lru_inv items c \<and> lc_maxAge c = 0 \<and> lc_maxSize c > 0"

definition dns_lru_holds ::
  "('l \<Rightarrow> ('h \<times> nat) list) \<Rightarrow> ('l, 'h, string, msg) lru_cache \<Rightarrow> string \<Rightarrow> (msg \<times> int) option"
where
  "dns_lru_holds items c key = map_option (\<lambda>e. (le_value e, le_expires e * second)) (find_key key (lru_view items c))"

context linked_list
begin

lemma lru_GetWithExpire:
  assumes inv: "lru_inv items c" and a: "lc_maxAge c = 0" and g: "lru_GetWithExpire dl t1 t2 k c = (r, c')"
  shows "lru_inv items c' \<and> same_options c c' \<and> r = map_option (\<lambda>e. (le_value e, le_expires e)) (find_key k (lru_view items c))
    \<and> find_key k' (lru_view items c') = find_key k' (lru_view items c)"
proof -
  obtain p c1 where p: "lru_get dl t1 t2 k c = (p, c1)" by fastforce
  have r: "r = map_option (\<lambda>p. (le_value (lc_heap c1 ! p), le_expires (lc_heap c1 ! p))) p \<and> c' = c1"
    using g p by (cases p) (auto simp: lru_GetWithExpire_def)
  note G = lru_get[OF inv p]
  show ?thesis
  proof (cases "find_key k (lru_view items c)")
    case None
    then have "abs_get c t1 t2 k (lru_view items c) = (None, lru_view items c)"
      unfolding abs_get_def by (simp del: find_key_None)
    then show ?thesis using G r None by auto
  next
    case (Some e)
    have e: "le_key e = k" using Some by (auto simp: find_key_def find_Some_iff)
    have "abs_get c t1 t2 k (lru_view items c) = (Some e, other_keys k (lru_view items c) @ [e])"
      using Some a by (simp add: abs_get_def)
    then have "map_option (\<lambda>p. lc_heap c1 ! p) p = Some e" "lru_view items c1 = other_keys k (lru_view items c) @ [e]"
      using G by simp_all
    moreover have "find_key k' (other_keys k (lru_view items c) @ [e]) = find_key k' (lru_view items c)"
    proof (cases "k' = k")
      case True
      have "find_key k [e] = Some e" using e by (simp add: find_key_def)
      then show ?thesis using True Some by (simp add: find_key_append)
    next
      case False
      have "find_key k' [e] = None" using e False by (simp add: find_key_def)
      then show ?thesis using False by (simp add: find_key_append find_key_other_keys del: find_key_None)
    qed
    ultimately show ?thesis using G r Some by auto
  qed
qed

lemma dns_lru_set:
  assumes v: "dns_lru_valid items c"
  shows "dns_lru_valid items (setWithExpire dl t k m e c)"
    and "find_key k (lru_view items (setWithExpire dl t k m e c)) = Some \<lparr>le_key = k, le_value = m, le_expires = e\<rparr>"
    and "k' \<noteq> k \<Longrightarrow> find_key k' (lru_view items (setWithExpire dl t k m e c)) \<in> {None, find_key k' (lru_view items c)}"
proof -
  let ?e = "\<lparr>le_key = k, le_value = m, le_expires = e\<rparr>" and ?es = "lru_view items c"
  have inv: "lru_inv items c" using v by (simp add: dns_lru_valid_def)
  note S = setWithExpire[OF inv, of t k m e]
  show "dns_lru_valid items (setWithExpire dl t k m e c)" using S v by (simp add: dns_lru_valid_def same_options_def)
  have view: "lru_view items (setWithExpire dl t k m e c) = abs_push c ?e ?es"
    using S v by (simp add: dns_lru_valid_def abs_expire_def)
  have one: "find_key k [?e] = Some ?e" "k' \<noteq> k \<Longrightarrow> find_key k' [?e] = None" by (simp_all add: find_key_def)
  show "find_key k (lru_view items (setWithExpire dl t k m e c)) = Some ?e"
  proof (cases "find_key k ?es = None \<and> lc_maxSize c > 0 \<and> int (length ?es) + 1 > lc_maxSize c")
    case True
    then have "?es \<noteq> []" by auto
    then have "tl (?es @ [?e]) = tl ?es @ [?e]" by simp
    moreover have "find_key k (tl ?es) = None"
      using True find_key_tl[OF lru_inv_distinct[OF inv], of k] by (metis empty_iff insert_iff)
    ultimately show ?thesis using True one by (simp add: view abs_push_def find_key_append del: find_key_None)
  next
    case False
    then have "abs_push c ?e ?es = other_keys k ?es @ [?e]" by (auto simp add: abs_push_def simp del: find_key_None)
    then show ?thesis using one by (simp add: view find_key_append)
  qed
  show "find_key k' (lru_view items (setWithExpire dl t k m e c)) \<in> {None, find_key k' ?es}" if "k' \<noteq> k"
  proof (cases "find_key k ?es = None \<and> lc_maxSize c > 0 \<and> int (length ?es) + 1 > lc_maxSize c")
    case True
    then have "?es \<noteq> []" by auto
    then have "tl (?es @ [?e]) = tl ?es @ [?e]" by simp
    then show ?thesis
      using True one(2)[OF that] find_key_tl[OF lru_inv_distinct[OF inv], of k']
      by (simp add: view abs_push_def find_key_append del: find_key_None)
  next
    case False
    then have "abs_push c ?e ?es = other_keys k ?es @ [?e]" by (auto simp add: abs_push_def simp del: find_key_None)
    then show ?thesis using one(2)[OF that] that by (simp add: view find_key_append find_key_other_keys del: find_key_None)
  qed
qed

end

sublocale linked_list \<subseteq> dnsc: dns_cache "dns_lru_ops dl" "dns_lru_valid items" "dns_lru_holds items"
proof unfold_locales
  fix k :: "('l, 'h, string, msg) lru_cache" and key r k'
  assume v: "dns_lru_valid items k" and g: "co_GetWithExpire (dns_lru_ops dl) key k = (r, k')"
  obtain q k1 where q: "lru_GetWithExpire dl 0 0 key k = (q, k1)" by fastforce
  have "lru_inv items k" "lc_maxAge k = 0" using v by (auto simp: dns_lru_valid_def)
  note G = lru_GetWithExpire[OF this q]
  have "k' = k1" "r = map_option (\<lambda>(m, e). (m, e * second)) q" using g q by (auto simp: dns_lru_ops_def)
  then show "dns_lru_valid items k' \<and> dns_lru_holds items k' = dns_lru_holds items k \<and> r = dns_lru_holds items k key"
    using G v by (auto simp: dns_lru_valid_def same_options_def dns_lru_holds_def fun_eq_iff option.map_comp comp_def)
next
  fix k :: "('l, 'h, string, msg) lru_cache" and key m e
  assume v: "dns_lru_valid items k"
  have "e div second * second \<le> e" by (simp add: second_def)
  then show "dns_lru_valid items (co_SetWithExpire (dns_lru_ops dl) key m e k) \<and>
      (\<exists>e'\<le>e. dns_lru_holds items (co_SetWithExpire (dns_lru_ops dl) key m e k) key = Some (m, e')) \<and>
      (\<forall>key'. key' \<noteq> key \<longrightarrow> dns_lru_holds items (co_SetWithExpire (dns_lru_ops dl) key m e k) key'
        \<in> {None, dns_lru_holds items k key'})"
    using dns_lru_set[OF v, where t = 0 and k = key and m = m and e = "e div second"] by (auto simp: dns_lru_ops_def dns_lru_holds_def)
next
  fix k :: "('l, 'h, string, msg) lru_cache"
  assume "dns_lru_valid items k"
  then show "dns_lru_valid items (co_Clear (dns_lru_ops dl) k) \<and> dns_lru_holds items (co_Clear (dns_lru_ops dl) k) = (\<lambda>_. None)"
    using lru_Clear[of k] by (auto simp: dns_lru_valid_def dns_lru_ops_def dns_lru_holds_def same_options_def find_key_def)
qed

section \<open>Cached answers age\<close>

text \<open>Records that are the same but for their lifetimes, which have gone down by \<open>d\<close> nanoseconds or are one second.\<close>

definition aged :: "int \<Rightarrow> rr list \<Rightarrow> rr list \<Rightarrow> bool" where
  "aged d rs rs' \<longleftrightarrow> list_all2 (\<lambda>r r'. r'\<lparr>rr_Ttl := 0\<rparr> = r\<lparr>rr_Ttl := 0\<rparr> \<and>
     (rr_Ttl r' = 1 \<or> uint (rr_Ttl r') * second \<le> uint (rr_Ttl r) * second - d)) rs rs'"

lemma aged_set: "aged d rs (map (\<lambda>r. r\<lparr>rr_Ttl := 1\<rparr>) rs)"
  by (simp add: aged_def list_all2_map2 list.rel_refl)

lemma aged_update:
  assumes le: "ttl \<le> minimalTTL rs" and d: "d \<le> (uint (minimalTTL rs) - uint ttl) * second"
  shows "aged d rs (updateTTL rs ttl)"
proof (cases "rs = []")
  case False
  let ?f = "\<lambda>r. r\<lparr>rr_Ttl := Clamp (rr_Ttl r - (minimalTTL rs - ttl)) 1 (rr_Ttl r)\<rparr>"
  have u: "updateTTL rs ttl = map ?f rs" using False by (simp add: updateTTL_def Let_def)
  have "rr_Ttl (?f r) = 1 \<or> uint (rr_Ttl (?f r)) * second \<le> uint (rr_Ttl r) * second - d" if r: "r \<in> set rs" for r
  proof (cases "rr_Ttl (?f r) = 1")
    case False
    have "unat ttl \<le> unat (minimalTTL rs)" "unat (minimalTTL rs) \<le> unat (rr_Ttl r)"
      using le minimalTTL_le[OF r] by (simp_all add: word_le_nat_alt)
    note C = Clamp_shift[OF this]
    have "unat (rr_Ttl (?f r)) \<noteq> 1" using False by (metis unat_1 word_unat_eq_iff)
    then have "unat (rr_Ttl (?f r)) = unat (rr_Ttl r) - (unat (minimalTTL rs) - unat ttl)"
      "unat (minimalTTL rs) - unat ttl \<le> unat (rr_Ttl r)"
      using C by auto
    then have "uint (rr_Ttl (?f r)) = uint (rr_Ttl r) - (uint (minimalTTL rs) - uint ttl)"
      using \<open>unat ttl \<le> unat (minimalTTL rs)\<close> unfolding uint_nat by linarith
    then show ?thesis using d by (simp add: left_diff_distrib)
  qed simp
  then show ?thesis by (simp add: u aged_def list_all2_map2 list_all2_same)
qed (simp add: updateTTL_def aged_def)

lemma unat_less_32: "i < 2 ^ 32 \<Longrightarrow> 0 \<le> i \<Longrightarrow> uint (word_of_int i :: u32) = i"
  by (simp add: uint_word_of_int_eq take_bit_int_eq_self)

text \<open>What is left of a lifetime \<open>ttl\<close> that began at \<open>t0\<close>, read in whole seconds at \<open>t2\<close>.\<close>

lemma seconds_left:
  assumes "e \<le> t0 + uint (ttl :: u32) * second" and "t0 \<le> t2" and "e - t2 > - second"
  shows "uint (word_of_int (trunc_seconds (e - t2)) :: u32) \<le> uint ttl
    \<and> (t2 \<le> e \<longrightarrow> t2 - t0 \<le> (uint ttl - uint (word_of_int (trunc_seconds (e - t2)) :: u32)) * second)
    \<and> (e < t2 \<longrightarrow> uint (word_of_int (trunc_seconds (e - t2)) :: u32) = 0)"
proof (cases "e < t2")
  case True
  then have "(t2 - e) div second = 0" using assms(3) by (simp add: second_def)
  then show ?thesis using True by (simp add: trunc_seconds_def)
next
  case False
  let ?s = "(e - t2) div second"
  have s: "0 \<le> ?s" "?s * second \<le> e - t2" using False by (auto simp: second_def pos_imp_zdiv_nonneg_iff)
  then have "?s * second \<le> uint ttl * second - (t2 - t0)" using assms(1) by simp
  moreover from this have "?s * second \<le> uint ttl * second" using assms(2) by simp
  then have "?s \<le> uint ttl" by (simp add: second_def)
  moreover have "uint ttl < 2 ^ 32" using uint_lt2p[of ttl] by simp
  ultimately show ?thesis using False s unat_less_32[of ?s] by (simp add: trunc_seconds_def left_diff_distrib)
qed

text \<open>The records of a section, refreshed from an expiry that has not passed the least lifetime of the message.\<close>

lemma aged_section:
  assumes ttl: "ttl \<le> minimalTTL rs \<or> rs = []" and "e \<le> t0 + uint ttl * second" and "t0 \<le> t1" and "t1 \<le> e"
    and "t1 \<le> t2" and "t2 < t1 + second"
  shows "aged (t1 - t0) rs (updateTTL rs (word_of_int (trunc_seconds (e - t2))))"
proof (cases "rs = []")
  case False
  then have t: "uint ttl \<le> uint (minimalTTL rs)" using ttl by (simp add: word_le_def)
  let ?w = "word_of_int (trunc_seconds (e - t2)) :: u32"
  note L = seconds_left[of e t0 ttl t2]
  have w: "?w \<le> minimalTTL rs" using L assms t by (simp add: word_le_def)
  have "t1 - t0 \<le> (uint ttl - uint ?w) * second"
    using L assms by (cases "t2 \<le> e") auto
  also have "\<dots> \<le> (uint (minimalTTL rs) - uint ?w) * second" using t by (simp add: second_def)
  finally show ?thesis by (intro aged_update[OF w])
qed (simp add: updateTTL_def aged_def)

definition aged_msg :: "int \<Rightarrow> msg \<Rightarrow> msg \<Rightarrow> bool" where
  "aged_msg d a b \<longleftrightarrow> b\<lparr>m_Answer := [], m_Ns := [], m_Extra := []\<rparr> = a\<lparr>m_Answer := [], m_Ns := [], m_Extra := []\<rparr> \<and>
     aged d (m_Answer a) (m_Answer b) \<and> aged d (m_Ns a) (m_Ns b) \<and> aged d (m_Extra a) (m_Extra b)"

lemma aged_setMsgTTL: "aged_msg d a (setMsgTTL a 1)"
  by (simp add: aged_msg_def setMsgTTL_def aged_set)

lemma aged_updateMsgTTL:
  assumes "ttl \<le> minimalTTL (m_Answer a @ m_Ns a @ m_Extra a)"
    and "e \<le> t0 + uint ttl * second" "t0 \<le> t1" "t1 \<le> e" "t1 \<le> t2" "t2 < t1 + second"
  shows "aged_msg (t1 - t0) a (updateMsgTTL a (word_of_int (trunc_seconds (e - t2))))"
proof -
  let ?all = "m_Answer a @ m_Ns a @ m_Extra a"
  have "ttl \<le> minimalTTL rs \<or> rs = []" if "set rs \<subseteq> set ?all" for rs
  proof (cases "rs = []")
    case False
    obtain r where r: "r \<in> set rs" "rr_Ttl r = minimalTTL rs" using minimalTTL_in[OF False] by blast
    then have "r \<in> set ?all" using that by blast
    from order_trans[OF assms(1) minimalTTL_le[OF this]] show ?thesis using r(2) by simp
  qed simp
  then have "ttl \<le> minimalTTL (m_Answer a) \<or> m_Answer a = []" "ttl \<le> minimalTTL (m_Ns a) \<or> m_Ns a = []"
    "ttl \<le> minimalTTL (m_Extra a) \<or> m_Extra a = []" by auto
  from this[THEN aged_section, OF assms(2-)] show ?thesis by (simp add: aged_msg_def updateMsgTTL_def)
qed

context dns_cache
begin

lemma miss_then_hit:
  assumes v: "valid k" and miss: "holds k (dl_QString lib q) = None"
    and q: "m_Question m = q # qs" "m_Question m' = q # qs'" "isIPRequest q"
    and first: "resolver_Exchange lib co w1 w2 n1 n2 t0 r m k = (Inr a, bg, k1)"
    and ok: "m_Rcode a \<noteq> RcodeServerFailure" and ttl: "minimalTTL (m_Answer a @ m_Ns a @ m_Extra a) \<noteq> 0"
    and t: "t0 \<le> t1" "t1 \<le> t2" "t2 < t1 + second"
  shows "\<exists>b bg' k2. resolver_Exchange lib co w1' w2' t1 t2 t3 r' m' k1 = (Inr b, bg', k2) \<and> aged_msg (t1 - t0) a b"
proof -
  let ?key = "dl_QString lib q" and ?ttl = "minimalTTL (m_Answer a @ m_Ns a @ m_Extra a)"
  obtain r0 k0 where g: "co_GetWithExpire co ?key k = (r0, k0)" by fastforce
  note G = cache_Get[OF v g]
  have "exchangeWithoutCache lib co w1 w2 t0 r m k0 = (Inr a, k1)"
    using first g G miss q(1) by (auto simp: resolver_Exchange_def split: prod.splits)
  then have k1: "k1 = putMsgToCache co t0 ?key q a k0"
    using q(1,3) by (auto simp: exchangeWithoutCache_def Let_def split: sum.splits)
  have "qu_Qtype q \<noteq> TypeTXT" using q(3) by (auto simp: isIPRequest_def dns_types)
  then have "cacheTTL q a = Some ?ttl" using ok ttl by (simp add: cacheTTL_def Let_def)
  then have "k1 = co_SetWithExpire co ?key a (t0 + uint ?ttl * second) k0" using k1 by (simp add: putMsgToCache_def)
  then obtain e where e: "valid k1" "holds k1 ?key = Some (a, e)" "e \<le> t0 + uint ?ttl * second"
    using cache_Set[OF conjunct1[OF G], of ?key a "t0 + uint ?ttl * second"] by blast
  obtain r2 k2 where g2: "co_GetWithExpire co ?key k1 = (r2, k2)" by fastforce
  have r2: "r2 = Some (a, e)" using cache_Get[OF e(1) g2] e(2) by simp
  show ?thesis
  proof (cases "e < t1")
    case True
    then have "resolver_Exchange lib co w1' w2' t1 t2 t3 r' m' k1 = (Inr (setMsgTTL a 1), True, k2)"
      using g2 r2 q(2) by (simp add: resolver_Exchange_def)
    then show ?thesis using aged_setMsgTTL by blast
  next
    case False
    then have "resolver_Exchange lib co w1' w2' t1 t2 t3 r' m' k1
        = (Inr (updateMsgTTL a (word_of_int (trunc_seconds (e - t2)))), False, k2)"
      using g2 r2 q(2) by (simp add: resolver_Exchange_def)
    then show ?thesis using aged_updateMsgTTL[OF order_refl e(3) t(1) _ t(2,3)] False by auto
  qed
qed

end

text \<open>
  C3: an answer that was fetched and cached is given again to the same question, whatever the servers would say
  now, with every lifetime reduced by at least the time since it was fetched, or to one second; this holds
  over every cache that keeps the contract, expired or not.
\<close>

theorem cached_answer_ages:
  assumes "dns_cache co valid holds" and "valid k" and "holds k (dl_QString lib q) = None"
    and "m_Question m = q # qs" and "m_Question m' = q # qs'" and "isIPRequest q"
    and "resolver_Exchange lib co w1 w2 n1 n2 t0 r m k = (Inr a, bg, k1)"
    and "m_Rcode a \<noteq> RcodeServerFailure" and "minimalTTL (m_Answer a @ m_Ns a @ m_Extra a) \<noteq> 0"
    and "t0 \<le> t1" and "t1 \<le> t2" and "t2 < t1 + second"
  shows "\<exists>b bg' k2. resolver_Exchange lib co w1' w2' t1 t2 t3 r' m' k1 = (Inr b, bg', k2) \<and> aged_msg (t1 - t0) a b"
  using dns_cache.miss_then_hit[OF assms] .

section \<open>No polluted answers\<close>

text \<open>
  An answer is clean if no address in it is one the fallback filters name. The world is trusted so far as
  clients that return were asked and the fallback servers give clean answers.
\<close>

definition clean :: "'c resolver \<Rightarrow> msg \<Rightarrow> bool" where
  "clean r a \<longleftrightarrow> (\<forall>ip\<in>set (msgToIP a). \<not> shouldIPFallback r ip)"

definition trusted :: "dns_lib \<Rightarrow> 'c resolver \<Rightarrow> 'c world \<Rightarrow> bool" where
  "trusted lib r w \<longleftrightarrow> (\<forall>cs. set (w_order w cs) \<subseteq> set cs) \<and>
     (\<forall>c\<in>set (re_fallback r). \<forall>m a. client_Exchange lib (w_net w) c m = Inr a \<longrightarrow> clean r a)"

lemma picker_result_in: "picker_result rs = Some a \<Longrightarrow> Inr a \<in> set rs"
  by (induction rs rule: picker_result.induct) auto

lemma batchExchange_from:
  assumes "\<forall>cs. set (w_order w cs) \<subseteq> set cs" and "fst (batchExchange lib w cs m) = Inr a"
  shows "\<exists>c\<in>set cs. client_Exchange lib (w_net w) c m = Inr a"
proof (cases "find is_rcode cs")
  case None
  then have "picker_result (map (batch_one lib w m) (w_order w cs)) = Some a"
    using assms(2) by (auto simp: batchExchange_def Let_def split: option.splits)
  from picker_result_in[OF this] obtain c where "c \<in> set (w_order w cs)" "batch_one lib w m c = Inr a" by auto
  then show ?thesis using assms(1) by (auto simp: batch_one_def split: sum.splits if_splits)
next
  case (Some c)
  then have "c \<in> set cs" by (auto simp: find_Some_iff)
  then show ?thesis using assms(2) Some by (auto simp: batchExchange_def)
qed

lemma trusted_fallback:
  "trusted lib r w \<Longrightarrow> fst (batchExchange lib w (re_fallback r) m) = Inr a \<Longrightarrow> clean r a"
  using batchExchange_from[of w lib "re_fallback r" m a] by (auto simp: trusted_def)

lemma ipExchange_clean:
  assumes "trusted lib r w1" and "trusted lib r w2" and "re_policy r = []" and "re_fallback r \<noteq> []"
    and "fst (ipExchange lib w1 w2 r m) = Inr a"
  shows "clean r a"
proof -
  have "matchPolicy r m = []" using assms(3) by (simp add: matchPolicy_def Let_def)
  then show ?thesis
    using assms trusted_fallback[OF assms(1), of m a] trusted_fallback[OF assms(2), of m a]
    by (auto simp: ipExchange_def Let_def clean_def list_all_iff split: if_splits sum.splits bool.splits)
qed

lemma msgToIP_extra: "msgToIP (a\<lparr>m_Extra := x\<rparr>) = msgToIP a"
  by (simp add: msgToIP_def)

lemma msgToIP_ttl: "msgToIP (setMsgTTL a ttl) = msgToIP a" "msgToIP (updateMsgTTL a ttl) = msgToIP a"
proof -
  have ttl: "rr_ip (x\<lparr>rr_Ttl := t\<rparr>) = rr_ip x" for x t by (simp add: rr_ip_def)
  show "msgToIP (setMsgTTL a ttl) = msgToIP a" "msgToIP (updateMsgTTL a ttl) = msgToIP a"
    by (simp_all add: msgToIP_def setMsgTTL_def updateMsgTTL_def updateTTL_def ttl comp_def Let_def)
qed

text \<open>Every history of a cache: exchanges, background exchanges and clearing, in trusted worlds.\<close>

inductive dns_history ::
  "dns_lib \<Rightarrow> 'k cache_ops \<Rightarrow> ('c world \<Rightarrow> bool) \<Rightarrow> 'c resolver \<Rightarrow> 'k \<Rightarrow> 'k \<Rightarrow> bool"
  for lib co W r k0
where
  start: "dns_history lib co W r k0 k0"
| exchange: "dns_history lib co W r k0 k \<Longrightarrow> W w1 \<Longrightarrow> W w2 \<Longrightarrow>
    resolver_Exchange lib co w1 w2 n1 n2 n3 r m k = (res, bg, k') \<Longrightarrow> dns_history lib co W r k0 k'"
| background: "dns_history lib co W r k0 k \<Longrightarrow> W w1 \<Longrightarrow> W w2 \<Longrightarrow> m_Question m \<noteq> [] \<Longrightarrow>
    exchangeWithoutCache lib co w1 w2 n3 r m k = (res, k') \<Longrightarrow> dns_history lib co W r k0 k'"
| clear: "dns_history lib co W r k0 k \<Longrightarrow> dns_history lib co W r k0 (co_Clear co k)"

context dns_cache
begin

definition cache_clean :: "dns_lib \<Rightarrow> 'c resolver \<Rightarrow> 'k \<Rightarrow> bool" where
  "cache_clean lib r k \<longleftrightarrow> valid k \<and>
     (\<forall>q a e. isIPRequest q \<longrightarrow> holds k (dl_QString lib q) = Some (a, e) \<longrightarrow> clean r a)"

lemma put_clean:
  assumes "dns_library lib" and k: "cache_clean lib r k" and a: "isIPRequest q \<longrightarrow> clean r a"
  shows "cache_clean lib r (putMsgToCache co now (dl_QString lib q) q a k)"
proof (cases "cacheTTL q a")
  case (Some ttl)
  let ?k = "co_SetWithExpire co (dl_QString lib q) a (now + uint ttl * second) k"
  have v: "valid k" using k by (simp add: cache_clean_def)
  note S = cache_Set[OF v, of "dl_QString lib q" a "now + uint ttl * second"]
  have "clean r b" if "isIPRequest q'" "holds ?k (dl_QString lib q') = Some (b, e)" for q' b e
  proof (cases "dl_QString lib q' = dl_QString lib q")
    case True
    then have "q' = q" using dns_library.QString[OF assms(1)] by blast
    then show ?thesis using S that a True by auto
  next
    case False
    then have "holds k (dl_QString lib q') = Some (b, e)" using S that(2) by (metis empty_iff insert_iff option.distinct(1))
    then show ?thesis using k that(1) by (auto simp: cache_clean_def)
  qed
  then show ?thesis using S Some by (auto simp: cache_clean_def putMsgToCache_def)
qed (simp add: putMsgToCache_def k)

lemma exchange_clean:
  assumes lib: "dns_library lib" and w: "trusted lib r w1" "trusted lib r w2" and r: "re_policy r = []" "re_fallback r \<noteq> []"
    and k: "cache_clean lib r k" and x: "exchangeWithoutCache lib co w1 w2 now r m k = (res, k')"
  shows "cache_clean lib r k' \<and> (\<forall>a. isIPRequest (hd (m_Question m)) \<longrightarrow> res = Inr a \<longrightarrow> clean r a)"
proof (cases "isIPRequest (hd (m_Question m))")
  case True
  have c: "clean r (a\<lparr>m_Extra := e\<rparr>)" if "fst (ipExchange lib w1 w2 r m) = Inr a" for a e
    using ipExchange_clean[OF w r that] by (simp add: clean_def msgToIP_extra)
  show ?thesis
    using x True k c put_clean[OF lib k, of "hd (m_Question m)"]
    by (cases "fst (ipExchange lib w1 w2 r m)") (auto simp: exchangeWithoutCache_def Let_def)
next
  case False
  then have "\<exists>a. k' = k \<or> k' = putMsgToCache co now (dl_QString lib (hd (m_Question m))) (hd (m_Question m)) a k"
    using x by (auto simp: exchangeWithoutCache_def Let_def split: sum.splits if_splits prod.splits)
  then show ?thesis using k put_clean[OF lib k, of "hd (m_Question m)"] False by auto
qed

lemma resolver_clean:
  assumes lib: "dns_library lib" and w: "trusted lib r w1" "trusted lib r w2" and r: "re_policy r = []" "re_fallback r \<noteq> []"
    and k: "cache_clean lib r k" and x: "resolver_Exchange lib co w1 w2 n1 n2 n3 r m k = (res, bg, k')"
  shows "cache_clean lib r k' \<and> (\<forall>a. m_Question m \<noteq> [] \<longrightarrow> isIPRequest (hd (m_Question m)) \<longrightarrow> res = Inr a \<longrightarrow> clean r a)"
proof (cases "m_Question m = []")
  case False
  let ?key = "dl_QString lib (hd (m_Question m))"
  obtain h k1 where g: "co_GetWithExpire co ?key k = (h, k1)" by fastforce
  have v: "valid k" using k by (simp add: cache_clean_def)
  note G = cache_Get[OF v g]
  have k1: "cache_clean lib r k1" using G k by (simp add: cache_clean_def)
  show ?thesis
  proof (cases h)
    case None
    obtain res' k2 where y: "exchangeWithoutCache lib co w1 w2 n3 r m k1 = (res', k2)" by fastforce
    then have "res = res'" "k' = k2" using x g None False by (auto simp: resolver_Exchange_def)
    then show ?thesis using exchange_clean[OF lib w r k1 y] by blast
  next
    case (Some ae)
    obtain a e where ae: "ae = (a, e)" by fastforce
    have "isIPRequest (hd (m_Question m)) \<Longrightarrow> clean r a" using G k Some ae unfolding cache_clean_def by metis
    then show ?thesis
      using x g Some ae False k1 by (auto simp: resolver_Exchange_def clean_def msgToIP_ttl split: if_splits)
  qed
qed (use x k in \<open>auto simp: resolver_Exchange_def\<close>)

lemma history_clean:
  assumes "dns_history lib co (trusted lib r) r k0 k" and "dns_library lib" and "re_policy r = []" "re_fallback r \<noteq> []"
    and "valid k0" and "holds k0 = (\<lambda>_. None)"
  shows "cache_clean lib r k"
  using assms
proof induction
  case start
  then show ?case by (simp add: cache_clean_def)
next
  case (exchange k w1 w2 n1 n2 n3 m res bg k')
  then show ?case using resolver_clean[of lib r w1 w2 k n1 n2 n3 m res bg k'] by blast
next
  case (background k w1 w2 m n3 res k')
  then show ?case using exchange_clean[of lib r w1 w2 k n3 m res k'] by blast
next
  case (clear k)
  then show ?case using cache_Clear[of k] by (auto simp: cache_clean_def)
qed

end

text \<open>
  C2: with fallback servers whose answers the address filters do not object to, and without policies, no answer to a
  question for addresses contains a filtered address, whatever the main servers said, whether it comes from the network
  or from the cache, after every history of exchanges.
\<close>

theorem no_polluted_answers:
  assumes "dns_cache co valid holds" and "dns_library lib" and "valid k0" and "holds k0 = (\<lambda>_. None)"
    and "re_policy r = []" and "re_fallback r \<noteq> []"
    and "dns_history lib co (trusted lib r) r k0 k" and "trusted lib r w1" and "trusted lib r w2"
    and "resolver_Exchange lib co w1 w2 n1 n2 n3 r m k = (Inr a, bg, k')"
    and "m_Question m = q # qs" and "isIPRequest q" and "ip \<in> set (msgToIP a)"
  shows "\<not> shouldIPFallback r ip"
  using dns_cache.resolver_clean[OF assms(1,2,8,9,5,6)
      dns_cache.history_clean[OF assms(1,7,2,5,6,3,4)] assms(10)] assms(11-13)
  by (auto simp: clean_def)

section \<open>A library and a world\<close>

definition demo_QString :: "question \<Rightarrow> string" where
  "demo_QString q = map (\<lambda>b. char_of (unat b)) (put_be (qu_Qtype q) @ put_be (qu_Qclass q)) @ qu_Name q"

definition demo_lib :: dns_lib where
  "demo_lib = \<lparr>dl_SetRcode = (\<lambda>m r c. m\<lparr>m_Id := m_Id r, m_Response := True, m_Rcode := c,
       m_Question := (case m_Question r of [] \<Rightarrow> m_Question m | q # _ \<Rightarrow> [q])\<rparr>),
     dl_Query = (\<lambda>name t. empty_msg\<lparr>m_Question := [\<lparr>qu_Name = name, qu_Qtype = t, qu_Qclass = ClassINET\<rparr>]\<rparr>),
     dl_Fqdn = (\<lambda>s. if HasSuffix s ''.'' then s else s @ ''.''), dl_QString = demo_QString\<rparr>"

lemma inj_byte_char: "inj (\<lambda>b :: u8. char_of (unat b))"
proof (rule injI)
  fix a b :: u8 assume "(char_of (unat a) :: char) = char_of (unat b)"
  then have "unat a mod 256 = unat b mod 256" by (metis of_char_of)
  then show "a = b" using unat_bound[of a] unat_bound[of b] by (simp add: word_unat_eq_iff)
qed

lemma demo_QString_inj: "demo_QString q = demo_QString q' \<longleftrightarrow> q = q'"
proof
  assume e: "demo_QString q = demo_QString q'"
  have l: "length (put_be (qu_Qtype q) @ put_be (qu_Qclass q)) = length (put_be (qu_Qtype q') @ put_be (qu_Qclass q'))"
    by (simp add: length_put_be)
  from e l have "map (\<lambda>b. char_of (unat b) :: char) (put_be (qu_Qtype q) @ put_be (qu_Qclass q))
      = map (\<lambda>b. char_of (unat b)) (put_be (qu_Qtype q') @ put_be (qu_Qclass q'))" and n: "qu_Name q = qu_Name q'"
    by (simp_all add: demo_QString_def)
  then have "put_be (qu_Qtype q) @ put_be (qu_Qclass q) = put_be (qu_Qtype q') @ put_be (qu_Qclass q')"
    using inj_map_eq_map[OF inj_byte_char] by blast
  then have "put_be (qu_Qtype q) = put_be (qu_Qtype q')" "put_be (qu_Qclass q) = put_be (qu_Qclass q')"
    by (simp_all add: length_put_be)
  then have "get_be (put_be (qu_Qtype q)) = (get_be (put_be (qu_Qtype q')) :: u16)"
    "get_be (put_be (qu_Qclass q)) = (get_be (put_be (qu_Qclass q')) :: u16)" by simp_all
  then have "qu_Qtype q = qu_Qtype q'" "qu_Qclass q = qu_Qclass q'" by (simp_all add: get_put_be)
  then show "q = q'" using n by (intro question.equality) simp_all
qed simp

interpretation demo: dns_library demo_lib
  by unfold_locales (auto simp: demo_lib_def demo_QString_inj split: list.splits)

definition demo_rr_ip :: "u32 \<Rightarrow> rr" where
  "demo_rr_ip w = \<lparr>rr_Name = ''a.com.'', rr_Rrtype = TypeA, rr_Class = ClassINET, rr_Ttl = 300, rr_Data = RA (put_be w)\<rparr>"

definition demo_world :: "nat world" where
  "demo_world = \<lparr>w_net = (\<lambda>c m. Inr (m\<lparr>m_Response := True, m_Answer := [demo_rr_ip (if c = 0 then 0x01020304 else 0x05060708)]\<rparr>)),
     w_order = (\<lambda>cs. cs)\<rparr>"

definition demo_resolver :: "nat resolver" where
  "demo_resolver = \<lparr>re_ipv6 = False, re_ipv6Timeout = 0, re_main = [NetClient 0], re_fallback = [NetClient 1],
     re_fallbackDomainFilters = [], re_fallbackIPFilters = [\<lambda>ip. ip = V4 0x01020304], re_policy = []\<rparr>"

definition demo_query :: msg where
  "demo_query = empty_msg\<lparr>m_Question := [\<lparr>qu_Name = ''a.com.'', qu_Qtype = TypeA, qu_Qclass = ClassINET\<rparr>]\<rparr>"

definition demo_answer :: msg where
  "demo_answer = demo_query\<lparr>m_Response := True, m_Answer := [demo_rr_ip 0x05060708]\<rparr>"

lemma demo_ips: "msgToIP (m\<lparr>m_Answer := [demo_rr_ip w]\<rparr>) = [V4 w]"
  by (simp add: msgToIP_def rr_ip_def demo_rr_ip_def IsValid_def length_put_be get_put_be)

lemma demo_trusted: "trusted demo_lib demo_resolver demo_world"
  by (simp add: trusted_def demo_world_def demo_resolver_def clean_def demo_ips shouldIPFallback_def)

lemma demo_policy: "matchPolicy demo_resolver m = []" "shouldOnlyQueryFallback demo_resolver m = False"
  by (simp_all add: matchPolicy_def shouldOnlyQueryFallback_def demo_resolver_def Let_def)

lemma demo_servers: "re_main demo_resolver = [NetClient 0]" "re_fallback demo_resolver = [NetClient 1]"
  "shouldIPFallback demo_resolver ip \<longleftrightarrow> ip = V4 0x01020304"
  by (simp_all add: demo_resolver_def shouldIPFallback_def)

lemma demo_batch:
  "fst (batchExchange demo_lib demo_world [NetClient c] demo_query)
    = Inr (demo_query\<lparr>m_Response := True, m_Answer := [demo_rr_ip (if c = 0 then 0x01020304 else 0x05060708)]\<rparr>)"
  by (simp add: batchExchange_def batch_one_def demo_world_def demo_query_def empty_msg_def)

lemma demo_first:
  assumes "dns_cache co valid holds" and "valid k" and "holds k = (\<lambda>_. None)"
  shows "\<exists>k'. resolver_Exchange demo_lib co demo_world demo_world n1 n2 n3 demo_resolver demo_query k = (Inr demo_answer, False, k')"
proof -
  obtain h k1 where g: "co_GetWithExpire co (dl_QString demo_lib (hd (m_Question demo_query))) k = (h, k1)" by fastforce
  have "h = None" using dns_cache.cache_Get[OF assms(1,2) g] assms(3) by simp
  moreover have "fst (ipExchange demo_lib demo_world demo_world demo_resolver demo_query) = Inr demo_answer"
    using demo_batch[of 0] demo_batch[of 1]
    by (simp add: ipExchange_def demo_policy demo_servers demo_ips demo_answer_def)
  moreover have "isIPRequest (hd (m_Question demo_query))" "m_Question demo_query \<noteq> []" "m_Extra demo_answer = []"
    by (simp_all add: demo_query_def isIPRequest_def demo_answer_def empty_msg_def)
  ultimately show ?thesis
    using g by (simp add: resolver_Exchange_def exchangeWithoutCache_def Let_def)
qed

lemma newCache_ok:
  assumes "n \<ge> 0"
  shows "dns_lru_valid (\<lambda>l. l) (newCache hlist_ops n) \<and> dns_lru_holds (\<lambda>l. l) (newCache hlist_ops n) = (\<lambda>_. None)"
proof -
  have "lc_maxAge (newCache hlist_ops n) = 0" "lc_maxSize (newCache hlist_ops n) = (if n = 0 then 4096 else n)"
    by (simp_all add: newCache_def lru_New_def)
  moreover have "lru_inv (\<lambda>l. l) (newCache hlist_ops n)" "lru_view (\<lambda>l. l) (newCache hlist_ops n) = []"
    by (simp_all add: newCache_def hl.lru_New)
  ultimately show ?thesis using assms by (auto simp: dns_lru_valid_def dns_lru_holds_def fun_eq_iff find_key_def)
qed

theorem cached_answer_ages_witness:
  "\<exists>k1 b bg' k2. resolver_Exchange demo_lib (dns_lru_ops hlist_ops) demo_world demo_world (7 * second) (7 * second) 0
      demo_resolver demo_query k1 = (Inr b, bg', k2) \<and> aged_msg (7 * second) demo_answer b"
proof -
  note N = newCache_ok[of 16]
  obtain k1 where k1: "resolver_Exchange demo_lib (dns_lru_ops hlist_ops) demo_world demo_world 0 0 0 demo_resolver demo_query
      (newCache hlist_ops 16) = (Inr demo_answer, False, k1)"
    using demo_first[OF hl.dnsc.dns_cache_axioms] N by fastforce
  have q: "m_Question demo_query = \<lparr>qu_Name = ''a.com.'', qu_Qtype = TypeA, qu_Qclass = ClassINET\<rparr> # []"
    "isIPRequest \<lparr>qu_Name = ''a.com.'', qu_Qtype = TypeA, qu_Qclass = ClassINET\<rparr>"
    "m_Rcode demo_answer \<noteq> RcodeServerFailure"
    "minimalTTL (m_Answer demo_answer @ m_Ns demo_answer @ m_Extra demo_answer) \<noteq> 0"
    by (simp_all add: demo_query_def isIPRequest_def demo_answer_def empty_msg_def minimalTTL_def demo_rr_ip_def)
  have t: "(0 :: int) \<le> 7 * second" "7 * second < 7 * second + second" by (simp_all add: second_def)
  have "dns_lru_holds (\<lambda>l. l) (newCache hlist_ops 16) (dl_QString demo_lib \<lparr>qu_Name = ''a.com.'', qu_Qtype = TypeA, qu_Qclass = ClassINET\<rparr>) = None"
    "dns_lru_valid (\<lambda>l. l) (newCache hlist_ops 16)" using N by simp_all
  from cached_answer_ages[OF hl.dnsc.dns_cache_axioms this(2,1) q(1) q(1) q(2) k1 q(3,4) t(1) order_refl t(2)]
  show ?thesis by (metis diff_zero)
qed

theorem no_polluted_answers_witness:
  "\<exists>a bg k'. resolver_Exchange demo_lib (dns_lru_ops hlist_ops) demo_world demo_world 0 0 0 demo_resolver demo_query
      (newCache hlist_ops 16) = (Inr a, bg, k') \<and> \<not> shouldIPFallback demo_resolver (V4 0x05060708)"
proof -
  note N = newCache_ok[of 16]
  obtain k1 where k1: "resolver_Exchange demo_lib (dns_lru_ops hlist_ops) demo_world demo_world 0 0 0 demo_resolver demo_query
      (newCache hlist_ops 16) = (Inr demo_answer, False, k1)"
    using demo_first[OF hl.dnsc.dns_cache_axioms] N by fastforce
  have q: "m_Question demo_query = \<lparr>qu_Name = ''a.com.'', qu_Qtype = TypeA, qu_Qclass = ClassINET\<rparr> # []"
    "isIPRequest \<lparr>qu_Name = ''a.com.'', qu_Qtype = TypeA, qu_Qclass = ClassINET\<rparr>"
    "re_policy demo_resolver = []" "re_fallback demo_resolver \<noteq> []" "V4 0x05060708 \<in> set (msgToIP demo_answer)"
    by (simp_all add: demo_query_def isIPRequest_def demo_answer_def demo_resolver_def demo_ips)
  have "dns_lru_holds (\<lambda>l. l) (newCache hlist_ops 16) = (\<lambda>_. None)" "dns_lru_valid (\<lambda>l. l) (newCache hlist_ops 16)"
    using N by simp_all
  from no_polluted_answers[OF hl.dnsc.dns_cache_axioms demo.dns_library_axioms this(2,1) q(3,4) dns_history.start
      demo_trusted demo_trusted k1 q(1,2,5)]
  show ?thesis using k1 by blast
qed

end
