(* ===== verification/DnsPolicy.thy ===== *)
theory DnsPolicy imports DnsProps begin

text \<open>
  The policies of the DNS resolver: the tries and matchers that \<open>NewResolver\<close> builds answer as the configuration
  lists them. Then two places where dns does not do what it is meant to.
\<close>

section \<open>The order of the policies\<close>

text \<open>
  What the policies mean: neighbouring domain patterns form one group, in which the preferred pattern
  decides and a later one replaces an equal earlier one; groups and matchers are asked in order until one gives clients.
\<close>

type_synonym 'c patterns = "string list \<Rightarrow> 'c client list option"

definition group_answer :: "'c patterns option \<Rightarrow> string \<Rightarrow> 'c client list" where
  "group_answer g domain =
     (case (g, ValidAndSplitDomain domain) of
        (Some m, Some parts) \<Rightarrow>
          if hd parts = '''' then [] else (case best m (rev parts) of Some cs \<Rightarrow> cs | None \<Rightarrow> [])
      | _ \<Rightarrow> [])"

definition add_pattern :: "string \<Rightarrow> 'c client list \<Rightarrow> 'c patterns option \<Rightarrow> 'c patterns" where
  "add_pattern domain cs g =
     (let m = (case g of Some m \<Rightarrow> m | None \<Rightarrow> Map.empty) in
      case ValidAndSplitDomain domain of
        None \<Rightarrow> m
      | Some parts \<Rightarrow> (\<lambda>pat. if pat \<in> stored parts then Some cs else m pat))"

definition orelse :: "'a list \<Rightarrow> 'a list \<Rightarrow> 'a list" where
  "orelse xs ys = (if xs = [] then ys else xs)"

fun policy_ref :: "(policy_config \<times> 'c client list) list \<Rightarrow> 'c patterns option \<Rightarrow> string \<Rightarrow> 'c client list" where
  "policy_ref [] g domain = group_answer g domain"
| "policy_ref ((p, cs) # rest) g domain =
     (case po_Matcher p of
        None \<Rightarrow> policy_ref rest (Some (add_pattern (po_Domain p) cs g)) domain
      | Some matcher \<Rightarrow>
          orelse (group_answer g domain) (orelse (if matcher domain then cs else []) (policy_ref rest None domain)))"

lemma orelse_simps [simp]: "orelse [] ys = ys" "orelse xs [] = xs" "orelse (orelse xs ys) zs = orelse xs (orelse ys zs)"
  by (simp_all add: orelse_def)

lemma entries_Insert:
  "case ValidAndSplitDomain domain of
      None \<Rightarrow> Insert t domain d = Inl ErrInvalidDomain
    | Some parts \<Rightarrow> \<exists>t'. Insert t domain d = Inr t' \<and> entries t' = (\<lambda>pat. if pat \<in> stored parts then Some d else entries t pat)"
  by (auto simp: Insert_def stored_def entries_trie_insert fun_eq_iff split: option.splits)

lemma policy_loop_append: "policy_loop (ps @ qs) d = orelse (policy_loop ps d) (policy_loop qs d)"
  by (induction ps) (simp_all add: orelse_def Let_def)

lemma group_trie: "node_ok t \<Longrightarrow> policy_loop [TriePolicy (optimize t)] d = group_answer (Some (entries t)) d"
proof -
  assume "node_ok t"
  then have "entries (optimize t) = entries t" by (simp add: entries_optimize fun_eq_iff)
  then show ?thesis
    by (cases "ValidAndSplitDomain d") (simp_all add: group_answer_def node_data_Search Let_def split: option.splits)
qed

lemma insertPolicy_loop:
  assumes "\<forall>t. triePolicy = Some t \<longrightarrow> node_ok t"
  shows "policy_loop (insertPolicy p triePolicy ps) d =
    orelse (policy_loop ps d) (orelse (group_answer (map_option entries triePolicy) d)
      (case p of None \<Rightarrow> [] | Some x \<Rightarrow> policy_loop [x] d))"
proof -
  define a where "a = (case triePolicy of Some t \<Rightarrow> [TriePolicy (optimize t)] | None \<Rightarrow> [])"
  define b where "b = (case p of Some x \<Rightarrow> [x] | None \<Rightarrow> [])"
  have "insertPolicy p triePolicy ps = ps @ a @ b"
    by (simp add: insertPolicy_def a_def b_def split: option.split)
  moreover have "policy_loop a d = group_answer (map_option entries triePolicy) d"
    using assms group_trie[of "the triePolicy" d] by (cases triePolicy) (auto simp: a_def group_answer_def simp del: policy_loop.simps(2))
  moreover have "policy_loop b d = (case p of None \<Rightarrow> [] | Some x \<Rightarrow> policy_loop [x] d)"
    by (cases p) (simp_all add: b_def)
  ultimately show ?thesis by (simp only: policy_loop_append)
qed

lemma pattern_step:
  fixes triePolicy :: "'c client list node option" and domain :: string and cs :: "'c client list"
  assumes "\<forall>t. triePolicy = Some t \<longrightarrow> node_ok t"
  defines "t \<equiv> (case triePolicy of Some t \<Rightarrow> t | None \<Rightarrow> newNode)"
  defines "t1 \<equiv> (case Insert t domain cs of Inr t1 \<Rightarrow> t1 | Inl _ \<Rightarrow> t)"
  shows "node_ok t1 \<and> entries t1 = add_pattern domain cs (map_option entries triePolicy)"
proof -
  have t: "node_ok t" "entries t = (case map_option entries triePolicy of Some m \<Rightarrow> m | None \<Rightarrow> Map.empty)"
    using assms(1) by (auto simp: t_def split: option.splits)
  show ?thesis
  proof (cases "ValidAndSplitDomain domain")
    case None
    then show ?thesis using t entries_Insert[where domain = domain and t = t and d = cs] by (simp add: t1_def add_pattern_def)
  next
    case (Some parts)
    then obtain t' where t': "Insert t domain cs = Inr t'" "entries t' = (\<lambda>pat. if pat \<in> stored parts then Some cs else entries t pat)"
      using entries_Insert[where domain = domain and t = t and d = cs] by auto
    have "t1 = t'" by (simp add: t1_def t'(1))
    moreover have "entries t' = add_pattern domain cs (map_option entries triePolicy)"
      unfolding t'(2) t(2) by (cases triePolicy) (simp_all add: add_pattern_def Some Let_def fun_eq_iff)
    ultimately show ?thesis using Insert_ok[OF t(1) t'(1)] by simp
  qed
qed

text \<open>
  The client that stands for a name server: the one made for the first server of the configuration
  that is equal to it, in the order in which \<open>NewResolver\<close> goes through the lists.
\<close>

definition all_servers :: "dns_config \<Rightarrow> name_server list" where
  "all_servers config =
     dc_Main config @ dc_ProxyServer config @ dc_DirectServer config @ dc_Fallback config @
     concat (map po_NameServers (dc_Policy config))"

definition client_for :: "(name_server \<Rightarrow> 'c) \<Rightarrow> name_server list \<Rightarrow> name_server \<Rightarrow> 'c client" where
  "client_for mk servers ns = the (transform_one mk (the (find (\<lambda>s. ns_Equal s ns) servers)))"

text \<open>The table of clients after the servers \<open>seen\<close>: one entry for each of them, up to equality.\<close>

definition table_ok :: "(name_server \<Rightarrow> 'c) \<Rightarrow> name_server list \<Rightarrow> 'c client_table \<Rightarrow> bool" where
  "table_ok mk seen tab \<longleftrightarrow>
     (\<forall>ns. find (\<lambda>e. ns_Equal (fst e) ns) tab =
       map_option (\<lambda>s. (s, the (transform_one mk s))) (find (\<lambda>s. ns_Equal s ns) seen))"

lemma find_append: "find P (xs @ ys) = (case find P xs of None \<Rightarrow> find P ys | Some x \<Rightarrow> Some x)"
  by (induction xs) auto

lemma ns_Equal_refl [simp]: "ns_Equal s s"
  by (simp add: ns_Equal_def)

lemma ns_Equal_trans: "ns_Equal s ns \<Longrightarrow> ns_Equal s x = ns_Equal ns x"
  by (auto simp: ns_Equal_def)

lemma client_for_append:
  "find (\<lambda>s. ns_Equal s ns) seen \<noteq> None \<Longrightarrow> client_for mk (seen @ servers) ns = client_for mk seen ns"
  by (auto simp: client_for_def find_append)

lemma find_seen: "ns \<in> set seen \<Longrightarrow> find (\<lambda>s. ns_Equal s ns) seen \<noteq> None"
  by (auto simp: find_None_iff)

lemma clients_append:
  "set servers \<subseteq> set seen \<Longrightarrow> map (client_for mk (seen @ later)) servers = map (client_for mk seen) servers"
  by (intro map_cong refl client_for_append find_seen) blast

lemma find_Some_sat: "find P xs = Some x \<Longrightarrow> x \<in> set xs \<and> P x"
  by (auto simp: find_Some_iff)

lemma table_ok_known:
  assumes "table_ok mk seen tab" and "find (\<lambda>s. ns_Equal s ns) seen = Some s"
  shows "table_ok mk (seen @ [ns]) tab"
proof -
  have s: "s \<in> set seen" "ns_Equal s ns" using find_Some_sat[OF assms(2)] by simp_all
  have "find (\<lambda>s. ns_Equal s x) (seen @ [ns]) = find (\<lambda>s. ns_Equal s x) seen" for x
  proof (cases "find (\<lambda>s. ns_Equal s x) seen")
    case None
    then have "\<not> ns_Equal s x" using s(1) by (auto simp: find_None_iff)
    then show ?thesis using None ns_Equal_trans[OF s(2)] by (simp add: find_append)
  qed (simp add: find_append)
  with assms(1) show ?thesis by (simp add: table_ok_def)
qed

lemma table_ok_new:
  assumes "table_ok mk seen tab" and "transform_one mk ns = Some c"
  shows "table_ok mk (seen @ [ns]) (tab @ [(ns, c)])"
  using assms by (auto simp: table_ok_def find_append split: option.splits)

lemma cacheTransform_clients:
  assumes "cacheTransform mk servers tab = Some (cs, tab')" and "table_ok mk seen tab"
  shows "cs = map (client_for mk (seen @ servers)) servers \<and> table_ok mk (seen @ servers) tab'"
  using assms
proof (induction servers arbitrary: seen tab cs)
  case (Cons ns servers)
  note T = Cons.prems(2)[unfolded table_ok_def, rule_format, of ns]
  have client: "client_for mk (seen @ ns # servers) ns = client_for mk (seen @ [ns]) ns"
    using client_for_append[of ns "seen @ [ns]" mk servers] find_seen[of ns "seen @ [ns]"] by simp
  show ?case
  proof (cases "find (\<lambda>s. ns_Equal s ns) seen")
    case None
    then obtain c cs1 where "transform_one mk ns = Some c" "cs = c # cs1"
      "cacheTransform mk servers (tab @ [(ns, c)]) = Some (cs1, tab')"
      using Cons.prems(1) T by (auto split: option.splits)
    then show ?thesis
      using Cons.IH[OF _ table_ok_new[OF Cons.prems(2)]] client None by (auto simp: client_for_def find_append)
  next
    case (Some s)
    then obtain cs1 where "cs = the (transform_one mk s) # cs1" "cacheTransform mk servers tab = Some (cs1, tab')"
      using Cons.prems(1) T by auto
    then show ?thesis
      using Cons.IH[OF _ table_ok_known[OF Cons.prems(2) Some]] client Some by (auto simp: client_for_def find_append)
  qed
qed simp

lemma optional_resolver_clients:
  assumes "optional_resolver mk config servers tab = Some (r, tab')" and "table_ok mk seen tab"
  shows "r = (if servers = [] then None else Some (plain_resolver config (map (client_for mk (seen @ servers)) servers))) \<and>
    table_ok mk (seen @ servers) tab'"
  using assms cacheTransform_clients[of mk servers tab _ _ seen] by (auto simp: optional_resolver_def split: if_splits)

lemma policies_loop_ref:
  assumes "policies_loop mk policies triePolicy ps tab = Some (out, tab')" and "\<forall>t. triePolicy = Some t \<longrightarrow> node_ok t"
    and "table_ok mk seen tab"
  shows "policy_loop out d = orelse (policy_loop ps d)
    (policy_ref (map (\<lambda>p. (p, map (client_for mk (seen @ concat (map po_NameServers policies))) (po_NameServers p))) policies)
      (map_option entries triePolicy) d)"
  using assms
proof (induction policies arbitrary: triePolicy ps tab seen)
  case Nil
  then show ?case using insertPolicy_loop[OF Nil.prems(2), of None ps] by auto
next
  case (Cons p rest)
  then obtain cs tab1 where c: "cacheTransform mk (po_NameServers p) tab = Some (cs, tab1)"
    by (auto split: option.splits)
  note C = cacheTransform_clients[OF c Cons.prems(3)]
  have cs: "map (client_for mk (seen @ po_NameServers p @ concat (map po_NameServers rest))) (po_NameServers p) = cs"
    using C clients_append[of "po_NameServers p" "seen @ po_NameServers p" mk] by simp
  show ?case
  proof (cases "po_Matcher p")
    case None
    define t1 where "t1 = (let t = (case triePolicy of Some t \<Rightarrow> t | None \<Rightarrow> newNode) in
      case Insert t (po_Domain p) cs of Inr t1 \<Rightarrow> t1 | Inl _ \<Rightarrow> t)"
    note S = pattern_step[OF Cons.prems(2), of "po_Domain p" cs, folded t1_def[unfolded Let_def]]
    have "policies_loop mk rest (Some t1) ps tab1 = Some (out, tab')"
      using Cons.prems(1) c None by (simp add: t1_def Let_def)
    from Cons.IH[OF this _ conjunct2[OF C]] S None cs show ?thesis by simp
  next
    case (Some matcher)
    have "policies_loop mk rest None (insertPolicy (Some (MatcherPolicy matcher cs)) triePolicy ps) tab1 = Some (out, tab')"
      using Cons.prems(1) c Some by simp
    from Cons.IH[OF this _ conjunct2[OF C]] show ?thesis
      using insertPolicy_loop[OF Cons.prems(2), of "Some (MatcherPolicy matcher cs)" ps] Some cs by (simp add: orelse_def)
  qed
qed

lemma table_ok_Nil: "table_ok mk [] []"
  by (simp add: table_ok_def)

text \<open>\<open>NewResolver\<close> step by step, with the servers seen before the policies.\<close>

lemma NewResolver_policies:
  assumes "NewResolver mk config = Some rv"
  obtains tab tab' where
    "table_ok mk (dc_Main config @ dc_ProxyServer config @ dc_DirectServer config @ dc_Fallback config) tab"
    "(if dc_Policy config = [] then Some ([], tab) else policies_loop mk (dc_Policy config) None [] tab) =
      Some (re_policy (rv_Resolver rv), tab')"
    "map_option re_policy (rv_DirectResolver rv) =
      (if dc_DirectServer config = [] then None
       else Some (if dc_DirectFollowPolicy config then re_policy (rv_Resolver rv) else []))"
proof -
  obtain main tab1 where 1: "cacheTransform mk (dc_Main config) [] = Some (main, tab1)"
    using assms by (cases "cacheTransform mk (dc_Main config) []") (auto simp: NewResolver_def)
  obtain proxy tab2 where 2: "optional_resolver mk config (dc_ProxyServer config) tab1 = Some (proxy, tab2)"
    using assms by (cases "optional_resolver mk config (dc_ProxyServer config) tab1") (auto simp: NewResolver_def 1)
  obtain direct tab3 where 3: "optional_resolver mk config (dc_DirectServer config) tab2 = Some (direct, tab3)"
    using assms by (cases "optional_resolver mk config (dc_DirectServer config) tab2") (auto simp: NewResolver_def 1 2)
  let ?fb = "if length (dc_Fallback config) \<noteq> 0 then cacheTransform mk (dc_Fallback config) tab3 else Some ([], tab3)"
  obtain fallback tab4 where 4: "?fb = Some (fallback, tab4)"
    using assms by (cases ?fb) (auto simp: NewResolver_def 1 2 3)
  let ?po = "if length (dc_Policy config) \<noteq> 0 then policies_loop mk (dc_Policy config) None [] tab4 else Some ([], tab4)"
  obtain policies tab5 where 5: "?po = Some (policies, tab5)"
    using assms by (cases ?po) (auto simp: NewResolver_def 1 2 3 4[simplified])
  have rv: "re_policy (rv_Resolver rv) = policies"
      "rv_DirectResolver rv = (if dc_DirectFollowPolicy config then map_option (\<lambda>d. d\<lparr>re_policy := policies\<rparr>) direct else direct)"
    using assms by (auto simp: NewResolver_def Let_def 1 2 3 4[simplified] 5[simplified])
  have t1: "table_ok mk (dc_Main config) tab1" using cacheTransform_clients[OF 1 table_ok_Nil] by simp
  note T2 = optional_resolver_clients[OF 2 t1]
  note T3 = optional_resolver_clients[OF 3 conjunct2[OF T2]]
  have "table_ok mk (dc_Main config @ dc_ProxyServer config @ dc_DirectServer config @ dc_Fallback config) tab4"
    using 4 T3 cacheTransform_clients[OF _ conjunct2[OF T3], of "dc_Fallback config" fallback tab4] by (simp split: if_splits)
  moreover have "(if dc_Policy config = [] then Some ([], tab4) else policies_loop mk (dc_Policy config) None [] tab4) =
      Some (re_policy (rv_Resolver rv), tab5)"
    using 5 rv(1) by (simp split: if_splits)
  moreover have "map_option re_policy (rv_DirectResolver rv) =
      (if dc_DirectServer config = [] then None
       else Some (if dc_DirectFollowPolicy config then re_policy (rv_Resolver rv) else []))"
    using rv T3 by (simp add: plain_resolver_def)
  ultimately show ?thesis by (rule that)
qed

text \<open>
  C4: the resolver that \<open>NewResolver\<close> builds asks the policies in the order of the configuration: each run of
  neighbouring domain patterns as one group in which the preferred pattern decides, each matcher alone,
  until one of them has clients. The clients of a policy are those of its own name servers, in their order, equal
  servers of the whole configuration sharing one client; the resolver for direct connections has the same
  policies when it is told to follow them and none otherwise.
\<close>

theorem policies_in_order:
  assumes "NewResolver mk config = Some rv"
  shows "policy_loop (re_policy (rv_Resolver rv)) d =
      policy_ref (map (\<lambda>p. (p, map (client_for mk (all_servers config)) (po_NameServers p))) (dc_Policy config)) None d \<and>
    map_option re_policy (rv_DirectResolver rv) =
      (if dc_DirectServer config = [] then None
       else Some (if dc_DirectFollowPolicy config then re_policy (rv_Resolver rv) else []))"
proof -
  obtain tab tab' where T: "table_ok mk (dc_Main config @ dc_ProxyServer config @ dc_DirectServer config @ dc_Fallback config) tab"
    "(if dc_Policy config = [] then Some ([], tab) else policies_loop mk (dc_Policy config) None [] tab) =
      Some (re_policy (rv_Resolver rv), tab')"
    "map_option re_policy (rv_DirectResolver rv) =
      (if dc_DirectServer config = [] then None
       else Some (if dc_DirectFollowPolicy config then re_policy (rv_Resolver rv) else []))"
    by (rule NewResolver_policies[OF assms])
  show ?thesis
  proof (cases "dc_Policy config = []")
    case True
    then show ?thesis using T(2,3) by (simp add: group_answer_def)
  next
    case False
    then show ?thesis
      using T policies_loop_ref[OF _ _ T(1), of "dc_Policy config" None "[]" "re_policy (rv_Resolver rv)" tab' d]
      by (simp add: all_servers_def)
  qed
qed

definition demo_ns :: "string \<Rightarrow> name_server" where
  "demo_ns addr = \<lparr>ns_Net = '''', ns_Addr = addr, ns_ProxyAdapter = None, ns_ProxyName = '''', ns_Params = [], ns_PreferH3 = False\<rparr>"

definition demo_config :: dns_config where
  "demo_config = \<lparr>dc_Main = [demo_ns ''8.8.8.8''], dc_Fallback = [], dc_Default = [], dc_ProxyServer = [], dc_DirectServer = [],
     dc_DirectFollowPolicy = False, dc_IPv6 = False, dc_IPv6Timeout = 0, dc_FallbackIPFilter = [], dc_FallbackDomainFilter = [],
     dc_Policy = [\<lparr>po_Domain = ''+.a.com'', po_Matcher = None, po_NameServers = [demo_ns ''1.1.1.1'']\<rparr>]\<rparr>"

theorem policies_in_order_witness:
  "\<exists>rv. NewResolver ns_Addr demo_config = Some rv \<and>
     policy_loop (re_policy (rv_Resolver rv)) ''b.a.com'' = [NetClient ''1.1.1.1''] \<and>
     policy_loop (re_policy (rv_Resolver rv)) ''b.org'' = [] \<and> rv_DirectResolver rv = None"
proof -
  have "NewResolver ns_Addr demo_config \<noteq> None" by code_simp
  then obtain rv where rv: "NewResolver ns_Addr demo_config = Some rv" by blast
  let ?ps = "map (\<lambda>p. (p, map (client_for ns_Addr (all_servers demo_config)) (po_NameServers p))) (dc_Policy demo_config)"
  have "policy_ref ?ps None ''b.a.com'' = [NetClient ''1.1.1.1'']" "policy_ref ?ps None ''b.org'' = []"
    by code_simp+
  then show ?thesis using policies_in_order[OF rv, of "''b.a.com''"] policies_in_order[OF rv, of "''b.org''"] rv
    by (auto simp: demo_config_def)
qed

section \<open>Two OPT records\<close>

text \<open>
  A message whose OPT record is not the last of its additional records gets a second OPT record when the
  client subnet is set, since the failed type assertion on the later record forgets the one found.
\<close>

theorem edns_two_OPT:
  assumes "m_Extra m = [opt, rr]" and "rr_Data opt = ROPT []" and "\<forall>os. rr_Data rr \<noteq> ROPT os"
  shows "\<exists>os. map rr_Data (m_Extra (snd (setEdns0Subnet m p override))) = [ROPT [], rr_Data rr, ROPT os]"
  using assms by (cases "rr_Data rr") (auto simp: setEdns0Subnet_def new_opt_def)

theorem edns_two_OPT_witness:
  "length (m_Extra (snd (setEdns0Subnet (empty_msg\<lparr>m_Extra := [new_opt, demo_rr 5]\<rparr>) (Prefix (V4 0x01020300) 24) False))) = 3"
proof -
  have "m_Extra (empty_msg\<lparr>m_Extra := [new_opt, demo_rr 5]\<rparr>) = [new_opt, demo_rr 5]" "rr_Data new_opt = ROPT []"
    "\<forall>os. rr_Data (demo_rr 5) \<noteq> ROPT os" by (simp_all add: new_opt_def demo_rr_def)
  from edns_two_OPT[OF this, of "Prefix (V4 0x01020300) 24" False]
  have "\<exists>os. length (map rr_Data (m_Extra (snd (setEdns0Subnet (empty_msg\<lparr>m_Extra := [new_opt, demo_rr 5]\<rparr>)
      (Prefix (V4 0x01020300) 24) False)))) = length [ROPT [], rr_Data (demo_rr 5), ROPT os]" by (elim ex_forward arg_cong)
  then show ?thesis by simp
qed

text \<open>
  When the lookup for IPv4 has failed and the timer for IPv6 fires first, \<open>LookupIP\<close> succeeds with no address.
\<close>

theorem lookup_empty_success: "join_LookupIP (Inl e) None = Inr []"
  by (simp add: join_LookupIP_def)

end
