(* ===== verification/DnsHandlerProps.thy ===== *)
theory DnsHandlerProps imports DnsHandler DnsPolicy FakePool Tunnel begin

text \<open>
  What is proved of the DNS server: a fake address it hands out leads the tunnel back to the host name, and the
  places where hosts entries, lifetimes and the second pool are not treated as they are meant to be.
\<close>

section \<open>From the answer to the connection\<close>

text \<open>The enhancer as the tunnel sees it.\<close>

definition as_enhancer ::
  "('l, 'h) list_ops \<Rightarrow> 's store_ops \<Rightarrow> int \<Rightarrow> ('l, 'h, 's) resolver_enhancer \<Rightarrow> enhancer"
where
  "as_enhancer dl so now e =
     \<lparr>en_FakeIPEnabled = enh_FakeIPEnabled e, en_MappingEnabled = enh_MappingEnabled e, en_IsFakeIP = enh_IsFakeIP e,
      en_IsFakeBroadcastIP = enh_IsFakeBroadcastIP e, en_IsExistFakeIP = enh_IsExistFakeIP so e,
      en_FindHostByIP = (\<lambda>ip. fst (enh_FindHostByIP dl so now ip e))\<rparr>"

lemma FindHost_pool:
  "eh_fakeIPPool e = Some p \<Longrightarrow> fst (pool_LookBack so ip p) = Some host \<Longrightarrow>
   fst (enh_FindHostByIP dl so now ip e) = Some host"
  by (cases "pool_LookBack so ip p") (simp add: enh_FindHostByIP_def)

lemma newHandler_fakeip:
  assumes "eh_mode mapper = DNSFakeIP" and "m_Question r = q # qs" and "qu_Qtype q = TypeA"
    and "eh_useHosts mapper \<longrightarrow> search (TrimRight (qu_Name q) ''.'') False = Some (None, False)"
    and "\<not> ShouldSkipped (eh_fakeIPSkipper (st_enh s)) (TrimRight (qu_Name q) ''.'')"
    and "eh_fakeIPPool (st_enh s) = Some p" and "pool_Lookup so (TrimRight (qu_Name q) ''.'') p = (ip, p')"
  shows "newHandler lib dl so search six ex mapper r s =
    (Inr (fake_answer lib r (a_record q TypeA dnsDefaultTTL (RA (AsSlice ip)))),
     s\<lparr>st_enh := (st_enh s)\<lparr>eh_fakeIPPool := Some p'\<rparr>, st_type := ''fakeip''\<rparr>)"
proof -
  have F: "withFakeIP lib so next r s = (Inr (fake_answer lib r (a_record q TypeA dnsDefaultTTL (RA (AsSlice ip)))),
     s\<lparr>st_enh := (st_enh s)\<lparr>eh_fakeIPPool := Some p'\<rparr>, st_type := ''fakeip''\<rparr>)" for "next"
    using assms(2,3,5-7) by (simp add: withFakeIP_def)
  show ?thesis
  proof (cases "eh_useHosts mapper")
    case True
    then have "withHosts lib dl search next r s = next r s" for "next" :: "('a, 'b, 'c, 'd) dns_handler"
      using assms(2-4) by (simp add: withHosts_def)
    then show ?thesis using True assms(1) F by (simp add: newHandler_def compose_def)
  next
    case False
    then show ?thesis using assms(1) F by (simp add: newHandler_def compose_def)
  qed
qed

context linked_list
begin

lemma fake_ip_back:
  assumes lib: "dns_library lib" and law: "last_ip_law PrefixLastIP"
    and new: "pool_New PrefixLastIP (memory_ops dl) False net (newMemoryStore dl n) = Some p0"
    and r: "pool_reachable (memory_ops dl) (\<lambda>_. True) (\<lambda>_. True) p0 p"
    and m: "eh_mode (st_enh s) = DNSFakeIP" "eh_fakeIPPool (st_enh s) = Some p"
    and q: "m_Question req = q # qs" "qu_Qtype q = TypeA"
    and sk: "\<not> ShouldSkipped (eh_fakeIPSkipper (st_enh s)) (TrimRight (qu_Name q) ''.'')"
    and hosts: "eh_useHosts (st_enh s) \<longrightarrow> search (TrimRight (qu_Name q) ''.'') False = Some (None, False)"
  shows "\<exists>ip a s'. newHandler lib dl (memory_ops dl) search six ex (st_enh s) req s = (Inr a, s') \<and>
    m_Rcode a = RcodeSuccess \<and> map rr_Data (m_Answer a) = [RA (AsSlice ip)] \<and> map rr_Ttl (m_Answer a) = [1] \<and>
    pfx_Contains net ip \<and>
    (\<forall>t md now. t_mapper t = Some (as_enhancer dl (memory_ops dl) now (st_enh s')) \<longrightarrow> md_Host md = '''' \<longrightarrow> md_DstIP md = ip \<longrightarrow>
       preHandleMetadata t md = Some (None, md\<lparr>md_Host := ToLower (TrimRight (qu_Name q) ''.''), md_DstIP := NoAddr,
         md_DNSMode := DNSFakeIP\<rparr>))"
proof -
  let ?host = "TrimRight (qu_Name q) ''.''"
  obtain ip p' where l: "pool_Lookup (memory_ops dl) ?host p = (ip, p')" by fastforce
  note P = memory_pool_spec[OF law new r l]
  let ?rr = "a_record q TypeA dnsDefaultTTL (RA (AsSlice ip))"
  let ?s = "s\<lparr>st_enh := (st_enh s)\<lparr>eh_fakeIPPool := Some p'\<rparr>, st_type := ''fakeip''\<rparr>"
  have h: "newHandler lib dl (memory_ops dl) search six ex (st_enh s) req s = (Inr (fake_answer lib req ?rr), ?s)"
    by (rule newHandler_fakeip[where search = search, OF m(1) q hosts sk m(2) l])
  note S = dns_library.SetRcode[OF lib refl]
  have a: "m_Rcode (fake_answer lib req ?rr) = RcodeSuccess" "map rr_Data (m_Answer (fake_answer lib req ?rr)) = [RA (AsSlice ip)]"
    "map rr_Ttl (m_Answer (fake_answer lib req ?rr)) = [1]"
    using S by (simp_all add: fake_answer_def setMsgTTL_def a_record_def)
  have "ip \<noteq> NoAddr" using P pfx_Contains_BitLen[of net ip] by auto
  then have "IsValid ip" by (simp add: IsValid_def)
  moreover have "fst (enh_FindHostByIP dl (memory_ops dl) now ip (st_enh ?s)) = Some (ToLower ?host)" for now
    using P by (intro FindHost_pool[of _ p']) auto
  ultimately have "preHandleMetadata t md = Some (None, md\<lparr>md_Host := ToLower ?host, md_DstIP := NoAddr, md_DNSMode := DNSFakeIP\<rparr>)"
    if "t_mapper t = Some (as_enhancer dl (memory_ops dl) now (st_enh ?s))" "md_Host md = ''''" "md_DstIP md = ip" for t md now
    using that m(1)
    by (simp add: preHandleMetadata_def needLookupIP_def MappingEnabled_def FindHostByIP_def FakeIPEnabled_def
        as_enhancer_def enh_FakeIPEnabled_def enh_MappingEnabled_def)
  then have "\<forall>t md now. t_mapper t = Some (as_enhancer dl (memory_ops dl) now (st_enh ?s)) \<longrightarrow> md_Host md = '''' \<longrightarrow>
      md_DstIP md = ip \<longrightarrow> preHandleMetadata t md = Some (None, md\<lparr>md_Host := ToLower ?host, md_DstIP := NoAddr,
        md_DNSMode := DNSFakeIP\<rparr>)" by blast
  moreover have "pfx_Contains net ip" using P by blast
  ultimately show ?thesis
    using h a by (intro exI[of _ ip] exI[of _ "fake_answer lib req ?rr"] exI[of _ ?s]) (simp only: simp_thms)
qed

end

text \<open>
  C1: in fake-ip mode a question for the IPv4 address of a host that is neither in the hosts table nor skipped is
  answered with one address of the pool and the lifetime one; and a connection that later arrives for this
  address leaves the tunnel's preprocessing with the (lower case) host name in place of the address.
\<close>

theorem fake_ip_leads_back_to_host:
  assumes "linked_list dl items" and "dns_library lib" and "last_ip_law PrefixLastIP"
    and "pool_New PrefixLastIP (memory_ops dl) False net (newMemoryStore dl n) = Some p0"
    and "pool_reachable (memory_ops dl) (\<lambda>_. True) (\<lambda>_. True) p0 p"
    and "eh_mode (st_enh s) = DNSFakeIP" and "eh_fakeIPPool (st_enh s) = Some p"
    and "m_Question req = q # qs" and "qu_Qtype q = TypeA"
    and "\<not> ShouldSkipped (eh_fakeIPSkipper (st_enh s)) (TrimRight (qu_Name q) ''.'')"
    and "eh_useHosts (st_enh s) \<longrightarrow> search (TrimRight (qu_Name q) ''.'') False = Some (None, False)"
  shows "\<exists>ip a s'. newHandler lib dl (memory_ops dl) search six ex (st_enh s) req s = (Inr a, s') \<and>
    m_Rcode a = RcodeSuccess \<and> map rr_Data (m_Answer a) = [RA (AsSlice ip)] \<and> map rr_Ttl (m_Answer a) = [1] \<and>
    pfx_Contains net ip \<and>
    (\<forall>t md now. t_mapper t = Some (as_enhancer dl (memory_ops dl) now (st_enh s')) \<longrightarrow> md_Host md = '''' \<longrightarrow> md_DstIP md = ip \<longrightarrow>
       preHandleMetadata t md = Some (None, md\<lparr>md_Host := ToLower (TrimRight (qu_Name q) ''.''), md_DstIP := NoAddr,
         md_DNSMode := DNSFakeIP\<rparr>))"
  using linked_list.fake_ip_back[where search = search, OF assms] .

definition demo_enh :: "((nat \<times> nat) list, nat, 's) resolver_enhancer \<Rightarrow> (((nat \<times> nat) list, nat, 's, unit) dns_state)" where
  "demo_enh e = \<lparr>st_enh = e, st_type = '''', st_res = (), st_clock = (\<lambda>_. 0), st_ticks = 0\<rparr>"

theorem fake_ip_leads_back_to_host_witness:
  "\<exists>p0 a s'. newHandler demo_lib hlist_ops (memory_ops hlist_ops) (\<lambda>_ _. None) False (\<lambda>m s. (Inl ContextDone, s))
      (NewEnhancer hlist_ops False DNSFakeIP (Some p0) None no_skipper False) demo_query
      (demo_enh (NewEnhancer hlist_ops False DNSFakeIP (Some p0) None no_skipper False)) = (Inr a, s') \<and>
    map rr_Ttl (m_Answer a) = [1]"
proof -
  obtain p0 where p0: "pool_New arith_last (memory_ops hlist_ops) False demo_net (newMemoryStore hlist_ops 1000) = Some p0"
    using demo_pool(1) by blast
  define s where "s = demo_enh (NewEnhancer hlist_ops False DNSFakeIP (Some p0) None no_skipper False)"
  have e: "st_enh s = NewEnhancer hlist_ops False DNSFakeIP (Some p0) None no_skipper False"
    "eh_mode (st_enh s) = DNSFakeIP" "eh_fakeIPPool (st_enh s) = Some p0" "\<not> eh_useHosts (st_enh s)"
    "\<not> ShouldSkipped (eh_fakeIPSkipper (st_enh s)) h" for h
    by (simp_all add: s_def demo_enh_def NewEnhancer_def ShouldSkipped_def shouldSkipped_def no_skipper_def)
  have q: "m_Question demo_query = \<lparr>qu_Name = ''a.com.'', qu_Qtype = TypeA, qu_Qclass = ClassINET\<rparr> # []"
    by (simp add: demo_query_def)
  have hosts: "eh_useHosts (st_enh s) \<longrightarrow> (None :: (host_value option \<times> bool) option) = Some (None, False)" using e(4) by simp
  have "qu_Qtype \<lparr>qu_Name = ''a.com.'', qu_Qtype = TypeA, qu_Qclass = ClassINET\<rparr> = TypeA" by simp
  from fake_ip_leads_back_to_host[where search = "\<lambda>_ _. None", OF hl.linked_list_axioms demo.dns_library_axioms arith_last_law p0 pool_reachable.start
      e(2,3) q this e(5) hosts, where six = False and ex = "\<lambda>m s. (Inl ContextDone, s)"]
  have "\<exists>a s'. newHandler demo_lib hlist_ops (memory_ops hlist_ops) (\<lambda>_ _. None) False (\<lambda>m s. (Inl ContextDone, s))
      (st_enh s) demo_query s = (Inr a, s') \<and> map rr_Ttl (m_Answer a) = [1]"
    by (elim exE conjE) (intro exI conjI; assumption)
  from this[unfolded e(1), unfolded s_def] show ?thesis by (rule exI)
qed

section \<open>Hosts entries\<close>

text \<open>
  A CNAME question for a host that is an alias in the hosts table is answered, successfully, without the
  alias: the record is added to the request after the answer was copied from it.
\<close>

theorem hosts_cname_lost:
  assumes "dns_library lib" and "m_Question r = q # qs" and "qu_Qclass q = ClassINET" and "qu_Qtype q = TypeCNAME"
    and "search (TrimRight (qu_Name q) ''.'') True = Some (Some hv, True)" and "m_Answer r = []"
  shows "\<exists>a s'. withHosts lib dl search next r s = (Inr a, s') \<and> m_Rcode a = RcodeSuccess \<and> m_Answer a = []"
proof -
  have "isIPRequest q" "qu_Qtype q \<noteq> TypeA" "qu_Qtype q \<noteq> TypeAAAA"
    using assms(3,4) by (simp_all add: isIPRequest_def dns_types)
  then show ?thesis
    using assms dns_library.SetRcode[OF assms(1) refl, of r r RcodeSuccess]
    by (simp add: withHosts_def Let_def)
qed

text \<open>
  An AAAA question for a host with an IPv4 address in the hosts table is answered with an AAAA record whose
  data is the four bytes of that address.
\<close>

theorem hosts_aaaa_four_bytes:
  assumes "dns_library lib" and "m_Question r = q # qs" and "qu_Qclass q = ClassINET" and "qu_Qtype q = TypeAAAA"
    and "search (TrimRight (qu_Name q) ''.'') False = Some (Some hv, True)" and "hv_IPs hv = [V4 w]" and "m_Answer r = []"
  shows "\<exists>a s'. withHosts lib dl search next r s = (Inr a, s') \<and> map rr_Data (m_Answer a) = [RAAAA (put_be w)]
    \<and> map rr_Rrtype (m_Answer a) = [TypeAAAA]"
proof -
  have q: "isIPRequest q" "TypeAAAA \<noteq> TypeA" using assms(3,4) by (simp_all add: isIPRequest_def dns_types)
  obtain m s1 where m: "handleIPs dl q (TrimRight (qu_Name q) ''.'') [V4 w] r s = (m, s1)" by fastforce
  then have "m_Answer m = [a_record q TypeAAAA 10 (RAAAA (put_be w))]"
    using q assms(4,7) by (auto simp: Let_def split: if_splits)
  then show ?thesis
    using assms q m dns_library.SetRcode[OF assms(1) refl, of m r RcodeSuccess]
    by (simp add: withHosts_def Let_def a_record_def del: handleIPs.simps)
qed

definition demo_alias :: host_value where
  "demo_alias = \<lparr>hv_IsDomain = True, hv_IPs = [], hv_Domain = ''b.com''\<rparr>"

definition demo_host :: host_value where
  "demo_host = \<lparr>hv_IsDomain = False, hv_IPs = [V4 5], hv_Domain = ''''\<rparr>"

definition demo_question :: "u16 \<Rightarrow> question" where
  "demo_question t = \<lparr>qu_Name = ''a.com.'', qu_Qtype = t, qu_Qclass = ClassINET\<rparr>"

definition demo_ask :: "u16 \<Rightarrow> msg" where
  "demo_ask t = empty_msg\<lparr>m_Question := [demo_question t]\<rparr>"

lemma demo_ask: "m_Question (demo_ask t) = [demo_question t]" "m_Answer (demo_ask t) = []"
  "qu_Qclass (demo_question t) = ClassINET" "qu_Qtype (demo_question t) = t"
  by (simp_all add: demo_ask_def demo_question_def empty_msg_def)

theorem hosts_cname_lost_witness:
  "\<exists>a s'. withHosts demo_lib hlist_ops (\<lambda>_ _. Some (Some demo_alias, True)) (\<lambda>r s. (Inl NoQuestion, s)) (demo_ask TypeCNAME)
      (demo_enh (NewEnhancer hlist_ops False DNSMapping (None :: unit pool option) None no_skipper True)) = (Inr a, s')
      \<and> m_Rcode a = RcodeSuccess \<and> m_Answer a = []"
  by (rule hosts_cname_lost[where search = "\<lambda>_ _. Some (Some demo_alias, True)" and hv = demo_alias and q = "demo_question TypeCNAME" and qs = "[]"])
     (simp_all add: demo.dns_library_axioms demo_ask)

theorem hosts_aaaa_four_bytes_witness:
  "\<exists>a s'. withHosts demo_lib hlist_ops (\<lambda>_ _. Some (Some demo_host, True)) (\<lambda>r s. (Inl NoQuestion, s)) (demo_ask TypeAAAA)
      (demo_enh (NewEnhancer hlist_ops False DNSMapping (None :: unit pool option) None no_skipper True)) = (Inr a, s') \<and>
      map rr_Data (m_Answer a) = [RAAAA (put_be (5 :: u32))] \<and> map rr_Rrtype (m_Answer a) = [TypeAAAA]"
  by (rule hosts_aaaa_four_bytes[where search = "\<lambda>_ _. Some (Some demo_host, True)" and hv = demo_host
        and q = "demo_question TypeAAAA" and qs = "[]" and w = 5])
     (simp_all add: demo.dns_library_axioms demo_ask demo_host_def)

section \<open>Two pools\<close>

text \<open>
  With a pool for each family the enhancer looks only at the IPv4 pool: no IPv6 address is ever taken for fake or for a
  broadcast address or existing, and a flush leaves the IPv6 pool as it was.
\<close>

theorem second_pool_ignored:
  assumes "eh_fakeIPPool e = Some p" and "Is4 (p_last p)" and "Is4 (pfx_addr (p_ipnet p))" and "Is6 ip"
  shows "\<not> enh_IsFakeIP e ip \<and> \<not> enh_IsFakeBroadcastIP e ip \<and>
    eh_fakeIPPool6 (snd (enh_FlushFakeIP so e)) = eh_fakeIPPool6 e"
  using assms
  by (cases ip; cases "p_ipnet p"; cases "pfx_addr (p_ipnet p)")
     (auto simp: enh_IsFakeIP_def enh_IsFakeBroadcastIP_def enh_FlushFakeIP_def split: prod.splits)

theorem second_pool_ignored_witness:
  "\<exists>p. pool_New arith_last (memory_ops hlist_ops) False demo_net (newMemoryStore hlist_ops 1000) = Some p \<and>
     \<not> enh_IsFakeIP (NewEnhancer hlist_ops True DNSFakeIP (Some p) (Some (p\<lparr>p_ipnet := Prefix (V6 0xfc00 []) 120\<rparr>)) no_skipper False) (V6 0xfc05 [])"
proof -
  obtain p where p: "pool_New arith_last (memory_ops hlist_ops) False demo_net (newMemoryStore hlist_ops 1000) = Some p"
    using demo_pool(1) by blast
  then have "Is4 (p_last p)" "Is4 (pfx_addr (p_ipnet p))"
    by (auto simp: pool_New_def pool_restoreState_def demo_net_def Let_def split: if_splits)
  then show ?thesis
    using p second_pool_ignored[of "NewEnhancer hlist_ops True DNSFakeIP (Some p) (Some (p\<lparr>p_ipnet := Prefix (V6 0xfc00 []) 120\<rparr>)) no_skipper False" p
      "V6 0xfc05 []"] by (auto simp: NewEnhancer_def)
qed

section \<open>Lifetimes of the mapping\<close>

text \<open>
  In redir-host mode an address that an answer gave to a host is mapped back to the host, and still is when
  the lifetime of the answer is long over: the cache of the mapping has no age, so it ignores the expiry.
\<close>

theorem mapping_outlives_ttl:
  assumes "linked_list dl items" and "eh_mapping (st_enh s) = Some c" and "dns_lru_valid items c"
    and "eh_fakeIPPool (st_enh s) = None" and "eh_fakeIPPool6 (st_enh s) = None"
  shows "fst (enh_FindHostByIP dl so now ip (st_enh (map_host dl ip host secs s))) = Some host"
proof -
  let ?t = "st_clock s (st_ticks s)"
  let ?c = "setWithExpire dl (?t div second) ip host ((?t + secs * second) div second) c"
  note S = linked_list.dns_lru_set[OF assms(1,3), where t = "?t div second" and k = ip and m = host and e = "(?t + secs * second) div second"]
  obtain r c' where g: "lru_Get dl now now ip ?c = (r, c')" by fastforce
  have "lru_inv items ?c" "lc_maxAge ?c = 0" using S(1) by (simp_all add: dns_lru_valid_def)
  then have "r = Some host"
    using linked_list.lru_Get[OF assms(1) _ g] S(2) by (simp add: abs_get_no_age del: find_key_None)
  then show ?thesis
    using assms(2,4,5) g by (simp add: enh_FindHostByIP_def map_host_def Let_def)
qed

theorem mapping_outlives_ttl_witness:
  "fst (enh_FindHostByIP hlist_ops (memory_ops hlist_ops) (10 ^ 9) (V4 5)
     (st_enh (map_host hlist_ops (V4 5) ''a.com'' 1 (demo_enh (NewEnhancer hlist_ops False DNSMapping None None no_skipper False))))) = Some ''a.com''"
proof -
  let ?s = "demo_enh (NewEnhancer hlist_ops False DNSMapping None None no_skipper False)"
  have "eh_mapping (st_enh ?s) = Some (lru_New hlist_ops 0 4096 False False False)"
    "eh_fakeIPPool (st_enh ?s) = None" "eh_fakeIPPool6 (st_enh ?s) = None"
    by (simp_all add: demo_enh_def NewEnhancer_def)
  moreover have "dns_lru_valid (\<lambda>l. l) (lru_New hlist_ops 0 4096 False False False :: ((nat \<times> nat) list, nat, addr, string) lru_cache)"
    by (simp add: dns_lru_valid_def hl.lru_New) (simp add: lru_New_def)
  ultimately show ?thesis using mapping_outlives_ttl[OF hl.linked_list_axioms] by metis
qed

end
