(* ===== verification/UdpSender.thy ===== *)
theory UdpSender imports Tunnel "HOL-Library.Multiset" "HOL-Library.Sublist" begin

text \<open>
  tunnel/connection.go and component/nat: one flow of UDP packets. The packets of a flow wait in
  a channel of bounded capacity; one goroutine takes them out and writes them to the outbound
  connection, another carries the answers back and closes the sender when the connection ends.
  The destination NAT remembers where the packets for a destination really go and which
  destination an answer seems to come from. The goroutines are the parts of a state that an
  inductive step relation interleaves; what a goroutine does between two points where others can
  see it is one step.
\<close>

section \<open>Destination NAT\<close>

record nat_mapping =
  originToTarget :: "string \<rightharpoonup> addr"
  targetToOrigin :: "addr \<rightharpoonup> addr"

definition no_mapping :: nat_mapping where
  "no_mapping = \<lparr>originToTarget = Map.empty, targetToOrigin = Map.empty\<rparr>"

text \<open>Reading a Go map of addresses: the zero address for a missing key.\<close>

definition map_addr :: "('k \<rightharpoonup> addr) \<Rightarrow> 'k \<Rightarrow> addr" where
  "map_addr m k = (case m k of None \<Rightarrow> NoAddr | Some a \<Rightarrow> a)"

definition AddMapping :: "metadata \<Rightarrow> metadata \<Rightarrow> nat_mapping \<Rightarrow> nat_mapping" where
  "AddMapping originMetadata m s =
     (let originKey = md_String originMetadata;
          originAddr = md_DstIP originMetadata;
          targetAddr = md_DstIP m;
          s1 = (if \<not> IsValid (map_addr (originToTarget s) originKey)
                then s\<lparr>originToTarget := (originToTarget s)(originKey \<mapsto> targetAddr)\<rparr> else s) in
      if \<not> IsValid (map_addr (targetToOrigin s1) targetAddr)
      then s1\<lparr>targetToOrigin := (targetToOrigin s1)(targetAddr \<mapsto> originAddr)\<rparr> else s1)"

definition RestoreReadFrom :: "addr \<Rightarrow> nat_mapping \<Rightarrow> addr" where
  "RestoreReadFrom a s =
     (let originAddr = map_addr (targetToOrigin s) a in if IsValid originAddr then originAddr else a)"

section \<open>The packet sender\<close>

record udp_packet =
  pk_md :: metadata
  pk_data :: bytes

text \<open>
  \<open>processPacket\<close>: the data and address written to the outbound connection, if any, and the
  mapping. \<open>ResolveUDP\<close> is the method of the outbound connection (None for its error). The
  whole is None when the hosts lookup of the preprocessing does not return.
\<close>

definition processPacket ::
  "tunnel \<Rightarrow> (metadata \<Rightarrow> metadata option) \<Rightarrow> udp_packet \<Rightarrow> nat_mapping \<Rightarrow>
   ((bytes \<times> addr \<times> u16) option \<times> nat_mapping) option" where
  "processPacket t ResolveUDP pkt s =
     (let originMetadata = pk_md pkt;
          targetAddr = map_addr (originToTarget s) (md_String originMetadata) in
      if IsValid targetAddr
      then Some (Some (pk_data pkt, targetAddr, md_DstPort originMetadata), s)
      else case preHandleMetadata t originMetadata of
        None \<Rightarrow> None
      | Some (_, m0) \<Rightarrow>
          let m1 = Pure m0 in
          (case (if md_Host m1 \<noteq> '''' then ResolveUDP m1 else Some m1) of
             None \<Rightarrow> Some (None, s)
           | Some m2 \<Rightarrow>
               if \<not> IsValid (md_DstIP m2) then Some (None, s)
               else Some (map_option (Pair (pk_data pkt)) (md_UDPAddr m2), AddMapping originMetadata m2 s)))"

text \<open>
  One round of \<open>handleUDPToLocal\<close>: the address an answer is given back under. \<open>from\<close> is None when
  the connection returns no UDP address; \<open>oAddrPort\<close> is the address dialled.
\<close>

definition readFrom :: "addr \<times> u16 \<Rightarrow> (addr \<times> u16) option \<Rightarrow> nat_mapping \<Rightarrow> addr \<times> u16" where
  "readFrom oAddrPort from s =
     (let fromUDPAddr = (case from of None \<Rightarrow> oAddrPort | Some a \<Rightarrow> a) in
      (Unmap (RestoreReadFrom (Unmap (fst fromUDPAddr)) s), snd fromUDPAddr))"

definition senderCapacity :: nat where
  "senderCapacity = 128"

text \<open>
  The goroutines of a flow. The one that calls \<open>Send\<close> is idle or past its check for a closed sender;
  the one that dials and then runs \<open>Process\<close> is dialling, at the select of its loop, with a packet
  in hand, or has returned; the one that closes has not begun, has cancelled the context and drops
  what is in the channel, or is done.
\<close>

datatype send_state = SendIdle | SendChecked udp_packet
datatype process_state = Dialing | AtSelect | HasPacket udp_packet | Returned
datatype close_state = Open | DroppingAll | Closed

record sender =
  us_ch :: "udp_packet list"
  us_cancelled :: bool
  us_map :: nat_mapping
  us_send :: send_state
  us_process :: process_state
  us_close :: close_state
  us_writeBack :: "udp_packet option"
  us_written :: "(bytes \<times> addr \<times> u16) list"
  us_sent :: "udp_packet list"
  us_processed :: "udp_packet list"
  us_dropped :: "udp_packet list"

text \<open>
  The last four are histories: what was written to the connection, the packets given to \<open>Send\<close>,
  those whose processing is over, and those dropped unprocessed.
\<close>

definition newPacketSender :: sender where
  "newPacketSender = \<lparr>us_ch = [], us_cancelled = False, us_map = no_mapping, us_send = SendIdle,
     us_process = Dialing, us_close = Open, us_writeBack = None, us_written = [], us_sent = [],
     us_processed = [], us_dropped = []\<rparr>"

definition drop_packet :: "udp_packet \<Rightarrow> sender \<Rightarrow> sender" where
  "drop_packet p s = s\<lparr>us_dropped := us_dropped s @ [p]\<rparr>"

text \<open>\<open>Send\<close>: the first select, and the outcomes of the second.\<close>

definition send_check :: "udp_packet \<Rightarrow> sender \<Rightarrow> sender" where
  "send_check p s0 =
     (let s = s0\<lparr>us_sent := us_sent s0 @ [p]\<rparr> in
      if us_cancelled s then drop_packet p s else s\<lparr>us_send := SendChecked p\<rparr>)"

definition send_put :: "udp_packet \<Rightarrow> sender \<Rightarrow> sender" where
  "send_put p s = s\<lparr>us_ch := us_ch s @ [p], us_send := SendIdle\<rparr>"

definition send_drop :: "udp_packet \<Rightarrow> sender \<Rightarrow> sender" where
  "send_drop p s = drop_packet p (s\<lparr>us_send := SendIdle\<rparr>)"

text \<open>
  The end of a successful dial (\<open>origin\<close> is the metadata of the first packet, \<open>m\<close> that of the dial), the
  receive of \<open>Process\<close> with \<open>UpdateWriteBack\<close>, and the packet processed.
\<close>

definition dial_done :: "metadata \<Rightarrow> metadata \<Rightarrow> udp_packet \<Rightarrow> sender \<Rightarrow> sender" where
  "dial_done origin m packet s =
     s\<lparr>us_map := AddMapping origin m (us_map s), us_writeBack := Some packet, us_process := AtSelect\<rparr>"

definition process_receive :: "udp_packet \<Rightarrow> udp_packet list \<Rightarrow> sender \<Rightarrow> sender" where
  "process_receive p ch s = s\<lparr>us_ch := ch, us_writeBack := Some p, us_process := HasPacket p\<rparr>"

definition process_done ::
  "udp_packet \<Rightarrow> (bytes \<times> addr \<times> u16) option \<Rightarrow> nat_mapping \<Rightarrow> sender \<Rightarrow> sender" where
  "process_done p w m s =
     s\<lparr>us_map := m, us_process := AtSelect,
       us_written := us_written s @ (case w of None \<Rightarrow> [] | Some x \<Rightarrow> [x]),
       us_processed := us_processed s @ [p]\<rparr>"

text \<open>
  The steps. A select with several ready cases takes any of them; its default only when none is
  ready. \<open>Close\<close> is called by the dialling goroutine when the dial failed, and otherwise by the
  one that carries the answers back, which starts with the end of the dial.
\<close>

inductive sender_step :: "tunnel \<Rightarrow> sender \<Rightarrow> sender \<Rightarrow> bool" for t where
  Send_check: "us_send s = SendIdle \<Longrightarrow> sender_step t s (send_check p s)"
| Send_put: "us_send s = SendChecked p \<Longrightarrow> length (us_ch s) < senderCapacity \<Longrightarrow>
    sender_step t s (send_put p s)"
| Send_cancelled: "us_send s = SendChecked p \<Longrightarrow> us_cancelled s \<Longrightarrow> sender_step t s (send_drop p s)"
| Send_full: "us_send s = SendChecked p \<Longrightarrow> \<not> length (us_ch s) < senderCapacity \<Longrightarrow> \<not> us_cancelled s \<Longrightarrow>
    sender_step t s (send_drop p s)"
| Dial_ok: "us_process s = Dialing \<Longrightarrow> sender_step t s (dial_done origin m packet s)"
| Dial_failed: "us_process s = Dialing \<Longrightarrow> sender_step t s (s\<lparr>us_process := Returned\<rparr>)"
| Process_cancelled: "us_process s = AtSelect \<Longrightarrow> us_cancelled s \<Longrightarrow>
    sender_step t s (s\<lparr>us_process := Returned\<rparr>)"
| Process_receive: "us_process s = AtSelect \<Longrightarrow> us_ch s = p # ch \<Longrightarrow>
    sender_step t s (process_receive p ch s)"
| Process_packet: "us_process s = HasPacket p \<Longrightarrow>
    processPacket t ResolveUDP p (us_map s) = Some (w, m) \<Longrightarrow> sender_step t s (process_done p w m s)"
| Close_cancel: "us_close s = Open \<Longrightarrow> us_process s \<noteq> Dialing \<Longrightarrow>
    sender_step t s (s\<lparr>us_cancelled := True, us_close := DroppingAll\<rparr>)"
| Drop_one: "us_close s = DroppingAll \<Longrightarrow> us_ch s = p # ch \<Longrightarrow>
    sender_step t s (drop_packet p (s\<lparr>us_ch := ch\<rparr>))"
| Drop_end: "us_close s = DroppingAll \<Longrightarrow> us_ch s = [] \<Longrightarrow> sender_step t s (s\<lparr>us_close := Closed\<rparr>)"

definition sender_run :: "tunnel \<Rightarrow> sender \<Rightarrow> sender \<Rightarrow> bool" where
  "sender_run t = (sender_step t)\<^sup>*\<^sup>*"

definition reachable_sender :: "tunnel \<Rightarrow> sender \<Rightarrow> bool" where
  "reachable_sender t s \<longleftrightarrow> sender_run t newPacketSender s"

lemmas sender_ops = send_check_def send_put_def send_drop_def drop_packet_def dial_done_def
  process_receive_def process_done_def Let_def

section \<open>Every packet is accounted for\<close>

definition process_hand :: "process_state \<Rightarrow> udp_packet list" where
  "process_hand st = (case st of HasPacket p \<Rightarrow> [p] | _ \<Rightarrow> [])"

definition send_hand :: "send_state \<Rightarrow> udp_packet list" where
  "send_hand st = (case st of SendChecked p \<Rightarrow> [p] | SendIdle \<Rightarrow> [])"

definition in_flight :: "sender \<Rightarrow> udp_packet list" where
  "in_flight s = process_hand (us_process s) @ us_ch s @ send_hand (us_send s)"

lemma process_hand_simps [simp]:
  "process_hand Dialing = []" "process_hand AtSelect = []" "process_hand Returned = []"
  "process_hand (HasPacket p) = [p]"
  by (simp_all add: process_hand_def)

lemma send_hand_simps [simp]: "send_hand SendIdle = []" "send_hand (SendChecked p) = [p]"
  by (simp_all add: send_hand_def)

lemma length_send_hand [simp]: "length (send_hand st) \<le> Suc 0"
  by (cases st) simp_all

text \<open>
  The invariant: packets are neither lost nor duplicated, keep their order, the channel is
  bounded, and what can still be in the channel after \<open>Close\<close> is at most one packet of a \<open>Send\<close> that
  had passed its check.
\<close>

definition sender_inv :: "sender \<Rightarrow> bool" where
  "sender_inv s \<longleftrightarrow>
     mset (us_sent s) = mset (us_processed s) + mset (us_dropped s) + mset (in_flight s) \<and>
     subseq (us_processed s @ in_flight s) (us_sent s) \<and>
     length (us_ch s) \<le> senderCapacity \<and>
     (us_cancelled s \<longleftrightarrow> us_close s \<noteq> Open) \<and>
     (us_process s = Dialing \<longrightarrow> us_close s = Open) \<and>
     (us_close s = Closed \<longrightarrow> length (us_ch s) + length (send_hand (us_send s)) \<le> 1)"

lemma sender_inv_init: "sender_inv newPacketSender"
  by (simp add: sender_inv_def newPacketSender_def in_flight_def)

lemma subseq_drop_mid: "subseq (xs @ ys @ p # zs) us \<Longrightarrow> subseq (xs @ ys @ zs) us"
  by (rule subseq_order.order_trans[rotated]) (auto intro!: list_emb_append_mono)

lemma subseq_snoc_ignore: "subseq xs us \<Longrightarrow> subseq xs (us @ [p])"
  by (rule subseq_order.order_trans[of _ us]) auto

lemma subseq_snoc: "subseq (xs @ ys @ zs) us \<Longrightarrow> subseq (xs @ ys @ zs @ [p]) (us @ [p])"
  using list_emb_append_mono[of "(=)" "xs @ ys @ zs" us "[p]" "[p]"] by simp

lemma subseq_drop_last: "subseq (xs @ ys @ zs @ [p]) us \<Longrightarrow> subseq (xs @ ys @ zs) us"
  using subseq_drop_mid[of xs "ys @ zs" p "[]" us] by simp

lemma sender_inv_step:
  assumes "sender_step t s s'" and "sender_inv s"
  shows "sender_inv s'"
  using assms
proof (cases rule: sender_step.cases)
  case (Send_check p)
  then show ?thesis using \<open>sender_inv s\<close>
    by (auto simp: sender_inv_def in_flight_def sender_ops intro: subseq_snoc_ignore subseq_snoc)
next
  case (Send_cancelled p)
  then show ?thesis using \<open>sender_inv s\<close>
    by (auto simp: sender_inv_def in_flight_def sender_ops intro: subseq_drop_last)
next
  case (Send_full p)
  then show ?thesis using \<open>sender_inv s\<close>
    by (auto simp: sender_inv_def in_flight_def sender_ops intro: subseq_drop_last)
next
  case (Drop_one p ch)
  then show ?thesis using \<open>sender_inv s\<close>
    by (auto simp: sender_inv_def in_flight_def sender_ops intro: subseq_drop_mid)
qed (auto simp: sender_inv_def in_flight_def sender_ops)

lemma sender_inv_run: "sender_run t s s' \<Longrightarrow> sender_inv s \<Longrightarrow> sender_inv s'"
  unfolding sender_run_def by (induction rule: rtranclp_induct) (auto intro: sender_inv_step)

lemma reachable_inv: "reachable_sender t s \<Longrightarrow> sender_inv s"
  using sender_inv_run sender_inv_init by (auto simp: reachable_sender_def)

section \<open>The sender comes to rest\<close>

text \<open>Every step of a cancelled sender makes this smaller, but for a new \<open>Send\<close>, which leaves it.\<close>

definition send_weight :: "send_state \<Rightarrow> nat" where
  "send_weight st = (case st of SendIdle \<Rightarrow> 0 | SendChecked p \<Rightarrow> 4)"

definition process_weight :: "process_state \<Rightarrow> nat" where
  "process_weight st = (case st of Returned \<Rightarrow> 0 | AtSelect \<Rightarrow> 1 | Dialing \<Rightarrow> 2 | HasPacket p \<Rightarrow> 3)"

definition close_weight :: "close_state \<Rightarrow> nat" where
  "close_weight st = (case st of Closed \<Rightarrow> 0 | DroppingAll \<Rightarrow> 1 | Open \<Rightarrow> 2)"

definition work :: "sender \<Rightarrow> nat" where
  "work s = 3 * length (us_ch s) + send_weight (us_send s) + process_weight (us_process s) +
     close_weight (us_close s)"

lemmas weights = work_def send_weight_def process_weight_def close_weight_def

lemma step_work:
  "sender_step t s s' \<Longrightarrow> us_cancelled s \<Longrightarrow> work s' + length (us_sent s) < work s + length (us_sent s')"
  by (erule sender_step.cases) (auto simp: weights sender_ops split: if_splits)

lemma cancelled_step: "sender_step t s s' \<Longrightarrow> us_cancelled s \<Longrightarrow> us_cancelled s'"
  by (erule sender_step.cases) (auto simp: sender_ops)

lemma steps_work:
  assumes "(sender_step t ^^ n) s s'" and "us_cancelled s"
  shows "us_cancelled s' \<and> work s' + length (us_sent s) + n \<le> work s + length (us_sent s')"
  using assms(1)
proof (induction n arbitrary: s')
  case (Suc n)
  then obtain s1 where "(sender_step t ^^ n) s s1" "sender_step t s1 s'" by auto
  then show ?case using Suc.IH[of s1] step_work[of t s1 s'] cancelled_step[of t s1 s'] by simp
qed (simp add: assms(2))

lemma cancelled_work: "sender_inv s \<Longrightarrow> us_cancelled s \<Longrightarrow> work s \<le> 3 * length (us_ch s) + 8"
  by (cases "us_process s"; cases "us_close s"; cases "us_send s") (auto simp: sender_inv_def weights)

text \<open>A flow is at rest when its goroutines are: nothing is left to do but for new packets.\<close>

definition at_rest :: "sender \<Rightarrow> bool" where
  "at_rest s \<longleftrightarrow> us_send s = SendIdle \<and> us_process s = Returned \<and> us_close s = Closed"

lemma progress:
  assumes inv: "sender_inv s" and c: "us_cancelled s" and r: "\<not> at_rest s"
    and hosts: "\<And>m. preHandleMetadata t m \<noteq> None"
  shows "\<exists>s'. sender_step t s s' \<and> us_sent s' = us_sent s"
proof -
  have st: "us_close s \<noteq> Open" "us_process s \<noteq> Dialing" using inv c by (auto simp: sender_inv_def)
  show ?thesis
  proof (cases "us_send s")
    case (SendChecked p)
    from Send_cancelled[OF this c, of t] show ?thesis
      by (intro exI[of _ "send_drop p s"]) (simp add: sender_ops)
  next
    case idle: SendIdle
    show ?thesis
    proof (cases "us_process s")
      case AtSelect
      from Process_cancelled[OF this c, of t] show ?thesis
        by (intro exI[of _ "s\<lparr>us_process := Returned\<rparr>"]) simp
    next
      case (HasPacket p)
      have "\<exists>w m. processPacket t (\<lambda>m. None) p (us_map s) = Some (w, m)"
        using hosts[of "pk_md p"] by (auto simp: processPacket_def Let_def)
      then obtain w m where "processPacket t (\<lambda>m. None) p (us_map s) = Some (w, m)" by blast
      from Process_packet[OF HasPacket this] show ?thesis
        by (intro exI[of _ "process_done p w m s"]) (simp add: sender_ops)
    next
      case Returned
      with r idle st have d: "us_close s = DroppingAll" by (cases "us_close s") (auto simp: at_rest_def)
      show ?thesis
      proof (cases "us_ch s")
        case Nil
        from Drop_end[OF d this, of t] show ?thesis by (intro exI[of _ "s\<lparr>us_close := Closed\<rparr>"]) simp
      next
        case (Cons p ch)
        from Drop_one[OF d this, of t] show ?thesis
          by (intro exI[of _ "drop_packet p (s\<lparr>us_ch := ch\<rparr>)"]) (simp add: sender_ops)
      qed
    qed (use st in simp)
  qed
qed

lemma rest_iff_stuck:
  assumes "sender_inv s" "us_cancelled s" and "\<And>m. preHandleMetadata t m \<noteq> None"
  shows "at_rest s \<longleftrightarrow> \<not> (\<exists>s'. sender_step t s s' \<and> us_sent s' = us_sent s)"
proof -
  have "us_sent s' \<noteq> us_sent s" if "at_rest s" "sender_step t s s'" for s'
    using that(2,1) assms(1,2) by (cases rule: sender_step.cases) (auto simp: at_rest_def sender_inv_def sender_ops)
  with progress[OF assms(1,2) _ assms(3)] show ?thesis by blast
qed

section \<open>What is left after Close\<close>

text \<open>Dropping, with no \<open>Send\<close> past its check, or dropped and empty.\<close>

definition clean_close :: "sender \<Rightarrow> bool" where
  "clean_close s \<longleftrightarrow> us_cancelled s \<and> us_send s = SendIdle \<and>
     (us_close s = DroppingAll \<or> (us_close s = Closed \<and> us_ch s = []))"

lemma clean_close_step: "sender_step t s s' \<Longrightarrow> clean_close s \<Longrightarrow> clean_close s'"
  by (erule sender_step.cases) (auto simp: clean_close_def sender_ops)

lemma clean_close_run: "sender_run t s s' \<Longrightarrow> clean_close s \<Longrightarrow> clean_close s'"
  unfolding sender_run_def by (induction rule: rtranclp_induct) (auto intro: clean_close_step)

section \<open>The destination of a flow's packets\<close>

lemma map_addr_upd [simp]: "map_addr (m(k \<mapsto> a)) k' = (if k' = k then a else map_addr m k')"
  by (simp add: map_addr_def)

lemma map_addr_empty [simp]: "map_addr Map.empty k = NoAddr"
  by (simp add: map_addr_def)

lemma not_IsValid_NoAddr [simp]: "\<not> IsValid NoAddr"
  by (simp add: IsValid_def)

lemma AddMapping_target:
  "map_addr (originToTarget (AddMapping o' m s)) k =
     (if k = md_String o' \<and> \<not> IsValid (map_addr (originToTarget s) k) then md_DstIP m
      else map_addr (originToTarget s) k)"
  by (auto simp: AddMapping_def Let_def)

lemma AddMapping_origin:
  "map_addr (targetToOrigin (AddMapping o' m s)) a =
     (if a = md_DstIP m \<and> \<not> IsValid (map_addr (targetToOrigin s) a) then md_DstIP o'
      else map_addr (targetToOrigin s) a)"
  by (simp add: AddMapping_def Let_def)

text \<open>A valid target is never replaced.\<close>

lemma processPacket_keeps_target:
  assumes "processPacket t R p s = Some (w, s')" and "IsValid (map_addr (originToTarget s) k)"
  shows "map_addr (originToTarget s') k = map_addr (originToTarget s) k"
  using assms by (auto simp: processPacket_def Let_def AddMapping_target split: if_splits option.splits)

lemma step_keeps_target:
  assumes "sender_step t s s'" and "IsValid (map_addr (originToTarget (us_map s)) k)"
  shows "map_addr (originToTarget (us_map s')) k = map_addr (originToTarget (us_map s)) k"
  using assms by (cases rule: sender_step.cases)
    (auto simp: sender_ops AddMapping_target processPacket_keeps_target split: if_splits)

lemma run_keeps_target:
  assumes "sender_run t s s'" and "IsValid (map_addr (originToTarget (us_map s)) k)"
  shows "map_addr (originToTarget (us_map s')) k = map_addr (originToTarget (us_map s)) k"
  using assms unfolding sender_run_def
  by (induction rule: rtranclp_induct) (auto simp: step_keeps_target)

text \<open>What was written tells the target.\<close>

lemma written_target:
  assumes "processPacket t R p s = Some (Some (d, a, port), s')"
  obtains b where "map_addr (originToTarget s') (md_String (pk_md p)) = b" "IsValid b" "Unmap b = Unmap a"
  using assms by (auto simp: processPacket_def Let_def AddMapping_target md_UDPAddr_def AddrPort_def
      not_v4_in_v6_zone split: if_splits option.splits)

lemma known_target:
  assumes "IsValid (map_addr (originToTarget s) (md_String (pk_md p)))"
  shows "processPacket t R p s =
    Some (Some (pk_data p, map_addr (originToTarget s) (md_String (pk_md p)), md_DstPort (pk_md p)), s)"
  using assms by (simp add: processPacket_def Let_def)

lemma targets_stay:
  assumes w: "processPacket t R p (us_map s) = Some (Some (d, a, port), m)"
    and run: "sender_run t (process_done p (Some (d, a, port)) m s) s'"
    and key: "md_String (pk_md q) = md_String (pk_md p)"
  shows "\<exists>b. processPacket t R' q (us_map s') = Some (Some (pk_data q, b, md_DstPort (pk_md q)), us_map s') \<and>
    Unmap b = Unmap a"
proof -
  obtain b where b: "map_addr (originToTarget m) (md_String (pk_md p)) = b" "IsValid b" "Unmap b = Unmap a"
    by (rule written_target[OF w])
  have "map_addr (originToTarget (us_map s')) (md_String (pk_md q)) = b"
    using run_keeps_target[OF run, of "md_String (pk_md p)"] b key by (simp add: sender_ops)
  with known_target[of "us_map s'" q t R'] b show ?thesis by simp
qed

text \<open>
  An answer from a target seen for the first time comes back under the address the client used,
  and stays with it.
\<close>

lemma readFrom_known:
  assumes "map_addr (targetToOrigin s) (Unmap a) = x" and "IsValid x"
  shows "readFrom oa (Some (a, port)) s = (Unmap x, port)"
  using assms by (simp add: readFrom_def RestoreReadFrom_def Let_def)

lemma processPacket_origin:
  assumes w: "processPacket t R p s = Some (Some (d, a, port), s')"
    and new: "\<not> IsValid (map_addr (originToTarget s) (md_String (pk_md p)))"
    and tgt: "map_addr (originToTarget s') (md_String (pk_md p)) = a"
  shows "map_addr (targetToOrigin s') a =
    (if IsValid (map_addr (targetToOrigin s) a) then map_addr (targetToOrigin s) a else md_DstIP (pk_md p))"
  using assms by (auto simp: processPacket_def Let_def AddMapping_target AddMapping_origin
      split: if_splits option.splits)

lemma processPacket_keeps_origin:
  assumes "processPacket t R p s = Some (w, s')" and "IsValid (map_addr (targetToOrigin s) k)"
  shows "map_addr (targetToOrigin s') k = map_addr (targetToOrigin s) k"
  using assms by (auto simp: processPacket_def Let_def AddMapping_origin split: if_splits option.splits)

lemma answers_restored:
  assumes w: "processPacket t R p s = Some (Some (d, a, port), s')"
    and new: "\<not> IsValid (map_addr (originToTarget s) (md_String (pk_md p)))"
    and tgt: "map_addr (originToTarget s') (md_String (pk_md p)) = a" "Unmap a = a"
    and free: "\<not> IsValid (map_addr (targetToOrigin s) a)"
    and client: "IsValid (md_DstIP (pk_md p))"
    and later: "processPacket t R' q s' = Some (w', s'')"
  shows "readFrom oa (Some (a, port')) s' = (Unmap (md_DstIP (pk_md p)), port')"
    and "readFrom oa (Some (a, port')) s'' = (Unmap (md_DstIP (pk_md p)), port')"
proof -
  have o': "map_addr (targetToOrigin s') a = md_DstIP (pk_md p)"
    using processPacket_origin[OF w new tgt(1)] free by simp
  show "readFrom oa (Some (a, port')) s' = (Unmap (md_DstIP (pk_md p)), port')"
    by (rule readFrom_known) (simp_all add: o' tgt client)
  have "map_addr (targetToOrigin s'') a = md_DstIP (pk_md p)"
    using processPacket_keeps_origin[OF later, of a] o' client by simp
  then show "readFrom oa (Some (a, port')) s'' = (Unmap (md_DstIP (pk_md p)), port')"
    by (intro readFrom_known) (simp_all add: tgt client)
qed

end
