(* ===== verification/UdpProps.thy ===== *)
theory UdpProps imports UdpSender TunnelProps begin

text \<open>
  What a flow of UDP packets promises: nothing is lost or reordered without being dropped, closing
  comes to rest, destinations and answers keep their addresses. With the race of \<open>Send\<close> and \<open>Close\<close>
  that strands a packet.
\<close>

section \<open>Two runs\<close>

lemma step_reachable: "reachable_sender t s \<Longrightarrow> sender_step t s s' \<Longrightarrow> reachable_sender t s'"
  unfolding reachable_sender_def sender_run_def by (rule rtranclp.rtrancl_into_rtrancl)

lemma new_reachable: "reachable_sender t newPacketSender"
  by (simp add: reachable_sender_def sender_run_def)

lemma checked_reachable: "reachable_sender t (send_check p newPacketSender)"
  by (rule step_reachable[OF new_reachable Send_check]) (simp add: newPacketSender_def)

text \<open>A dial fails with one packet waiting, and the sender is being closed.\<close>

definition closing :: "udp_packet \<Rightarrow> sender" where
  "closing p = newPacketSender\<lparr>us_ch := [p], us_cancelled := True, us_process := Returned,
     us_close := DroppingAll, us_sent := [p]\<rparr>"

lemma closing_reachable: "reachable_sender t (closing p)"
proof -
  let ?a = "send_put p (send_check p newPacketSender)"
  let ?b = "?a\<lparr>us_process := Returned\<rparr>"
  have a: "reachable_sender t ?a"
    by (rule step_reachable[OF checked_reachable[where p = p] Send_put])
      (simp_all add: sender_ops newPacketSender_def senderCapacity_def)
  have b: "reachable_sender t ?b"
    by (rule step_reachable[OF a Dial_failed]) (simp add: sender_ops newPacketSender_def)
  have "reachable_sender t (?b\<lparr>us_cancelled := True, us_close := DroppingAll\<rparr>)"
    by (rule step_reachable[OF b Close_cancel]) (simp_all add: sender_ops newPacketSender_def)
  then show ?thesis by (simp add: closing_def sender_ops newPacketSender_def)
qed

text \<open>The dial fails and the sender is closed while \<open>Send\<close> is between its two selects.\<close>

definition stranded :: "udp_packet \<Rightarrow> sender" where
  "stranded p = newPacketSender\<lparr>us_ch := [p], us_cancelled := True, us_process := Returned,
     us_close := Closed, us_sent := [p]\<rparr>"

lemma stranded_reachable: "reachable_sender t (stranded p)"
proof -
  let ?a = "(send_check p newPacketSender)\<lparr>us_process := Returned\<rparr>"
  let ?b = "?a\<lparr>us_cancelled := True, us_close := DroppingAll\<rparr>"
  let ?c = "?b\<lparr>us_close := Closed\<rparr>"
  have a: "reachable_sender t ?a"
    by (rule step_reachable[OF checked_reachable Dial_failed]) (simp add: sender_ops newPacketSender_def)
  have b: "reachable_sender t ?b"
    by (rule step_reachable[OF a Close_cancel]) (simp_all add: sender_ops newPacketSender_def)
  have c: "reachable_sender t ?c"
    by (rule step_reachable[OF b Drop_end]) (simp_all add: sender_ops newPacketSender_def)
  have "reachable_sender t (send_put p ?c)"
    by (rule step_reachable[OF c Send_put]) (simp_all add: sender_ops newPacketSender_def senderCapacity_def)
  then show ?thesis by (simp add: stranded_def sender_ops newPacketSender_def)
qed

section \<open>Properties\<close>

text \<open>
  C10: whatever the interleaving of sending, processing and closing, every packet given to the
  sender is at each moment exactly once processed, dropped or on its way; the packets are processed in
  the order they were sent; and the channel never holds more than its capacity.
\<close>

theorem udp_packets_accounted:
  assumes "reachable_sender t s"
  shows "mset (us_sent s) = mset (us_processed s) + mset (us_dropped s) + mset (in_flight s) \<and>
    subseq (us_processed s @ in_flight s) (us_sent s) \<and> length (us_ch s) \<le> senderCapacity"
  using reachable_inv[OF assms] by (simp add: sender_inv_def)

text \<open>
  C11: a closed sender comes to rest, whatever it was doing and in whatever order its goroutines
  go on, when the hosts lookups return: every run has at most three steps for each packet in the channel,
  eight more, and one for each new call of \<open>Send\<close>; and it can always go on without a new \<open>Send\<close> unless
  all goroutines are done. When they are, every packet was processed or dropped, but for at most one left in the
  channel, and none is left if no \<open>Send\<close> was past its check while \<open>Close\<close> dropped the rest.
\<close>

theorem udp_close_comes_to_rest:
  assumes "reachable_sender t s" and "us_cancelled s" and "\<And>m. preHandleMetadata t m \<noteq> None"
    and "(sender_step t ^^ n) s s'"
  shows "n + length (us_sent s) \<le> 3 * length (us_ch s) + 8 + length (us_sent s') \<and>
    (at_rest s' \<longleftrightarrow> \<not> (\<exists>s''. sender_step t s' s'' \<and> us_sent s'' = us_sent s')) \<and>
    (at_rest s' \<longrightarrow>
      mset (us_sent s') = mset (us_processed s') + mset (us_dropped s') + mset (us_ch s') \<and>
      length (us_ch s') \<le> 1 \<and> (us_send s = SendIdle \<and> us_close s = DroppingAll \<longrightarrow> us_ch s' = []))"
proof -
  have run: "sender_run t s s'" using relpowp_imp_rtranclp[OF assms(4)] by (simp add: sender_run_def)
  note inv = reachable_inv[OF assms(1)] and W = steps_work[OF assms(4,2)]
  note inv' = sender_inv_run[OF run inv]
  have "us_ch s' = []" if "us_send s = SendIdle \<and> us_close s = DroppingAll" "at_rest s'"
    using clean_close_run[OF run] that assms(2) by (simp add: clean_close_def at_rest_def)
  moreover have "n + length (us_sent s) \<le> 3 * length (us_ch s) + 8 + length (us_sent s')"
    using W cancelled_work[OF inv assms(2)] by linarith
  moreover note rest_iff_stuck[OF inv' conjunct1[OF W] assms(3)]
  ultimately show ?thesis using inv' by (auto simp: sender_inv_def at_rest_def in_flight_def)
qed

text \<open>
  A packet can be stranded: when the sender is closed between the two selects of \<open>Send\<close>, the
  second may still put the packet into the channel, after \<open>dropAll\<close> found it empty. Then nobody
  takes it out, and it is neither processed nor dropped (its buffer is not given back).
\<close>

theorem udp_packet_stranded:
  "\<exists>s. reachable_sender t s \<and> at_rest s \<and> us_sent s = [p] \<and> us_ch s = [p] \<and>
     us_processed s = [] \<and> us_dropped s = []"
  by (intro exI[of _ "stranded p"])
    (simp add: stranded_reachable, simp add: stranded_def newPacketSender_def at_rest_def)

text \<open>
  Once a packet for a destination (host name or address) was written, every later packet of the
  flow for the same destination is written to the same address, whatever the resolver then says
  and whatever other packets are sent in between.
\<close>

theorem udp_destination_stays:
  assumes "processPacket t R p (us_map s) = Some (Some (d, a, port), m)"
    and "sender_run t (process_done p (Some (d, a, port)) m s) s'"
    and "md_String (pk_md q) = md_String (pk_md p)"
  shows "\<exists>b. processPacket t R' q (us_map s') = Some (Some (pk_data q, b, md_DstPort (pk_md q)), us_map s') \<and>
    Unmap b = Unmap a"
  using assms by (rule targets_stay)

text \<open>
  C12: answers of the address a packet was written to come back under the address the client sent the
  packet to (in fake-ip mode, its fake address) if no other destination of the flow led to this
  address before. They keep coming back under it, also when later packets to other fake addresses are
  written to the same real address.
\<close>

theorem udp_answers_under_first_origin:
  assumes "processPacket t R p s = Some (Some (d, a, port), s')"
    and "\<not> IsValid (map_addr (originToTarget s) (md_String (pk_md p)))"
    and "map_addr (originToTarget s') (md_String (pk_md p)) = a" and "Unmap a = a"
    and "\<not> IsValid (map_addr (targetToOrigin s) a)"
    and "IsValid (md_DstIP (pk_md p))"
    and "processPacket t R' q s' = Some (w', s'')"
  shows "readFrom oa (Some (a, port')) s' = (Unmap (md_DstIP (pk_md p)), port') \<and>
    readFrom oa (Some (a, port')) s'' = (Unmap (md_DstIP (pk_md p)), port')"
  using answers_restored[OF assms] by blast

definition two_fakes :: enhancer where
  "two_fakes = demo_enhancer\<lparr>en_IsFakeIP := (\<lambda>a. a = V4 1 \<or> a = V4 2),
     en_FindHostByIP := (\<lambda>a. if a = V4 1 then Some ''a.b'' else if a = V4 2 then Some ''c.d'' else None)\<rparr>"

definition two_fakes_tunnel :: tunnel where
  "two_fakes_tunnel = owner_tunnel\<lparr>t_mapper := Some two_fakes\<rparr>"

definition fake_packet :: "u32 \<Rightarrow> udp_packet" where
  "fake_packet w = \<lparr>pk_md = zero_metadata\<lparr>md_NetWork := UDP, md_DstIP := V4 w, md_DstPort := 53\<rparr>, pk_data = [1]\<rparr>"

definition to_three :: "metadata \<Rightarrow> metadata option" where
  "to_three m = Some (m\<lparr>md_DstIP := V4 3\<rparr>)"

lemmas fake_defs = two_fakes_def two_fakes_tunnel_def fake_packet_def to_three_def demo_enhancer_def
  preHandleMetadata_def needLookupIP_def MappingEnabled_def FindHostByIP_def FakeIPEnabled_def
  zero_metadata_def Pure_def md_UDPAddr_def AddrPort_def IsValid_def

lemma fake_names: "md_String (pk_md (fake_packet 2)) \<noteq> md_String (pk_md (fake_packet 1))"
  by code_simp

lemma fake_written:
  assumes "w = 1 \<or> w = 2" and "map_addr (originToTarget s) (md_String (pk_md (fake_packet w))) = NoAddr"
  shows "processPacket two_fakes_tunnel to_three (fake_packet w) s =
    Some (Some ([1], V4 3, 53),
      AddMapping (pk_md (fake_packet w)) (the (to_three (pk_md (fake_packet w)))) s)"
  using assms by (auto simp: processPacket_def fake_defs AddMapping_def Let_def)

theorem udp_packets_accounted_witness:
  "mset (us_sent (stranded (fake_packet 1))) = {#fake_packet 1#}"
  using udp_packets_accounted[OF stranded_reachable[of owner_tunnel "fake_packet 1"]]
  by (simp add: stranded_def newPacketSender_def in_flight_def)

lemma host_lookup_newNode: "host_lookup newNode d = None"
proof (rule ccontr)
  assume "host_lookup newNode d \<noteq> None"
  then obtain n :: "host_value node" where n: "Search newNode d = Some n" "n_data n \<noteq> None"
    by (auto simp: host_lookup_def split: option.splits)
  then obtain ps where "trie_search newNode (rev ps) = Some n"
    by (auto simp: Search_def Let_def split: option.splits if_splits)
  then have "n_data n = None" by (cases "rev ps") (auto simp: Let_def isEmpty_def)
  with n(2) show False by simp
qed

lemma owner_hosts_return: "preHandleMetadata owner_tunnel m \<noteq> None"
  by (auto simp: preHandleMetadata_def needLookupIP_def MappingEnabled_def search_hosts_def hosts_Search_def
      host_lookup_newNode owner_tunnel_def split: option.splits bool.splits)

lemma closing_run:
  "(sender_step t ^^ 2) (closing p) ((closing p)\<lparr>us_ch := [], us_dropped := [p], us_close := Closed\<rparr>)"
proof -
  have "sender_step t (closing p) (drop_packet p ((closing p)\<lparr>us_ch := []\<rparr>))"
    by (rule Drop_one) (simp_all add: closing_def)
  moreover have "sender_step t (drop_packet p ((closing p)\<lparr>us_ch := []\<rparr>))
      ((drop_packet p ((closing p)\<lparr>us_ch := []\<rparr>))\<lparr>us_close := Closed\<rparr>)"
    by (rule Drop_end) (simp_all add: closing_def drop_packet_def)
  ultimately show ?thesis
    by (auto simp: eval_nat_numeral closing_def drop_packet_def newPacketSender_def)
qed

theorem udp_close_comes_to_rest_witness:
  "\<exists>s'. (sender_step owner_tunnel ^^ 2) (closing (fake_packet 1)) s' \<and> at_rest s' \<and>
     mset (us_sent s') = mset (us_dropped s') \<and> us_ch s' = [] \<and>
     \<not> (\<exists>s''. sender_step owner_tunnel s' s'' \<and> us_sent s'' = us_sent s')"
  using udp_close_comes_to_rest[OF closing_reachable _ owner_hosts_return closing_run[of _ "fake_packet 1"]]
    closing_run[of owner_tunnel "fake_packet 1"]
  by (intro exI[of _ "(closing (fake_packet 1))\<lparr>us_ch := [], us_dropped := [fake_packet 1], us_close := Closed\<rparr>"])
    (simp add: closing_def newPacketSender_def at_rest_def)

theorem udp_destination_stays_witness:
  "\<exists>b. processPacket two_fakes_tunnel (\<lambda>_. None) (fake_packet 1)
      (AddMapping (pk_md (fake_packet 1)) (the (to_three (pk_md (fake_packet 1)))) no_mapping) =
    Some (Some ([1], b, 53),
      AddMapping (pk_md (fake_packet 1)) (the (to_three (pk_md (fake_packet 1)))) no_mapping) \<and> Unmap b = V4 3"
proof -
  let ?s = "newPacketSender"
  have e: "us_map ?s = no_mapping" by (simp add: newPacketSender_def)
  have w: "processPacket two_fakes_tunnel to_three (fake_packet 1) (us_map ?s) =
    Some (Some ([1], V4 3, 53), AddMapping (pk_md (fake_packet 1)) (the (to_three (pk_md (fake_packet 1)))) no_mapping)"
    using fake_written[of 1 no_mapping] by (simp add: e no_mapping_def)
  have run: "sender_run two_fakes_tunnel s s" for s by (simp add: sender_run_def)
  from udp_destination_stays[OF w run refl, where R' = "\<lambda>_. None"]
  show ?thesis by (auto simp: process_done_def fake_packet_def)
qed

theorem udp_answers_under_first_origin_witness:
  "\<exists>s s'. processPacket two_fakes_tunnel to_three (fake_packet 1) no_mapping = Some (Some ([1], V4 3, 53), s) \<and>
     processPacket two_fakes_tunnel to_three (fake_packet 2) s = Some (Some ([1], V4 3, 53), s') \<and>
     readFrom (V4 3, 53) (Some (V4 3, 53)) s' = (V4 1, 53)"
proof -
  define s where "s = AddMapping (pk_md (fake_packet 1)) (the (to_three (pk_md (fake_packet 1)))) no_mapping"
  define s' where "s' = AddMapping (pk_md (fake_packet 2)) (the (to_three (pk_md (fake_packet 2)))) s"
  have w: "processPacket two_fakes_tunnel to_three (fake_packet 1) no_mapping = Some (Some ([1], V4 3, 53), s)"
    using fake_written[of 1 no_mapping] by (simp add: s_def no_mapping_def)
  have t: "map_addr (originToTarget s) (md_String (pk_md (fake_packet 1))) = V4 3"
    by (simp add: s_def AddMapping_target no_mapping_def to_three_def)
  have "map_addr (originToTarget s) (md_String (pk_md (fake_packet 2))) = NoAddr"
    using fake_names by (simp add: s_def AddMapping_target no_mapping_def)
  then have l: "processPacket two_fakes_tunnel to_three (fake_packet 2) s = Some (Some ([1], V4 3, 53), s')"
    using fake_written[of 2 s] by (simp add: s'_def)
  have f: "\<not> IsValid (map_addr (originToTarget no_mapping) k)" "\<not> IsValid (map_addr (targetToOrigin no_mapping) a)" for k a
    by (simp_all add: no_mapping_def)
  have v: "IsValid (md_DstIP (pk_md (fake_packet 1)))" "Unmap (V4 3) = V4 3"
    by (simp_all add: fake_packet_def IsValid_def)
  from udp_answers_under_first_origin[OF w f(1) t v(2) f(2) v(1) l]
  have "readFrom (V4 3, 53) (Some (V4 3, 53)) s' = (V4 1, 53)" by (simp add: fake_packet_def)
  with w l show ?thesis by blast
qed

end
