(* ===== verification/NatTable.thy ===== *)
theory NatTable imports Prelude "HOL-Library.AList" begin

text \<open>
  component/nat/table.go: the table of UDP flows by source address, each with its packet sender and
  the local connections opened to answer it; and the life of its entries as tunnel.go drives it
  (\<open>handleUDPConn\<close> creates, the goroutines of the flow close and delete). A concurrent map is an
  association list (its order stands for the unspecified order of \<open>Range\<close>), and each of its
  operations is atomic.
\<close>

section \<open>The table\<close>

record ('s, 'c, 'l) entry =
  PacketSender :: 's
  LocalUDPConnMap :: "(string \<times> 'c) list"
  LocalLockMap :: "(string \<times> 'l) list"

type_synonym ('s, 'c, 'l) table = "(string \<times> ('s, 'c, 'l) entry) list"

definition getEntry :: "('s, 'c, 'l) table \<Rightarrow> string \<Rightarrow> ('s, 'c, 'l) entry option" where
  "getEntry t key = map_of t key"

text \<open>\<open>GetOrCreate\<close>: the sender, whether it was there, and the table; \<open>maker\<close> is what the maker returns.\<close>

definition GetOrCreate :: "string \<Rightarrow> 's \<Rightarrow> ('s, 'c, 'l) table \<Rightarrow> 's \<times> bool \<times> ('s, 'c, 'l) table" where
  "GetOrCreate key maker t =
     (case getEntry t key of
        Some item \<Rightarrow> (PacketSender item, True, t)
      | None \<Rightarrow> (maker, False,
          AList.update key \<lparr>PacketSender = maker, LocalUDPConnMap = [], LocalLockMap = []\<rparr> t))"

definition nat_Delete :: "string \<Rightarrow> ('s, 'c, 'l) table \<Rightarrow> ('s, 'c, 'l) table" where
  "nat_Delete key t = AList.delete key t"

definition GetForLocalConn :: "string \<Rightarrow> string \<Rightarrow> ('s, 'c, 'l) table \<Rightarrow> 'c option" where
  "GetForLocalConn lAddr rAddr t =
     (case getEntry t lAddr of None \<Rightarrow> None | Some e \<Rightarrow> map_of (LocalUDPConnMap e) rAddr)"

definition AddForLocalConn :: "string \<Rightarrow> string \<Rightarrow> 'c \<Rightarrow> ('s, 'c, 'l) table \<Rightarrow> bool \<times> ('s, 'c, 'l) table" where
  "AddForLocalConn lAddr rAddr conn t =
     (case getEntry t lAddr of
        None \<Rightarrow> (False, t)
      | Some e \<Rightarrow>
          (True, AList.update lAddr (e\<lparr>LocalUDPConnMap := AList.update rAddr conn (LocalUDPConnMap e)\<rparr>) t))"

text \<open>\<open>RangeForLocalConn\<close> with a callback that changes a state and says whether to go on.\<close>

fun range_loop :: "(string \<Rightarrow> 'c \<Rightarrow> 'x \<Rightarrow> bool \<times> 'x) \<Rightarrow> (string \<times> 'c) list \<Rightarrow> 'x \<Rightarrow> 'x" where
  "range_loop f [] x = x"
| "range_loop f ((key, v) # rest) x = (case f key v x of (go_on, x') \<Rightarrow> if go_on then range_loop f rest x' else x')"

definition RangeForLocalConn ::
  "string \<Rightarrow> (string \<Rightarrow> 'c \<Rightarrow> 'x \<Rightarrow> bool \<times> 'x) \<Rightarrow> ('s, 'c, 'l) table \<Rightarrow> 'x \<Rightarrow> 'x" where
  "RangeForLocalConn lAddr f t x =
     (case getEntry t lAddr of None \<Rightarrow> x | Some e \<Rightarrow> range_loop f (AList.clearjunk (LocalUDPConnMap e)) x)"

definition GetOrCreateLockForLocalConn ::
  "string \<Rightarrow> string \<Rightarrow> 'l \<Rightarrow> ('s, 'c, 'l) table \<Rightarrow> 'l option \<times> bool \<times> ('s, 'c, 'l) table" where
  "GetOrCreateLockForLocalConn lAddr key makeLock t =
     (case getEntry t lAddr of
        None \<Rightarrow> (None, False, t)
      | Some e \<Rightarrow>
          (case map_of (LocalLockMap e) key of
             Some l \<Rightarrow> (Some l, True, t)
           | None \<Rightarrow> (Some makeLock, False,
               AList.update lAddr (e\<lparr>LocalLockMap := AList.update key makeLock (LocalLockMap e)\<rparr>) t)))"

definition DeleteForLocalConn :: "string \<Rightarrow> string \<Rightarrow> ('s, 'c, 'l) table \<Rightarrow> ('s, 'c, 'l) table" where
  "DeleteForLocalConn lAddr key t =
     (case getEntry t lAddr of
        None \<Rightarrow> t
      | Some e \<Rightarrow> AList.update lAddr (e\<lparr>LocalUDPConnMap := AList.delete key (LocalUDPConnMap e)\<rparr>) t)"

definition DeleteLockForLocalConn :: "string \<Rightarrow> string \<Rightarrow> ('s, 'c, 'l) table \<Rightarrow> ('s, 'c, 'l) table" where
  "DeleteLockForLocalConn lAddr key t =
     (case getEntry t lAddr of
        None \<Rightarrow> t
      | Some e \<Rightarrow> AList.update lAddr (e\<lparr>LocalLockMap := AList.delete key (LocalLockMap e)\<rparr>) t)"

text \<open>\<open>closeAllLocalCoon\<close> of the tunnel: the connections closed, in order.\<close>

definition closeAllLocalCoon :: "string \<Rightarrow> ('s, 'c, 'l) table \<Rightarrow> 'c list" where
  "closeAllLocalCoon lAddr t = RangeForLocalConn lAddr (\<lambda>key conn closed. (True, closed @ [conn])) t []"

section \<open>The flows\<close>

text \<open>
  The senders are numbered in the order they are made. A flow runs from its creation until its
  goroutine (the failed dial, or the end of \<open>handleUDPToLocal\<close>) closes the sender; then its local
  connections are closed (not after a failed dial), and then its key is deleted.
\<close>

datatype flow_phase = FlowRuns | SenderClosed | LocalsClosed | FlowGone

record 'c flows =
  fl_table :: "(nat, 'c, unit) table"
  fl_key :: "nat \<Rightarrow> string"
  fl_phase :: "nat \<Rightarrow> flow_phase"
  fl_next :: nat
  fl_given :: "(string \<times> nat) list"
  fl_closed :: "'c list"

text \<open>\<open>fl_given\<close> is the history of the packets, by key, and the senders they were given to.\<close>

definition no_flows :: "'c flows" where
  "no_flows = \<lparr>fl_table = [], fl_key = (\<lambda>_. ''''), fl_phase = (\<lambda>_. FlowGone), fl_next = 0, fl_given = [],
     fl_closed = []\<rparr>"

definition flow_packet :: "string \<Rightarrow> 'c flows \<Rightarrow> 'c flows" where
  "flow_packet key fs =
     (case GetOrCreate key (fl_next fs) (fl_table fs) of
        (sndr, loaded, t) \<Rightarrow>
          let fs1 = fs\<lparr>fl_table := t, fl_given := fl_given fs @ [(key, sndr)]\<rparr> in
          if loaded then fs1
          else fs1\<lparr>fl_key := (fl_key fs)(sndr := key), fl_phase := (fl_phase fs)(sndr := FlowRuns),
                 fl_next := fl_next fs + 1\<rparr>)"

inductive flow_step :: "'c flows \<Rightarrow> 'c flows \<Rightarrow> bool" where
  Flow_packet: "flow_step fs (flow_packet key fs)"
| Flow_local: "AddForLocalConn lAddr rAddr conn (fl_table fs) = (ok, t) \<Longrightarrow> flow_step fs (fs\<lparr>fl_table := t\<rparr>)"
| Flow_close: "i < fl_next fs \<Longrightarrow> fl_phase fs i = FlowRuns \<Longrightarrow>
    flow_step fs (fs\<lparr>fl_phase := (fl_phase fs)(i := SenderClosed)\<rparr>)"
| Flow_close_locals: "i < fl_next fs \<Longrightarrow> fl_phase fs i = SenderClosed \<Longrightarrow>
    flow_step fs (fs\<lparr>fl_phase := (fl_phase fs)(i := LocalsClosed),
      fl_closed := fl_closed fs @ closeAllLocalCoon (fl_key fs i) (fl_table fs)\<rparr>)"
| Flow_delete: "i < fl_next fs \<Longrightarrow> fl_phase fs i = LocalsClosed \<or> fl_phase fs i = SenderClosed \<Longrightarrow>
    flow_step fs (fs\<lparr>fl_phase := (fl_phase fs)(i := FlowGone), fl_table := nat_Delete (fl_key fs i) (fl_table fs)\<rparr>)"

definition reachable_flows :: "'c flows \<Rightarrow> bool" where
  "reachable_flows fs \<longleftrightarrow> flow_step\<^sup>*\<^sup>* no_flows fs"

section \<open>One flow per key\<close>

lemma getEntry_update [simp]:
  "getEntry (AList.update k e t) k' = (if k' = k then Some e else getEntry t k')"
  by (simp add: getEntry_def update_conv')

lemma getEntry_delete [simp]:
  "getEntry (nat_Delete k t) k' = (if k' = k then None else getEntry t k')"
  by (simp add: getEntry_def nat_Delete_def delete_conv')

definition senders :: "('s, 'c, 'l) table \<Rightarrow> string \<Rightarrow> 's option" where
  "senders t key = map_option PacketSender (getEntry t key)"

lemma senders_GetOrCreate:
  "GetOrCreate key s t = (s', loaded, t') \<Longrightarrow>
     senders t' = (if loaded then senders t else (senders t)(key \<mapsto> s)) \<and>
     loaded = (senders t key \<noteq> None) \<and> senders t' key = Some s'"
  by (auto simp: GetOrCreate_def senders_def fun_eq_iff split: option.splits)

lemma senders_AddForLocalConn: "AddForLocalConn l r c t = (ok, t') \<Longrightarrow> senders t' = senders t"
  by (auto simp: AddForLocalConn_def senders_def fun_eq_iff split: option.splits)

lemma senders_Delete [simp]: "senders (nat_Delete k t) = (senders t)(k := None)"
  by (simp add: senders_def fun_eq_iff)

definition flows_ok :: "'c flows \<Rightarrow> bool" where
  "flows_ok fs \<longleftrightarrow>
     (\<forall>key i. senders (fl_table fs) key = Some i \<longleftrightarrow> i < fl_next fs \<and> fl_phase fs i \<noteq> FlowGone \<and> fl_key fs i = key) \<and>
     (\<forall>(key, i) \<in> set (fl_given fs). i < fl_next fs \<and> fl_key fs i = key)"

lemma flows_unique:
  assumes "flows_ok fs" "i < fl_next fs" "j < fl_next fs" "fl_phase fs i \<noteq> FlowGone" "fl_phase fs j \<noteq> FlowGone"
    "fl_key fs i = fl_key fs j"
  shows "i = j"
proof -
  have "senders (fl_table fs) (fl_key fs i) = Some i" "senders (fl_table fs) (fl_key fs i) = Some j"
    using assms by (simp_all add: flows_ok_def)
  then show ?thesis by simp
qed

lemma flows_ok_init: "flows_ok no_flows"
  by (simp add: flows_ok_def no_flows_def senders_def getEntry_def)

lemma flows_ok_packet:
  assumes "flows_ok fs"
  shows "flows_ok (flow_packet key fs)"
proof -
  obtain sndr loaded t where g: "GetOrCreate key (fl_next fs) (fl_table fs) = (sndr, loaded, t)"
    by (cases "GetOrCreate key (fl_next fs) (fl_table fs)") auto
  note s = senders_GetOrCreate[OF g]
  show ?thesis
  proof (cases loaded)
    case True
    with s have "senders (fl_table fs) key = Some sndr" by auto
    with assms have "sndr < fl_next fs" "fl_key fs sndr = key" by (auto simp: flows_ok_def)
    with True assms s g show ?thesis by (auto simp: flow_packet_def flows_ok_def)
  next
    case False
    have n: "sndr = fl_next fs" using g False by (auto simp: GetOrCreate_def split: option.splits)
    have "senders (fl_table fs) key = None" using s False by simp
    then have free: "\<not> (i < fl_next fs \<and> fl_phase fs i \<noteq> FlowGone \<and> fl_key fs i = key)" for i
      using assms unfolding flows_ok_def by (metis option.distinct(1))
    show ?thesis using assms s g False n free
      by (auto simp: flow_packet_def flows_ok_def Let_def less_Suc_eq split: if_splits)
  qed
qed

lemma flows_ok_step: "flow_step fs fs' \<Longrightarrow> flows_ok fs \<Longrightarrow> flows_ok fs'"
proof (erule flow_step.cases)
  fix key fs0 assume "fs' = flow_packet key fs0" "fs = fs0" "flows_ok fs"
  then show ?thesis by (simp add: flows_ok_packet)
next
  fix i fs0
  assume s: "fs' = fs0\<lparr>fl_phase := (fl_phase fs0)(i := FlowGone), fl_table := nat_Delete (fl_key fs0 i) (fl_table fs0)\<rparr>"
    "fs = fs0" "flows_ok fs" "i < fl_next fs0" "fl_phase fs0 i = LocalsClosed \<or> fl_phase fs0 i = SenderClosed"
  have "j = i" if "j < fl_next fs0" "fl_phase fs0 j \<noteq> FlowGone" "fl_key fs0 j = fl_key fs0 i" for j
    using flows_unique[of fs0 j i] s that by auto
  with s show ?thesis by (auto simp: flows_ok_def)
qed (auto simp: flows_ok_def senders_AddForLocalConn)

lemma reachable_flows_ok: "reachable_flows fs \<Longrightarrow> flows_ok fs"
  unfolding reachable_flows_def
  by (induction rule: rtranclp_induct) (auto intro: flows_ok_init flows_ok_step)

text \<open>
  C13: at any moment at most one flow of a source address is not yet gone, packets are only given to a
  sender made for their own address, and a flow that ends deletes its own entry and no other.
\<close>

theorem one_flow_per_key:
  assumes "reachable_flows fs"
  shows "(\<forall>i < fl_next fs. \<forall>j < fl_next fs. fl_phase fs i \<noteq> FlowGone \<and> fl_phase fs j \<noteq> FlowGone \<and>
       fl_key fs i = fl_key fs j \<longrightarrow> i = j) \<and>
    (\<forall>(key, i) \<in> set (fl_given fs). fl_key fs i = key) \<and>
    (\<forall>i < fl_next fs. fl_phase fs i \<noteq> FlowGone \<longrightarrow> senders (fl_table fs) (fl_key fs i) = Some i \<and>
       senders (nat_Delete (fl_key fs i) (fl_table fs)) = (senders (fl_table fs))(fl_key fs i := None))"
proof -
  note ok = reachable_flows_ok[OF assms]
  show ?thesis using ok flows_unique[OF ok] by (auto simp: flows_ok_def)
qed

lemma reachable_packet: "reachable_flows fs \<Longrightarrow> reachable_flows (flow_packet key fs)"
  unfolding reachable_flows_def by (erule rtranclp.rtrancl_into_rtrancl) (rule Flow_packet)

theorem one_flow_per_key_witness:
  "\<exists>fs :: nat flows. reachable_flows fs \<and> fl_given fs = [(''a'', 0), (''b'', 1), (''a'', 0)] \<and> fl_key fs 1 = ''b''"
proof -
  let ?f = "flow_packet ''a'' (flow_packet ''b'' (flow_packet ''a'' (no_flows :: nat flows)))"
  have r: "reachable_flows ?f"
    by (intro reachable_packet) (simp add: reachable_flows_def)
  have g: "fl_given ?f = [(''a'', 0), (''b'', 1), (''a'', 0)]"
    by (simp add: flow_packet_def GetOrCreate_def no_flows_def getEntry_def)
  have "fl_key ?f 1 = ''b''" using one_flow_per_key[OF r] g by auto
  with r g show ?thesis by blast
qed

end
