(* ===== verification/ByteConn.thy ===== *)
theory ByteConn imports NetIP begin

text \<open>
  A byte stream in both directions as the handshakes of the proxy protocols use it (net.Conn,
  io.ReadWriter): what the peer will send before it closes, what was written so far, and how many
  more writes succeed. Steps that may fail are functions from the connection to an error or a
  value, and the connection after it.
\<close>

section \<open>Connections\<close>

record conn =
  c_in :: bytes
  c_out :: bytes
  c_writes :: nat

datatype sock_error = EOF | ShortBuffer | WriteFailed | ErrAuth | AddressNotSupported
  | CommandNotSupported | VersionError | RejectedPassword | NeedAuth
  | VersionMismatched | IPv6NotSupported | ErrRejected | ErrIdentdFailed | ErrIdentdMismatched | UnknownCode
  | BadAddress | ReservedNotZero | Fragmented | ShortPacket | BadHeader | NilAddress

type_synonym 'a io = "conn \<Rightarrow> (sock_error + 'a) \<times> conn"

definition io_return :: "'a \<Rightarrow> 'a io" where
  "io_return x c = (Inr x, c)"

definition io_fail :: "sock_error \<Rightarrow> 'a io" where
  "io_fail e c = (Inl e, c)"

definition and_then :: "'a io \<Rightarrow> ('a \<Rightarrow> 'b io) \<Rightarrow> 'b io" where
  "and_then m f c = (case m c of (Inl e, c') \<Rightarrow> (Inl e, c') | (Inr x, c') \<Rightarrow> f x c')"

text \<open>\<open>io.ReadFull\<close>: nothing is read for an empty buffer; what is left is lost when it is too little.\<close>

definition ReadFull :: "nat \<Rightarrow> bytes io" where
  "ReadFull n c =
     (if length (c_in c) < n then (Inl EOF, c\<lparr>c_in := []\<rparr>)
      else (Inr (take n (c_in c)), c\<lparr>c_in := drop n (c_in c)\<rparr>))"

definition Write :: "bytes \<Rightarrow> unit io" where
  "Write bs c =
     (if c_writes c = 0 then (Inl WriteFailed, c)
      else (Inr (), c\<lparr>c_out := c_out c @ bs, c_writes := c_writes c - 1\<rparr>))"

text \<open>A write whose error is ignored.\<close>

definition Write_ignored :: "bytes \<Rightarrow> unit io" where
  "Write_ignored bs c = (Inr (), snd (Write bs c))"

text \<open>A string is its bytes.\<close>

definition str_bytes :: "string \<Rightarrow> bytes" where
  "str_bytes s = map (\<lambda>c. word_of_nat (of_char c)) s"

definition bytes_str :: "bytes \<Rightarrow> string" where
  "bytes_str bs = map (\<lambda>b. char_of (unat b)) bs"

lemma str_bytes_inverse [simp]: "bytes_str (str_bytes s) = s"
proof -
  show ?thesis by (simp add: bytes_str_def str_bytes_def comp_def unat_byte)
qed

lemma bytes_str_inverse [simp]: "str_bytes (bytes_str bs) = bs"
proof -
  have "word_of_nat (unat b mod 256) = b" for b :: u8
    using unat_bound[of b] by simp
  then show ?thesis by (simp add: bytes_str_def str_bytes_def comp_def of_char_of)
qed

lemma bytes_str_Nil [simp]: "bytes_str [] = ''''" "str_bytes '''' = []"
  by (simp_all add: bytes_str_def str_bytes_def)

lemma length_str_bytes [simp]: "length (str_bytes s) = length s" "length (bytes_str bs) = length bs"
  by (simp_all add: str_bytes_def bytes_str_def)

lemmas io_simps = io_return_def io_fail_def and_then_def

lemma ReadFull_append:
  "length xs = n \<Longrightarrow> ReadFull n \<lparr>c_in = xs @ rest, c_out = out, c_writes = k\<rparr> =
     (Inr xs, \<lparr>c_in = rest, c_out = out, c_writes = k\<rparr>)"
  by (simp add: ReadFull_def)

lemma Write_ok:
  "Write bs \<lparr>c_in = i, c_out = out, c_writes = Suc k\<rparr> = (Inr (), \<lparr>c_in = i, c_out = out @ bs, c_writes = k\<rparr>)"
  by (simp add: Write_def)

section \<open>Formats that can be read back\<close>

text \<open>
  A reader that takes one value off a stream and a writer it inverts. Values of such a format may
  follow each other without a separator.
\<close>

locale wire_format =
  fixes enc :: "'a \<Rightarrow> bytes"
    and dec :: "'a io"
    and wf :: "'a \<Rightarrow> bool"
  assumes dec_enc: "wf x \<Longrightarrow> dec \<lparr>c_in = enc x @ rest, c_out = out, c_writes = k\<rparr> =
    (Inr x, \<lparr>c_in = rest, c_out = out, c_writes = k\<rparr>)"
begin

lemma enc_prefix_free:
  assumes "wf x" "wf y" "enc x @ r = enc y @ r'"
  shows "x = y \<and> r = r'"
proof -
  have "dec \<lparr>c_in = enc y @ r', c_out = [], c_writes = 0\<rparr> = (Inr x, \<lparr>c_in = r, c_out = [], c_writes = 0\<rparr>)"
    using dec_enc[OF assms(1), of r "[]" 0] unfolding assms(3) .
  with dec_enc[OF assms(2), of r' "[]" 0] show ?thesis by simp
qed

primrec dec_many :: "nat \<Rightarrow> 'a list io" where
  "dec_many 0 = io_return []"
| "dec_many (Suc n) = and_then dec (\<lambda>x. and_then (dec_many n) (\<lambda>xs. io_return (x # xs)))"

lemma dec_many_enc:
  "list_all wf xs \<Longrightarrow> dec_many (length xs) \<lparr>c_in = concat (map enc xs) @ rest, c_out = out, c_writes = k\<rparr> =
     (Inr xs, \<lparr>c_in = rest, c_out = out, c_writes = k\<rparr>)"
  by (induction xs) (simp_all add: io_simps dec_enc)

end

end
