(* ===== verification/Socks5.thy ===== *)
theory Socks5 imports ByteConn Metadata begin

text \<open>
  transport/socks5/socks5.go: addresses of RFC 1928 and their text, the UDP packet header, and both
  sides of the handshake, on byte streams; and the authenticator of component/auth/auth.go.
\<close>

section \<open>Addresses\<close>

definition MaxAddrLen :: nat where
  "MaxAddrLen = 1 + 1 + 255 + 2"

definition MaxAuthLen :: nat where
  "MaxAuthLen = 255"

text \<open>The address types, in the order IPv4, domain name, IPv6.\<close>

definition AtypV4 :: u8 where "AtypV4 = 1"
definition AtypName :: u8 where "AtypName = 3"
definition AtypV6 :: u8 where "AtypV6 = 4"

definition CmdConnect :: u8 where "CmdConnect = 1"
definition CmdBind :: u8 where "CmdBind = 2"
definition CmdUDPAssociate :: u8 where "CmdUDPAssociate = 3"

lemmas atyps = AtypV4_def AtypName_def AtypV6_def

text \<open>A slice and an index that panic out of range (the capacity of an address is its length).\<close>

definition slice :: "nat \<Rightarrow> nat \<Rightarrow> bytes \<Rightarrow> bytes option" where
  "slice i j a = (if i \<le> j \<and> j \<le> length a then Some (take (j - i) (drop i a)) else None)"

text \<open>\<open>net.IP.String\<close> of 4 or 16 bytes: an IPv4-mapped address prints as IPv4.\<close>

definition net_ip :: "bytes \<Rightarrow> addr" where
  "net_ip bs = Unmap (AddrFromSlice bs)"

definition host_port :: "string option \<Rightarrow> nat \<Rightarrow> bytes \<Rightarrow> string option" where
  "host_port host i a =
     (case (host, slice i (i + 2) a) of
        (Some h, Some p) \<Rightarrow> Some (JoinHostPort h (Itoa (be_nat p)))
      | _ \<Rightarrow> None)"

definition socks_String :: "bytes \<Rightarrow> string option" where
  "socks_String a =
     (case a of
        [] \<Rightarrow> None
      | t # _ \<Rightarrow>
          if t = AtypName then
            (case a of
               _ # l # _ \<Rightarrow> host_port (map_option bytes_str (slice 2 (2 + unat l) a)) (2 + unat l) a
             | _ \<Rightarrow> None)
          else if t = AtypV4 then
            host_port (map_option (\<lambda>b. addr_String (net_ip b)) (slice 1 5 a)) 5 a
          else if t = AtypV6 then
            host_port (map_option (\<lambda>b. addr_String (net_ip b)) (slice 1 17 a)) 17 a
          else Some (JoinHostPort '''' ''''))"

text \<open>\<open>UDPAddr\<close>: None is a panic, \<open>Some None\<close> the nil address.\<close>

definition ip_port :: "nat \<Rightarrow> bytes \<Rightarrow> (addr \<times> u16) option option" where
  "ip_port n a =
     (case (slice 1 (1 + n) a, slice (1 + n) (1 + n + 2) a) of
        (Some ip, Some p) \<Rightarrow> Some (Some (AddrFromSlice ip, get_be p))
      | _ \<Rightarrow> None)"

definition socks_UDPAddr :: "bytes \<Rightarrow> (addr \<times> u16) option option" where
  "socks_UDPAddr a =
     (case a of
        [] \<Rightarrow> Some None
      | t # _ \<Rightarrow>
          if t = AtypV4 then ip_port 4 a
          else if t = AtypV6 then ip_port 16 a
          else Some None)"

text \<open>\<open>SplitAddr\<close>: the length the first bytes announce, and the address.\<close>

definition addrLen :: "bytes \<Rightarrow> nat option" where
  "addrLen b =
     (case b of
        [] \<Rightarrow> None
      | t # rest \<Rightarrow>
          if t = AtypName then (case rest of [] \<Rightarrow> None | l # _ \<Rightarrow> Some (1 + 1 + unat l + 2))
          else if t = AtypV4 then Some (1 + 4 + 2)
          else if t = AtypV6 then Some (1 + 16 + 2)
          else None)"

definition SplitAddr :: "bytes \<Rightarrow> bytes option" where
  "SplitAddr b =
     (case addrLen b of
        None \<Rightarrow> None
      | Some n \<Rightarrow> if length b < n then None else Some (take n b))"

text \<open>\<open>ReadAddr\<close> with a buffer of the given size, and \<open>ReadAddr0\<close>, which makes its own.\<close>

definition ReadAddr :: "nat \<Rightarrow> bytes io" where
  "ReadAddr blen =
     (if blen < MaxAddrLen then io_fail ShortBuffer
      else and_then (ReadFull 1) (\<lambda>t.
        if hd t = AtypName then
          and_then (ReadFull 1) (\<lambda>l. and_then (ReadFull (unat (hd l) + 2)) (\<lambda>d. io_return (t @ l @ d)))
        else if hd t = AtypV4 then and_then (ReadFull (4 + 2)) (\<lambda>d. io_return (t @ d))
        else if hd t = AtypV6 then and_then (ReadFull (16 + 2)) (\<lambda>d. io_return (t @ d))
        else io_fail AddressNotSupported))"

definition ReadByte :: "u8 io" where
  "ReadByte = and_then (ReadFull 1) (\<lambda>b. io_return (hd b))"

definition ReadAddr0 :: "bytes io" where
  "ReadAddr0 =
     and_then ReadByte (\<lambda>aType.
       if aType = AtypName then
         and_then ReadByte (\<lambda>domainLength.
           and_then (ReadFull (unat domainLength + 2)) (\<lambda>b. io_return ([aType, domainLength] @ b)))
       else if aType = AtypV4 then and_then (ReadFull (4 + 2)) (\<lambda>b. io_return (aType # b))
       else if aType = AtypV6 then and_then (ReadFull (16 + 2)) (\<lambda>b. io_return (aType # b))
       else io_fail AddressNotSupported)"

text \<open>\<open>ParseAddr\<close>.\<close>

definition socks_ParseAddr :: "string \<Rightarrow> bytes option" where
  "socks_ParseAddr s =
     (case SplitHostPort s of
        Inl _ \<Rightarrow> None
      | Inr (host, port) \<Rightarrow>
          (case (case ParseIP host of
                   Some ip \<Rightarrow> Some (if Is4 ip then AtypV4 # AsSlice ip else AtypV6 # AsSlice ip)
                 | None \<Rightarrow>
                     if length host > 255 then None
                     else Some (AtypName # word_of_nat (length host) # str_bytes host)) of
             None \<Rightarrow> None
           | Some addr \<Rightarrow>
               (case ParseUint 16 port of None \<Rightarrow> None | Some portnum \<Rightarrow> Some (addr @ nat_be 2 portnum))))"

text \<open>
  \<open>ParseAddrToSocksAddr\<close> of a \<open>net.Addr\<close>: nil, an IP address (of TCP or UDP) with its port, or an
  address of another kind (or without an IP) that only has a text.
\<close>

datatype std_addr = NilAddr | IPAddr addr nat | OtherAddr string

fun ParseAddrToSocksAddr :: "std_addr \<Rightarrow> bytes option" where
  "ParseAddrToSocksAddr NilAddr = None"
| "ParseAddrToSocksAddr (OtherAddr s) = socks_ParseAddr s"
| "ParseAddrToSocksAddr (IPAddr hostip port) =
     Some (if Is4 (Unmap hostip) then AtypV4 # AsSlice (Unmap hostip) @ nat_be 2 port
           else AtypV6 # AsSlice hostip @ nat_be 2 port)"

text \<open>The copy of an invalid address leaves the 16 bytes zero.\<close>

definition AddrFromStdAddrPort :: "addr \<times> u16 \<Rightarrow> bytes" where
  "AddrFromStdAddrPort ap =
     (case fst ap of
        V4 w \<Rightarrow> AtypV4 # put_be w @ put_be (snd ap)
      | V6 w z \<Rightarrow> AtypV6 # put_be w @ put_be (snd ap)
      | NoAddr \<Rightarrow> AtypV6 # replicate 16 0 @ put_be (snd ap))"

section \<open>UDP packets\<close>

text \<open>The address, the payload and the error.\<close>

definition DecodeUDPPacket :: "bytes \<Rightarrow> bytes option \<times> bytes \<times> sock_error option" where
  "DecodeUDPPacket packet =
     (if length packet < 5 then (None, [], Some ShortPacket)
      else if take 2 packet \<noteq> [0, 0] then (None, [], Some ReservedNotZero)
      else if packet ! 2 \<noteq> 0 then (None, [], Some Fragmented)
      else case SplitAddr (drop 3 packet) of
        None \<Rightarrow> (None, drop 3 packet, Some BadHeader)
      | Some addr \<Rightarrow> (Some addr, drop (3 + length addr) packet, None))"

definition EncodeUDPPacket :: "bytes option \<Rightarrow> bytes \<Rightarrow> sock_error + bytes" where
  "EncodeUDPPacket addr payload =
     (case addr of None \<Rightarrow> Inl NilAddress | Some a \<Rightarrow> Inr ([0, 0, 0] @ a @ payload))"

section \<open>component/auth\<close>

text \<open>An authenticator is its \<open>Verify\<close>; no users give the nil authenticator.\<close>

type_synonym authenticator = "string \<Rightarrow> string \<Rightarrow> bool"

definition AlwaysValid :: authenticator where
  "AlwaysValid user pass = True"

definition NewAuthenticator :: "(string \<times> string) list \<Rightarrow> authenticator option" where
  "NewAuthenticator users =
     (if users = [] then None
      else Some (\<lambda>user pass. map_of (rev users) user = Some pass))"

section \<open>Handshakes\<close>

text \<open>
  The user/password exchange of the server (after it chose the method) gives the user. The result
  of a failed verification is written without looking at the error of the write.
\<close>

definition server_auth :: "authenticator \<Rightarrow> string io" where
  "server_auth verify =
     and_then (Write [5, 2]) (\<lambda>_. and_then (ReadFull 2) (\<lambda>header.
       let userLen = unat (header ! 1) in
       if userLen = 0 then and_then (Write_ignored [1, 1]) (\<lambda>_. io_fail ErrAuth)
       else and_then (ReadFull userLen) (\<lambda>user. and_then (ReadFull 1) (\<lambda>h.
         let passLen = unat (h ! 0) in
         if passLen = 0 then and_then (Write_ignored [1, 1]) (\<lambda>_. io_fail ErrAuth)
         else and_then (ReadFull passLen) (\<lambda>pass.
           if \<not> verify (bytes_str user) (bytes_str pass)
           then and_then (Write_ignored [1, 1]) (\<lambda>_. io_fail ErrAuth)
           else and_then (Write [1, 0]) (\<lambda>_. io_return (bytes_str user)))))))"

text \<open>\<open>localAddr\<close> is the listener's address as \<open>ParseAddrToSocksAddr\<close> gives it.\<close>

definition server_request :: "bytes option \<Rightarrow> string \<Rightarrow> (bytes \<times> u8 \<times> string) io" where
  "server_request localAddr user =
     and_then (ReadFull 3) (\<lambda>buf.
       let command = buf ! 1 in
       and_then (ReadAddr MaxAddrLen) (\<lambda>addr.
         if command = CmdConnect \<or> command = CmdUDPAssociate then
           (case localAddr of
              None \<Rightarrow> io_fail AddressNotSupported
            | Some la \<Rightarrow> and_then (Write ([5, 0, 0] @ la)) (\<lambda>_. io_return (addr, command, user)))
         else io_fail CommandNotSupported))"

definition server_authenticator :: "bytes \<Rightarrow> authenticator option \<Rightarrow> authenticator option" where
  "server_authenticator methods authenticator =
     (if methods = [2] \<and> authenticator = None then Some AlwaysValid else authenticator)"

definition ServerHandshake :: "bytes option \<Rightarrow> authenticator option \<Rightarrow> (bytes \<times> u8 \<times> string) io" where
  "ServerHandshake localAddr authenticator =
     and_then (ReadFull 2) (\<lambda>buf. and_then (ReadFull (unat (buf ! 1))) (\<lambda>methods.
       and_then (case server_authenticator methods authenticator of
                   Some verify \<Rightarrow> server_auth verify
                 | None \<Rightarrow> and_then (Write [5, 0]) (\<lambda>_. io_return ''''))
         (server_request localAddr)))"

text \<open>The client; a user name or password is preceded by its length as one byte, whatever it is.\<close>

definition auth_message :: "string \<times> string \<Rightarrow> bytes" where
  "auth_message u =
     [1, word_of_nat (length (fst u))] @ str_bytes (fst u) @
     [word_of_nat (length (snd u))] @ str_bytes (snd u)"

definition client_auth :: "(string \<times> string) option \<Rightarrow> u8 \<Rightarrow> unit io" where
  "client_auth user meth =
     (if meth = 2 then
        (case user of
           None \<Rightarrow> io_fail ErrAuth
         | Some u \<Rightarrow>
             and_then (Write (auth_message u)) (\<lambda>_. and_then (ReadFull 2) (\<lambda>buf.
               if buf ! 1 \<noteq> 0 then io_fail RejectedPassword else io_return ())))
      else if meth \<noteq> 0 then io_fail NeedAuth
      else io_return ())"

definition ClientHandshake :: "bytes \<Rightarrow> u8 \<Rightarrow> (string \<times> string) option \<Rightarrow> bytes io" where
  "ClientHandshake addr command user =
     and_then (Write (if user \<noteq> None then [5, 1, 2] else [5, 1, 0])) (\<lambda>_.
       and_then (ReadFull 2) (\<lambda>buf.
         if buf ! 0 \<noteq> 5 then io_fail VersionError
         else and_then (client_auth user (buf ! 1)) (\<lambda>_.
           and_then (Write ([5, command, 0] @ addr)) (\<lambda>_.
             and_then (ReadFull 3) (\<lambda>_. ReadAddr MaxAddrLen)))))"

section \<open>Reading addresses\<close>

definition wf_addr :: "bytes \<Rightarrow> bool" where
  "wf_addr a \<longleftrightarrow> SplitAddr a = Some a"

lemma SplitAddr_some:
  assumes "SplitAddr b = Some a"
  shows "\<exists>rest. b = a @ rest" and "wf_addr a" and "4 \<le> length a" and "length a \<le> MaxAddrLen"
proof -
  obtain n where n: "a = take n b" "n \<le> length b"
    using assms by (auto simp: SplitAddr_def split: option.splits if_splits)
  then show "\<exists>rest. b = a @ rest" by (metis append_take_drop_id)
  show "wf_addr a" using assms
    by (auto simp: wf_addr_def SplitAddr_def addrLen_def atyps split: list.splits if_splits)
  have "unat w \<le> 255" for w :: u8 using unat_bound[of w] by simp
  then show "4 \<le> length a" "length a \<le> MaxAddrLen" using assms
    by (auto simp: SplitAddr_def addrLen_def MaxAddrLen_def atyps split: list.splits if_splits)
qed

lemma SplitAddr_append: "wf_addr a \<Longrightarrow> SplitAddr (a @ rest) = Some a"
  by (auto simp: wf_addr_def SplitAddr_def addrLen_def atyps split: list.splits if_splits)

lemma ReadAddr_SplitAddr:
  "fst (ReadAddr MaxAddrLen c) = Inr a \<longleftrightarrow> SplitAddr (c_in c) = Some a"
  "fst (ReadAddr MaxAddrLen c) = Inr a \<Longrightarrow> snd (ReadAddr MaxAddrLen c) = c\<lparr>c_in := drop (length a) (c_in c)\<rparr>"
  by (cases "c_in c"; cases "tl (c_in c)"; auto simp: ReadAddr_def SplitAddr_def addrLen_def io_simps ReadFull_def atyps)+

lemma ReadAddr0_eq: "ReadAddr0 = ReadAddr MaxAddrLen"
proof
  fix c show "ReadAddr0 c = ReadAddr MaxAddrLen c"
    by (cases "c_in c"; cases "tl (c_in c)"; simp add: ReadAddr_def ReadAddr0_def ReadByte_def io_simps ReadFull_def)
qed

lemma ReadAddr_append:
  assumes "wf_addr a"
  shows "ReadAddr MaxAddrLen \<lparr>c_in = a @ rest, c_out = out, c_writes = k\<rparr> =
    (Inr a, \<lparr>c_in = rest, c_out = out, c_writes = k\<rparr>)"
proof -
  let ?c = "\<lparr>c_in = a @ rest, c_out = out, c_writes = k\<rparr>"
  have f: "fst (ReadAddr MaxAddrLen ?c) = Inr a"
    using ReadAddr_SplitAddr(1)[of ?c a] SplitAddr_append[OF assms, of rest] by simp
  moreover have "snd (ReadAddr MaxAddrLen ?c) = \<lparr>c_in = rest, c_out = out, c_writes = k\<rparr>"
    using ReadAddr_SplitAddr(2)[OF f] by simp
  ultimately show ?thesis by (metis prod.collapse)
qed

interpretation socks_addr: wire_format "\<lambda>a. a" "ReadAddr MaxAddrLen" wf_addr
  by unfold_locales (rule ReadAddr_append)

interpretation socks_addr0: wire_format "\<lambda>a. a" ReadAddr0 wf_addr
  by unfold_locales (simp add: ReadAddr0_eq ReadAddr_append)

section \<open>Addresses and their text\<close>

lemma wf_AddrFromStdAddrPort: "wf_addr (AddrFromStdAddrPort ap)"
  by (cases ap; cases "fst ap") (simp_all add: wf_addr_def SplitAddr_def addrLen_def AddrFromStdAddrPort_def atyps)

lemma UDPAddr_AddrFromStdAddrPort:
  "IsValid a \<Longrightarrow> socks_UDPAddr (AddrFromStdAddrPort (a, p)) = Some (Some (WithZone a '''', p))"
  by (cases a) (simp_all add: socks_UDPAddr_def AddrFromStdAddrPort_def ip_port_def slice_def atyps IsValid_def
      get_put_be)

lemma wf_name: "length h \<le> 255 \<Longrightarrow> length p = 2 \<Longrightarrow> wf_addr (AtypName # word_of_nat (length h) # str_bytes h @ p)"
  by (simp add: wf_addr_def SplitAddr_def addrLen_def atyps unat_of_nat)

lemma wf_ip: "length p = 2 \<Longrightarrow> (t = AtypV4 \<and> length ip = 4) \<or> (t = AtypV6 \<and> length ip = 16) \<Longrightarrow> wf_addr (t # ip @ p)"
  by (auto simp: wf_addr_def SplitAddr_def addrLen_def atyps)

lemma ParseIP_valid: "ParseIP s = Some ip \<Longrightarrow> IsValid ip"
  by (auto simp: ParseIP_def ParseAddr_def parseIPv6_def IsValid_def Let_def split: option.splits if_splits)

lemma wf_socks_ParseAddr: "socks_ParseAddr s = Some a \<Longrightarrow> wf_addr a"
proof -
  assume "socks_ParseAddr s = Some a"
  then obtain host port n where h: "SplitHostPort s = Inr (host, port)" "ParseUint 16 port = Some n"
    and a: "(\<exists>ip. ParseIP host = Some ip \<and> a = (if Is4 ip then AtypV4 else AtypV6) # AsSlice ip @ nat_be 2 n) \<or>
      (length host \<le> 255 \<and> a = AtypName # word_of_nat (length host) # str_bytes host @ nat_be 2 n)"
    by (auto simp: socks_ParseAddr_def split: sum.splits option.splits if_splits)
  from a show "wf_addr a"
  proof
    assume "\<exists>ip. ParseIP host = Some ip \<and> a = (if Is4 ip then AtypV4 else AtypV6) # AsSlice ip @ nat_be 2 n"
    then obtain ip where ip: "ParseIP host = Some ip" "a = (if Is4 ip then AtypV4 else AtypV6) # AsSlice ip @ nat_be 2 n"
      by blast
    from ParseIP_valid[OF ip(1)] ip(2) show ?thesis
      by (cases ip) (auto simp: IsValid_def length_AsSlice intro!: wf_ip)
  qed (auto intro: wf_name)
qed

end
