(* ===== verification/SocksProps.thy ===== *)
theory SocksProps imports Socks5 begin

text \<open>
  What the SOCKS5 code promises: its address readers agree, UDP packets and texts can be read back, the
  two sides of the handshake understand each other, and a server with an authenticator lets nobody
  pass whom it refuses. With the length byte that truncates long user names.
\<close>

section \<open>UDP packets\<close>

lemma Decode_Encode:
  assumes "wf_addr a"
  shows "DecodeUDPPacket ([0, 0, 0] @ a @ payload) = (Some a, payload, None)"
proof -
  have "4 \<le> length a" using SplitAddr_some(3) assms by (auto simp: wf_addr_def)
  with SplitAddr_append[OF assms, of payload] show ?thesis
    by (simp add: DecodeUDPPacket_def numeral_3_eq_3)
qed

lemma Encode_Decode:
  assumes "DecodeUDPPacket pkt = (Some a, payload, None)"
  shows "pkt = [0, 0, 0] @ a @ payload \<and> wf_addr a"
proof -
  have d: "length pkt \<ge> 5" "take 2 pkt = [0, 0]" "pkt ! 2 = 0" "SplitAddr (drop 3 pkt) = Some a"
    "payload = drop (3 + length a) pkt"
    using assms by (auto simp: DecodeUDPPacket_def split: if_splits option.splits)
  from SplitAddr_some(1,2)[OF d(4)] obtain rest where r: "drop 3 pkt = a @ rest" "wf_addr a" by blast
  have "take 3 pkt = [0, 0, 0]"
    using d(1-3) take_Suc_snoc[of 2 pkt] by (simp add: numeral_3_eq_3 numeral_2_eq_2)
  then have "pkt = [0, 0, 0] @ a @ rest" using r(1) append_take_drop_id[of 3 pkt] by simp
  with d(5) r(2) show ?thesis by (simp add: numeral_3_eq_3)
qed

section \<open>Texts\<close>

lemma Itoa_rec: "n \<ge> 10 \<Longrightarrow> Itoa n = Itoa (n div 10) @ [digit_char (n mod 10)]"
  by (subst Itoa.simps) simp

lemma digit_char_0: "digit_char d = CHR ''0'' \<Longrightarrow> d < 10 \<Longrightarrow> d = 0"
  using byte_val_digit_char[of d] by (auto simp: byte_val_def)

lemma hd_Itoa: "n > 0 \<Longrightarrow> hd (Itoa n) \<noteq> CHR ''0''"
proof (induction n rule: Itoa.induct)
  case (1 n)
  show ?case
  proof (cases "n < 10")
    case True
    with 1 digit_char_0[of n] show ?thesis by (subst Itoa.simps) auto
  next
    case False
    with 1 show ?thesis by (subst Itoa.simps) (simp add: hd_append)
  qed
qed

lemma parseIPv4Field_Itoa: "n \<le> 255 \<Longrightarrow> parseIPv4Field (Itoa n) = Some n"
  using hd_Itoa[of n] digits_val_Itoa[of n]
  by (cases "n = 0") (simp_all add: parseIPv4Field_def, simp add: Itoa.simps)

lemma all_some_Some: "all_some (map (\<lambda>x. Some (f x)) xs) = Some (map f xs)"
  by (induction xs) simp_all

lemma Itoa_no: "CHR ''.'' \<notin> set (Itoa n)" "CHR '':'' \<notin> set (Itoa n)" "CHR ''%'' \<notin> set (Itoa n)"
  "CHR ''['' \<notin> set (Itoa n)" "CHR '']'' \<notin> set (Itoa n)"
  by (rule Itoa_notin; simp add: byte_val_def)+

lemma parse_v4_fields:
  assumes "length bs = 4"
  shows "parseIPv4Fields (Join (map (\<lambda>b. Itoa (unat b)) bs) ''.'') = Some bs"
proof -
  have s: "Split (Join (map (\<lambda>b. Itoa (unat b)) bs) ''.'') CHR ''.'' = map (\<lambda>b. Itoa (unat b)) bs"
    by (rule Split_Join) (use assms Itoa_no in auto)
  have u: "unat b \<le> 255" for b :: u8 using unat_bound[of b] by simp
  have m: "map (\<lambda>b. parseIPv4Field (Itoa (unat b))) bs = map (\<lambda>b. Some (unat b)) bs"
    by (simp add: parseIPv4Field_Itoa u)
  show ?thesis using assms by (simp add: parseIPv4Fields_def s comp_def m all_some_Some)
qed

lemma ParseAddr_v4_string: "ParseAddr (v4_string w) = Some (V4 w)"
proof -
  obtain a bs where p: "put_be w = a # bs" "length bs = 3" using length_put_be[of w]
    by (cases "put_be w") auto
  then obtain b bs' where b: "bs = b # bs'" by (cases bs) auto
  have e: "v4_string w = Itoa (unat a) @ CHR ''.'' # Join (map (\<lambda>b. Itoa (unat b)) bs) ''.''"
    by (simp add: v4_string_def p(1) b)
  have "find (\<lambda>c. c = CHR ''.'' \<or> c = CHR '':'' \<or> c = CHR ''%'') (xs @ CHR ''.'' # ys) = Some CHR ''.''"
    if "CHR ''.'' \<notin> set xs" "CHR '':'' \<notin> set xs" "CHR ''%'' \<notin> set xs" for xs ys
    using that by (induction xs) auto
  then have f: "find (\<lambda>c. c = CHR ''.'' \<or> c = CHR '':'' \<or> c = CHR ''%'') (v4_string w) = Some CHR ''.''"
    unfolding e using Itoa_no by blast
  have "parseIPv4Fields (v4_string w) = Some (put_be w)"
    unfolding v4_string_def by (rule parse_v4_fields) simp
  with f show ?thesis by (simp add: ParseAddr_def get_put_be)
qed

lemma first_index_take: "first_index c s = Some e \<Longrightarrow> c \<notin> set (take e s)"
  by (auto simp: first_index_def takeWhile_eq_take[symmetric] dest: set_takeWhileD split: if_splits)

lemma SplitHostPort_no_bracket:
  assumes "SplitHostPort s = Inr (h, p)"
  shows "CHR ''['' \<notin> set h \<and> CHR '']'' \<notin> set h"
proof -
  obtain i where i: "last_index CHR '':'' s = Some i"
    using assms by (auto simp: SplitHostPort_def split: option.splits)
  show ?thesis
  proof (cases "s \<noteq> [] \<and> hd s = CHR ''[''")
    case True
    then obtain e where e: "first_index CHR '']'' s = Some e" "CHR ''['' \<notin> set (drop 1 s)"
      "h = take (e - 1) (drop 1 s)"
      using assms i by (auto simp: SplitHostPort_def split: option.splits if_splits)
    have "CHR ''['' \<notin> set h" using e(2,3) in_set_takeD by metis
    moreover have "CHR '']'' \<notin> set h"
    proof -
      have "h = drop 1 (take e s)" using e(3) by (simp add: drop_take)
      with first_index_take[OF e(1)] show ?thesis by (auto dest: in_set_dropD)
    qed
    ultimately show ?thesis by blast
  next
    case False
    then have "h = take i s" "CHR ''['' \<notin> set s" "CHR '']'' \<notin> set s"
      using assms i by (auto simp: SplitHostPort_def Let_def split: option.splits if_splits)
    then show ?thesis by (auto dest: in_set_takeD)
  qed
qed

lemma last_index_append: "c \<notin> set p \<Longrightarrow> last_index c (h @ c # p) = Some (length h)"
  by (auto simp: last_index_def takeWhile_append)

lemma first_index_append: "c \<notin> set h \<Longrightarrow> first_index c (h @ c # p) = Some (length h)"
  by (auto simp: first_index_def takeWhile_append)

lemma SplitHostPort_Join:
  assumes "CHR ''['' \<notin> set h" "CHR '']'' \<notin> set h" "CHR '':'' \<notin> set p" "CHR ''['' \<notin> set p" "CHR '']'' \<notin> set p"
  shows "SplitHostPort (JoinHostPort h p) = Inr (h, p)"
proof (cases "CHR '':'' \<in> set h")
  case True
  let ?s = "CHR ''['' # h @ CHR '']'' # CHR '':'' # p"
  have "last_index CHR '':'' ?s = Some (length h + 2)"
    using last_index_append[OF assms(3), of "CHR ''['' # h @ [CHR '']'']"] by simp
  moreover have "first_index CHR '']'' ?s = Some (length h + 1)"
    using first_index_append[of "CHR '']''" "CHR ''['' # h" "CHR '':'' # p"] assms(2) by simp
  ultimately show ?thesis using True assms by (simp add: JoinHostPort_def SplitHostPort_def)
next
  case False
  have "last_index CHR '':'' (h @ CHR '':'' # p) = Some (length h)" by (rule last_index_append[OF assms(3)])
  moreover have "\<not> (h @ CHR '':'' # p \<noteq> [] \<and> hd (h @ CHR '':'' # p) = CHR ''['')"
    using assms(1) by (cases h) auto
  ultimately show ?thesis using False assms by (simp add: JoinHostPort_def SplitHostPort_def Let_def)
qed

lemma ParseUint_less: "ParseUint b s = Some n \<Longrightarrow> n < 2 ^ b"
  by (auto simp: ParseUint_def split: if_splits option.splits)

lemma be_nat_2: "n < 65536 \<Longrightarrow> be_nat (nat_be 2 n) = n"
  by (simp add: be_nat_nat_be)

text \<open>An address of type IPv4 or name prints to a text that parses to itself.\<close>

lemma name_text:
  assumes "length h \<le> 255" "n < 65536"
  shows "socks_String (AtypName # word_of_nat (length h) # str_bytes h @ nat_be 2 n) = Some (JoinHostPort h (Itoa n))"
  using assms by (simp add: socks_String_def host_port_def slice_def unat_of_nat be_nat_2)

lemma v4_text:
  assumes "n < 65536"
  shows "socks_String (AtypV4 # put_be w @ nat_be 2 n) = Some (JoinHostPort (v4_string w) (Itoa n))"
  using assms by (simp add: socks_String_def host_port_def slice_def be_nat_2 net_ip_def get_put_be atyps)

lemma text_roundtrip:
  assumes "socks_ParseAddr s = Some a" and "hd a \<noteq> AtypV6"
  shows "\<exists>t. socks_String a = Some t \<and> socks_ParseAddr t = Some a"
proof -
  obtain host port n where h: "SplitHostPort s = Inr (host, port)" "ParseUint 16 port = Some n"
    and a: "(\<exists>ip. ParseIP host = Some ip \<and> a = (if Is4 ip then AtypV4 else AtypV6) # AsSlice ip @ nat_be 2 n) \<or>
      (ParseIP host = None \<and> length host \<le> 255 \<and> a = AtypName # word_of_nat (length host) # str_bytes host @ nat_be 2 n)"
    using assms(1) by (auto simp: socks_ParseAddr_def split: sum.splits option.splits if_splits)
  have n: "n < 65536" using ParseUint_less[OF h(2)] by simp
  have port: "ParseUint 16 (Itoa n) = Some n" using ParseUint_Itoa[of n 16] n by simp
  have split: "SplitHostPort (JoinHostPort g (Itoa n)) = Inr (g, Itoa n)"
    if "CHR ''['' \<notin> set g" "CHR '']'' \<notin> set g" for g
    by (rule SplitHostPort_Join) (use that Itoa_no in auto)
  from a show ?thesis
  proof
    assume "\<exists>ip. ParseIP host = Some ip \<and> a = (if Is4 ip then AtypV4 else AtypV6) # AsSlice ip @ nat_be 2 n"
    then obtain ip where "a = (if Is4 ip then AtypV4 else AtypV6) # AsSlice ip @ nat_be 2 n" by blast
    with assms(2) obtain w :: u32 where w: "a = AtypV4 # put_be w @ nat_be 2 n" by (cases ip) auto
    have "set (v4_string w) \<subseteq> \<Union> (set ` set (map (\<lambda>b. Itoa (unat b)) (put_be w))) \<union> {CHR ''.''}"
      using set_Join[of "map (\<lambda>b. Itoa (unat b)) (put_be w)" "''.''"] by (simp add: v4_string_def)
    then have "CHR ''['' \<notin> set (v4_string w)" "CHR '']'' \<notin> set (v4_string w)" using Itoa_no by fastforce+
    from split[OF this] port w n show ?thesis
      by (simp add: v4_text socks_ParseAddr_def ParseIP_def ParseAddr_v4_string)
  next
    assume d: "ParseIP host = None \<and> length host \<le> 255 \<and> a = AtypName # word_of_nat (length host) # str_bytes host @ nat_be 2 n"
    from split SplitHostPort_no_bracket[OF h(1)] have "SplitHostPort (JoinHostPort host (Itoa n)) = Inr (host, Itoa n)"
      by blast
    with d port n show ?thesis by (simp add: name_text socks_ParseAddr_def)
  qed
qed

section \<open>Handshakes\<close>

text \<open>What the two sides send each other when both authenticate or when neither does.\<close>

definition client_bytes :: "bytes \<Rightarrow> u8 \<Rightarrow> (string \<times> string) option \<Rightarrow> bytes" where
  "client_bytes addr command user =
     (case user of None \<Rightarrow> [5, 1, 0] | Some u \<Rightarrow> [5, 1, 2] @ auth_message u) @ [5, command, 0] @ addr"

definition server_bytes :: "(string \<times> string) option \<Rightarrow> bytes \<Rightarrow> bytes" where
  "server_bytes user la = (case user of None \<Rightarrow> [5, 0] | Some u \<Rightarrow> [5, 2, 1, 0]) @ [5, 0, 0] @ la"

definition good_user :: "authenticator option \<Rightarrow> (string \<times> string) option \<Rightarrow> bool" where
  "good_user verify user \<longleftrightarrow>
     (case user of
        None \<Rightarrow> verify = None
      | Some (name, pass) \<Rightarrow> 0 < length name \<and> length name \<le> 255 \<and> 0 < length pass \<and> length pass \<le> 255 \<and>
          (case verify of None \<Rightarrow> True | Some v \<Rightarrow> v name pass))"

lemma ReadFull_1: "ReadFull 1 \<lparr>c_in = b # rest, c_out = out, c_writes = k\<rparr> =
    (Inr [b], \<lparr>c_in = rest, c_out = out, c_writes = k\<rparr>)"
  by (simp add: ReadFull_def)

lemma ReadFull_Suc0: "ReadFull (Suc 0) \<lparr>c_in = b # rest, c_out = out, c_writes = k\<rparr> =
    (Inr [b], \<lparr>c_in = rest, c_out = out, c_writes = k\<rparr>)"
  by (simp add: ReadFull_def)

lemma ReadFull_2: "ReadFull 2 \<lparr>c_in = a # b # rest, c_out = out, c_writes = k\<rparr> =
    (Inr [a, b], \<lparr>c_in = rest, c_out = out, c_writes = k\<rparr>)"
  by (simp add: ReadFull_def numeral_2_eq_2)

lemma ReadFull_3: "ReadFull 3 \<lparr>c_in = a # b # c # rest, c_out = out, c_writes = k\<rparr> =
    (Inr [a, b, c], \<lparr>c_in = rest, c_out = out, c_writes = k\<rparr>)"
  by (simp add: ReadFull_def numeral_3_eq_3)

lemmas read_simps = ReadFull_1 ReadFull_Suc0 ReadFull_2 ReadFull_3 Write_ok io_simps Let_def

lemma server_auth_good:
  assumes "0 < length name" "length name \<le> 255" "0 < length pass" "length pass \<le> 255" "verify name pass"
  shows "server_auth verify \<lparr>c_in = auth_message (name, pass) @ rest, c_out = out, c_writes = Suc (Suc k)\<rparr> =
    (Inr name, \<lparr>c_in = rest, c_out = out @ [5, 2, 1, 0], c_writes = k\<rparr>)"
proof -
  have u: "ReadFull (length name) \<lparr>c_in = str_bytes name @ r, c_out = o', c_writes = j\<rparr> =
      (Inr (str_bytes name), \<lparr>c_in = r, c_out = o', c_writes = j\<rparr>)" for r o' j
    by (rule ReadFull_append) simp
  have p: "ReadFull (length pass) \<lparr>c_in = str_bytes pass @ r, c_out = o', c_writes = j\<rparr> =
      (Inr (str_bytes pass), \<lparr>c_in = r, c_out = o', c_writes = j\<rparr>)" for r o' j
    by (rule ReadFull_append) simp
  have n: "length name mod 256 = length name" "length pass mod 256 = length pass" using assms by simp_all
  show ?thesis using assms
    by (simp add: server_auth_def auth_message_def read_simps unat_byte n u p)
qed

lemma server_request_good:
  assumes "wf_addr addr" "command = CmdConnect \<or> command = CmdUDPAssociate"
  shows "server_request (Some la) user \<lparr>c_in = [5, command, 0] @ addr @ rest, c_out = out, c_writes = Suc k\<rparr> =
    (Inr (addr, command, user), \<lparr>c_in = rest, c_out = out @ [5, 0, 0] @ la, c_writes = k\<rparr>)"
  using assms by (simp add: server_request_def read_simps ReadAddr_append)

lemma server_good:
  assumes "wf_addr addr" "command = CmdConnect \<or> command = CmdUDPAssociate" "good_user verify user"
  shows "ServerHandshake (Some la) verify
      \<lparr>c_in = client_bytes addr command user @ rest, c_out = [], c_writes = 3 + k\<rparr> =
    (Inr (addr, command, case user of None \<Rightarrow> '''' | Some u \<Rightarrow> fst u),
     \<lparr>c_in = rest, c_out = server_bytes user la, c_writes = (if user = None then k + 1 else k)\<rparr>)"
proof (cases user)
  case None
  with assms(3) have v: "verify = None" by (simp add: good_user_def)
  have "server_request (Some la) '''' \<lparr>c_in = [5, command, 0] @ addr @ rest, c_out = [5, 0], c_writes = Suc (Suc k)\<rparr> =
    (Inr (addr, command, ''''), \<lparr>c_in = rest, c_out = [5, 0] @ [5, 0, 0] @ la, c_writes = Suc k\<rparr>)"
    by (rule server_request_good[OF assms(1,2)])
  with None v show ?thesis
    by (simp add: ServerHandshake_def client_bytes_def server_bytes_def read_simps server_authenticator_def
        numeral_3_eq_3)
next
  case (Some u)
  obtain name pass where u: "u = (name, pass)" by (cases u)
  have g: "0 < length name" "length name \<le> 255" "0 < length pass" "length pass \<le> 255"
    using assms(3) Some u by (simp_all add: good_user_def)
  obtain v where v: "server_authenticator [2] verify = Some v" "v name pass"
    using assms(3) Some u by (cases verify) (auto simp: good_user_def server_authenticator_def AlwaysValid_def)
  have a: "server_auth v \<lparr>c_in = auth_message (name, pass) @ [5, command, 0] @ addr @ rest, c_out = [], c_writes = Suc (Suc (Suc k))\<rparr> =
    (Inr name, \<lparr>c_in = [5, command, 0] @ addr @ rest, c_out = [] @ [5, 2, 1, 0], c_writes = Suc k\<rparr>)"
    by (rule server_auth_good[where verify = v, OF g v(2)])
  have r: "server_request (Some la) name \<lparr>c_in = [5, command, 0] @ addr @ rest, c_out = [] @ [5, 2, 1, 0], c_writes = Suc k\<rparr> =
    (Inr (addr, command, name), \<lparr>c_in = rest, c_out = ([] @ [5, 2, 1, 0]) @ [5, 0, 0] @ la, c_writes = k\<rparr>)"
    by (rule server_request_good[OF assms(1,2)])
  show ?thesis using a r v(1) Some u
    by (simp add: ServerHandshake_def client_bytes_def server_bytes_def read_simps numeral_3_eq_3)
qed

lemma client_good:
  assumes "wf_addr la"
  shows "ClientHandshake addr command user \<lparr>c_in = server_bytes user la @ rest, c_out = [], c_writes = 3 + k\<rparr> =
    (Inr la, \<lparr>c_in = rest, c_out = client_bytes addr command user, c_writes = (if user = None then k + 1 else k)\<rparr>)"
proof -
  have e: "3 + k = Suc (Suc (Suc k))" by simp
  show ?thesis unfolding e using ReadAddr_append[OF assms]
    by (cases user) (simp_all add: ClientHandshake_def client_auth_def client_bytes_def server_bytes_def read_simps)
qed

section \<open>Who gets in\<close>

lemma and_then_Inr:
  "and_then m f c = (Inr y, c') \<longleftrightarrow> (\<exists>x c1. m c = (Inr x, c1) \<and> f x c1 = (Inr y, c'))"
  by (auto simp: and_then_def split: prod.splits sum.splits)

lemma ReadFull_Inr: "ReadFull n c = (Inr xs, c') \<Longrightarrow> length xs = n \<and> c_in c = xs @ c_in c'"
  by (auto simp: ReadFull_def split: if_splits)

lemma Write_Inr: "Write bs c = (Inr u, c') \<Longrightarrow> c_in c' = c_in c"
  by (auto simp: Write_def split: if_splits)

lemma ReadAddr_Inr:
  assumes "ReadAddr MaxAddrLen c = (Inr a, c')"
  shows "wf_addr a \<and> c_in c = a @ c_in c'"
proof -
  have f: "fst (ReadAddr MaxAddrLen c) = Inr a" using assms by simp
  then have s: "SplitAddr (c_in c) = Some a" using ReadAddr_SplitAddr(1) by blast
  then obtain rest where "c_in c = a @ rest" using SplitAddr_some(1) by blast
  then show ?thesis using ReadAddr_SplitAddr(2)[OF f] SplitAddr_some(2)[OF s] assms by simp
qed

lemma length_1_nth: "length xs = Suc 0 \<Longrightarrow> xs = [xs ! 0]"
  by (cases xs) auto

lemma length_2_nth: "length xs = 2 \<Longrightarrow> xs = [xs ! 0, xs ! 1]"
  by (auto simp: numeral_2_eq_2 length_Suc_conv)

lemma length_3_nth: "length xs = 3 \<Longrightarrow> xs = [xs ! 0, xs ! 1, xs ! 2]"
  by (auto simp: numeral_3_eq_3 numeral_2_eq_2 length_Suc_conv)

text \<open>The bytes that a user name and a password take up in what the peer sends.\<close>

definition credentials :: "u8 \<Rightarrow> string \<Rightarrow> string \<Rightarrow> bytes" where
  "credentials v user pass =
     [v, word_of_nat (length user)] @ str_bytes user @ [word_of_nat (length pass)] @ str_bytes pass"

lemma server_auth_verified:
  assumes "server_auth verify c = (Inr user, c')"
  shows "\<exists>v pass. verify user pass \<and> user \<noteq> '''' \<and> pass \<noteq> '''' \<and> c_in c = credentials v user pass @ c_in c'"
proof -
  from assms obtain c1 header c2 ub c3 h c4 pb c5 where
    1: "Write [5, 2] c = (Inr (), c1)" and 2: "ReadFull 2 c1 = (Inr header, c2)" and
    3: "unat (header ! 1) \<noteq> 0" "ReadFull (unat (header ! 1)) c2 = (Inr ub, c3)" and 4: "ReadFull 1 c3 = (Inr h, c4)" and
    5: "unat (h ! 0) \<noteq> 0" "ReadFull (unat (h ! 0)) c4 = (Inr pb, c5)" and
    6: "verify (bytes_str ub) (bytes_str pb)" "Write [1, 0] c5 = (Inr (), c')" "user = bytes_str ub"
    by (auto simp: server_auth_def and_then_Inr Let_def io_fail_def io_return_def split: if_splits)
  note R = ReadFull_Inr[OF 2] ReadFull_Inr[OF 3(2)] ReadFull_Inr[OF 4] ReadFull_Inr[OF 5(2)]
  have "header = [header ! 0, header ! 1]" by (rule length_2_nth) (use R in simp)
  moreover have "h = [h ! 0]" by (rule length_1_nth) (use R in simp)
  moreover have "c_in c = header @ ub @ h @ pb @ c_in c'"
    using R Write_Inr[OF 1] Write_Inr[OF 6(2)] by simp
  moreover have "word_of_nat (length user) = header ! 1" "word_of_nat (length (bytes_str pb)) = h ! 0"
    using R 6(3) by simp_all
  ultimately have "c_in c = credentials (header ! 0) user (bytes_str pb) @ c_in c'"
    unfolding credentials_def 6(3) bytes_str_inverse by (metis append_Cons append_Nil append_assoc)
  moreover have "length user \<noteq> 0" "length (bytes_str pb) \<noteq> 0" using R 3(1) 5(1) 6(3) by simp_all
  then have "user \<noteq> ''''" "bytes_str pb \<noteq> ''''" by (metis list.size(3))+
  ultimately show ?thesis using 6 by blast
qed

lemma server_request_commands:
  assumes "server_request la user c = (Inr (addr, command, user'), c')"
  shows "user' = user \<and> wf_addr addr \<and> la \<noteq> None \<and> (command = CmdConnect \<or> command = CmdUDPAssociate) \<and>
    (\<exists>v rsv. c_in c = [v, command, rsv] @ addr @ c_in c')"
proof -
  from assms obtain buf c1 c2 la' where
    1: "ReadFull 3 c = (Inr buf, c1)" "command = buf ! 1" and 2: "ReadAddr MaxAddrLen c1 = (Inr addr, c2)" and
    3: "command = CmdConnect \<or> command = CmdUDPAssociate" "la = Some la'" "Write ([5, 0, 0] @ la') c2 = (Inr (), c')" "user' = user"
    by (auto simp: server_request_def and_then_Inr Let_def io_fail_def io_return_def split: if_splits option.splits)
  have "buf = [buf ! 0, command, buf ! 2]" unfolding 1(2) by (rule length_3_nth) (use ReadFull_Inr[OF 1(1)] in simp)
  then show ?thesis
    using ReadFull_Inr[OF 1(1)] ReadAddr_Inr[OF 2] Write_Inr[OF 3(3)] 3 by (metis append_assoc option.distinct(1))
qed

lemma server_only_verified:
  assumes "ServerHandshake la (Some verify) c = (Inr (addr, command, user), c')"
  shows "wf_addr addr \<and> la \<noteq> None \<and> (command = CmdConnect \<or> command = CmdUDPAssociate) \<and>
    (\<exists>ver n methods v pass ver' rsv. verify user pass \<and> user \<noteq> '''' \<and> pass \<noteq> '''' \<and> length methods = unat n \<and>
      c_in c = [ver, n] @ methods @ credentials v user pass @ [ver', command, rsv] @ addr @ c_in c')"
proof -
  from assms obtain buf c1 methods c2 c3 user' where
    1: "ReadFull 2 c = (Inr buf, c1)" and 2: "ReadFull (unat (buf ! 1)) c1 = (Inr methods, c2)" and
    3: "server_auth verify c2 = (Inr user', c3)" and 4: "server_request la user' c3 = (Inr (addr, command, user), c')"
    by (auto simp: ServerHandshake_def and_then_Inr server_authenticator_def)
  note Q = server_request_commands[OF 4]
  from server_auth_verified[OF 3] Q obtain v pass where
    v: "verify user pass" "user \<noteq> ''''" "pass \<noteq> ''''" "c_in c2 = credentials v user pass @ c_in c3" by auto
  from Q obtain ver' rsv where "c_in c3 = [ver', command, rsv] @ addr @ c_in c'" by blast
  moreover have "buf = [buf ! 0, buf ! 1]" using ReadFull_Inr[OF 1] length_2_nth by blast
  ultimately have "c_in c = [buf ! 0, buf ! 1] @ methods @ credentials v user pass @ [ver', command, rsv] @ addr @ c_in c'"
    using ReadFull_Inr[OF 1] ReadFull_Inr[OF 2] v(4) by metis
  with v Q ReadFull_Inr[OF 2] show ?thesis by blast
qed

section \<open>Properties\<close>

text \<open>
  The three readers of an address agree. \<open>ReadAddr\<close> and \<open>ReadAddr0\<close> take from a stream exactly the
  address \<open>SplitAddr\<close> finds at the beginning of what the stream holds, leave the rest, and fail when it finds none.
\<close>

theorem socks_readers_agree:
  "ReadAddr0 c = ReadAddr MaxAddrLen c \<and>
   (case SplitAddr (c_in c) of
      Some a \<Rightarrow> ReadAddr MaxAddrLen c = (Inr a, c\<lparr>c_in := drop (length a) (c_in c)\<rparr>)
    | None \<Rightarrow> \<exists>e c'. ReadAddr MaxAddrLen c = (Inl e, c'))"
proof (cases "SplitAddr (c_in c)")
  case None
  then have "fst (ReadAddr MaxAddrLen c) \<noteq> Inr a" for a using ReadAddr_SplitAddr(1)[of c a] by simp
  then show ?thesis using None by (cases "ReadAddr MaxAddrLen c"; cases "fst (ReadAddr MaxAddrLen c)")
      (auto simp: ReadAddr0_eq)
next
  case (Some a)
  then have f: "fst (ReadAddr MaxAddrLen c) = Inr a" using ReadAddr_SplitAddr(1) by blast
  show ?thesis using Some f ReadAddr_SplitAddr(2)[OF f] by (simp add: ReadAddr0_eq prod_eq_iff)
qed

text \<open>
  Decoding inverts encoding of UDP packets: a packet decodes without error to an address and a payload
  exactly when it is what encoding them gives and the address is well formed.
\<close>

theorem socks_udp_roundtrip:
  "DecodeUDPPacket pkt = (Some a, payload, None) \<longleftrightarrow> EncodeUDPPacket (Some a) payload = Inr pkt \<and> wf_addr a"
  using Decode_Encode[of a payload] Encode_Decode[of pkt a payload] by (auto simp: EncodeUDPPacket_def)

text \<open>
  An address parsed from a text with a host name or an IPv4 address prints without a panic, and
  parsing the print gives it again.
\<close>

theorem socks_text_roundtrip:
  assumes "socks_ParseAddr s = Some a" and "hd a \<noteq> AtypV6"
  shows "\<exists>t. socks_String a = Some t \<and> socks_ParseAddr t = Some a"
  using assms by (rule text_roundtrip)

text \<open>
  C14: the two sides of the handshake understand each other. For a user the server accepts, whose
  name and password have 1 to 255 bytes (or no authentication on either side), a connect or UDP request for a
  well-formed address: what the client writes is just what makes the server return this address, command and
  user, and what the server then has written is just what makes the client return the server's address.
\<close>

theorem socks_handshake_agree:
  assumes "wf_addr addr" and "wf_addr la" and "command = CmdConnect \<or> command = CmdUDPAssociate"
    and "good_user verify user"
  shows "\<exists>c2s s2c.
    fst (ServerHandshake (Some la) verify \<lparr>c_in = c2s @ extra, c_out = [], c_writes = 3\<rparr>) =
      Inr (addr, command, case user of None \<Rightarrow> '''' | Some u \<Rightarrow> fst u) \<and>
    c_out (snd (ServerHandshake (Some la) verify \<lparr>c_in = c2s @ extra, c_out = [], c_writes = 3\<rparr>)) = s2c \<and>
    c_in (snd (ServerHandshake (Some la) verify \<lparr>c_in = c2s @ extra, c_out = [], c_writes = 3\<rparr>)) = extra \<and>
    fst (ClientHandshake addr command user \<lparr>c_in = s2c @ reply, c_out = [], c_writes = 3\<rparr>) = Inr la \<and>
    c_out (snd (ClientHandshake addr command user \<lparr>c_in = s2c @ reply, c_out = [], c_writes = 3\<rparr>)) = c2s \<and>
    c_in (snd (ClientHandshake addr command user \<lparr>c_in = s2c @ reply, c_out = [], c_writes = 3\<rparr>)) = reply"
  using server_good[OF assms(1,3,4), of la extra 0] client_good[OF assms(2), of addr command user reply 0]
  by (intro exI[of _ "client_bytes addr command user"] exI[of _ "server_bytes user la"]) simp

text \<open>
  C15: a server with an authenticator completes a handshake only for a user it verified with the password that the
  peer sent, only for a well-formed address, and only for the commands connect and UDP associate, whatever the peer
  sends; and it has read just its methods, name, password and request.
\<close>

theorem socks_server_only_verified:
  assumes "ServerHandshake la (Some verify) c = (Inr (addr, command, user), c')"
  shows "wf_addr addr \<and> la \<noteq> None \<and> (command = CmdConnect \<or> command = CmdUDPAssociate) \<and>
    (\<exists>ver n methods v pass ver' rsv. verify user pass \<and> user \<noteq> '''' \<and> pass \<noteq> '''' \<and> length methods = unat n \<and>
      c_in c = [ver, n] @ methods @ credentials v user pass @ [ver', command, rsv] @ addr @ c_in c')"
  using assms by (rule server_only_verified)

text \<open>
  The length byte of a user name wraps: a client with a name of 257 bytes is taken by a server for
  the user whose name is its first byte, with the password cut out of the rest of the name.
\<close>

theorem socks_long_user_truncated:
  assumes "length name = 257" and "str_bytes name = u # n # pass @ extra" and "length pass = unat n" and "n \<noteq> 0"
    and "verify [char_of (unat u)] (bytes_str pass)"
  shows "fst (server_auth verify \<lparr>c_in = auth_message (name, pw) @ rest, c_out = [], c_writes = 2\<rparr>) =
    Inr [char_of (unat u)]"
proof -
  have "ReadFull (unat n) \<lparr>c_in = pass @ r, c_out = o', c_writes = k\<rparr> = (Inr pass, \<lparr>c_in = r, c_out = o', c_writes = k\<rparr>)"
    for r o' k by (rule ReadFull_append[OF assms(3)])
  with assms show ?thesis
    by (simp add: server_auth_def auth_message_def read_simps Write_def unat_byte bytes_str_def unat_eq_zero)
qed

section \<open>Witnesses\<close>

definition demo_addr :: bytes where
  "demo_addr = [3, 3, 97, 46, 98, 0, 80]"

definition demo_verify :: authenticator where
  "demo_verify user pass = (user = ''u'' \<and> pass = ''pw'')"

lemma wf_demo_addr: "wf_addr demo_addr"
  by (simp add: wf_addr_def SplitAddr_def addrLen_def demo_addr_def atyps)

theorem socks_text_roundtrip_witness:
  "\<exists>t. socks_String demo_addr = Some t \<and> socks_ParseAddr t = Some demo_addr"
proof (rule socks_text_roundtrip)
  have "SplitHostPort ''a.b:80'' = Inr (''a.b'', ''80'')" by code_simp
  moreover have "ParseIP ''a.b'' = None" by code_simp
  moreover have "ParseUint 16 ''80'' = Some 80"
    by (simp add: ParseUint_def digit_val_def byte_val_def)
  moreover have "str_bytes ''a.b'' = [97, 46, 98]" by (simp add: str_bytes_def)
  ultimately show "socks_ParseAddr ''a.b:80'' = Some demo_addr"
    by (simp add: socks_ParseAddr_def demo_addr_def atyps numeral_2_eq_2)
qed (simp add: demo_addr_def atyps)

theorem socks_handshake_agree_witness:
  "\<exists>c2s. fst (ServerHandshake (Some demo_addr) (Some demo_verify) \<lparr>c_in = c2s @ [1], c_out = [], c_writes = 3\<rparr>) =
     Inr (demo_addr, CmdConnect, ''u'')"
  using socks_handshake_agree[OF wf_demo_addr wf_demo_addr, of CmdConnect "Some demo_verify" "Some (''u'', ''pw'')"
      "[1]" "[]"]
  by (auto simp: good_user_def demo_verify_def)

theorem socks_server_only_verified_witness:
  "\<exists>c' pass. ServerHandshake (Some demo_addr) (Some demo_verify)
      \<lparr>c_in = client_bytes demo_addr CmdConnect (Some (''u'', ''pw'')) @ [], c_out = [], c_writes = 3 + 0\<rparr> =
      (Inr (demo_addr, CmdConnect, ''u''), c') \<and> demo_verify ''u'' pass"
proof -
  have g: "good_user (Some demo_verify) (Some (''u'', ''pw''))" by (simp add: good_user_def demo_verify_def)
  note s = server_good[OF wf_demo_addr disjI1[OF refl] g, of demo_addr "[]" 0, simplified option.case fst_conv]
  from socks_server_only_verified[OF s] s show ?thesis by blast
qed

theorem socks_long_user_truncated_witness:
  "fst (server_auth demo_verify \<lparr>c_in = auth_message (''u'' @ CHR 0x02 # ''pw'' @ replicate 253 CHR ''x'', ''secret'') @ [],
      c_out = [], c_writes = 2\<rparr>) = Inr ''u''"
proof -
  have "fst (server_auth demo_verify \<lparr>c_in = auth_message (''u'' @ CHR 0x02 # ''pw'' @ replicate 253 CHR ''x'', ''secret'') @ [],
      c_out = [], c_writes = 2\<rparr>) = Inr [char_of (unat (117 :: u8))]"
    by (rule socks_long_user_truncated[where n = 2 and pass = "[112, 119]" and extra = "replicate 253 120"])
      (simp_all add: str_bytes_def demo_verify_def bytes_str_def char_of_def bit_0)
  then show ?thesis by (simp add: char_of_def bit_0)
qed

end
