(* ===== verification/Socks4.thy ===== *)
theory Socks4 imports SocksProps begin

text \<open>
  transport/socks4/socks4.go: both sides of the SOCKS 4 and 4A handshake on byte streams, and what
  is proved of them.
\<close>

definition Version4 :: u8 where "Version4 = 4"
definition CmdConnect4 :: u8 where "CmdConnect4 = 1"
definition RequestGranted :: u8 where "RequestGranted = 90"
definition RequestRejected :: u8 where "RequestRejected = 91"
definition RequestIdentdFailed :: u8 where "RequestIdentdFailed = 92"
definition RequestIdentdMismatched :: u8 where "RequestIdentdMismatched = 93"

lemmas codes4 = Version4_def CmdConnect4_def RequestGranted_def RequestRejected_def RequestIdentdFailed_def
  RequestIdentdMismatched_def

definition isReservedIP :: "addr \<Rightarrow> bool" where
  "isReservedIP ip \<longleftrightarrow> \<not> IsUnspecified ip \<and> pfx_Contains (Prefix (V4 0) 24) ip"

text \<open>The bytes before the next zero byte, one read at a time until the input ends.\<close>

fun until_null :: "bytes \<Rightarrow> bytes \<Rightarrow> (bytes \<times> bytes) option" where
  "until_null buf [] = None"
| "until_null buf (b # rest) = (if b = 0 then Some (buf, rest) else until_null (buf @ [b]) rest)"

definition readUntilNull :: "bytes io" where
  "readUntilNull c =
     (case until_null [] (c_in c) of
        None \<Rightarrow> (Inl EOF, c\<lparr>c_in := []\<rparr>)
      | Some (buf, rest) \<Rightarrow> (Inr buf, c\<lparr>c_in := rest\<rparr>))"

text \<open>
  The server writes its reply also when the authenticator refuses the user; its error is then the
  refusal, whatever the write gives.
\<close>

definition ServerHandshake4 :: "authenticator option \<Rightarrow> (string \<times> u8 \<times> string) io" where
  "ServerHandshake4 authenticator =
     and_then (ReadFull 8) (\<lambda>req.
       if req ! 0 \<noteq> Version4 then io_fail VersionMismatched
       else if req ! 1 \<noteq> CmdConnect4 then io_fail CommandNotSupported
       else
         let command = req ! 1; dstIP = V4 (get_be (drop 4 req)); dstPort = take 2 (drop 2 req) in
         and_then readUntilNull (\<lambda>userID.
           and_then (if isReservedIP dstIP then readUntilNull else io_return []) (\<lambda>target.
             let user = bytes_str userID; host = bytes_str target; port = Itoa (be_nat dstPort);
                 addr = (if host \<noteq> '''' then JoinHostPort host port else JoinHostPort (addr_String dstIP) port);
                 granted = (case authenticator of None \<Rightarrow> True | Some verify \<Rightarrow> verify user '''');
                 code = (if granted then RequestGranted else RequestIdentdMismatched);
                 reply = [0, code] @ dstPort @ AsSlice dstIP in
             if granted then and_then (Write reply) (\<lambda>_. io_return (addr, command, user))
             else and_then (Write_ignored reply) (\<lambda>_. io_fail ErrIdentdMismatched))))"

definition client_request4 :: "addr \<Rightarrow> string \<Rightarrow> nat \<Rightarrow> u8 \<Rightarrow> string \<Rightarrow> bytes" where
  "client_request4 dstIP host port command userID =
     [Version4, command] @ nat_be 2 port @ AsSlice dstIP @ str_bytes userID @ [0] @
     (if isReservedIP dstIP then str_bytes host @ [0] else [])"

definition ClientHandshake4 :: "string \<Rightarrow> u8 \<Rightarrow> string \<Rightarrow> unit io" where
  "ClientHandshake4 addr command userID =
     (case SplitHostPort addr of
        Inl _ \<Rightarrow> io_fail BadAddress
      | Inr (host, portStr) \<Rightarrow>
          (case ParseUint 16 portStr of
             None \<Rightarrow> io_fail BadAddress
           | Some port \<Rightarrow>
               (case (case ParseAddr host of None \<Rightarrow> Some (V4 1) | Some ip \<Rightarrow> if Is6 ip then None else Some ip) of
                  None \<Rightarrow> io_fail IPv6NotSupported
                | Some dstIP \<Rightarrow>
                    and_then (Write (client_request4 dstIP host port command userID)) (\<lambda>_.
                      and_then (ReadFull 8) (\<lambda>resp.
                        if resp ! 0 \<noteq> 0 then io_fail VersionMismatched
                        else if resp ! 1 = RequestGranted then io_return ()
                        else if resp ! 1 = RequestRejected then io_fail ErrRejected
                        else if resp ! 1 = RequestIdentdFailed then io_fail ErrIdentdFailed
                        else if resp ! 1 = RequestIdentdMismatched then io_fail ErrIdentdMismatched
                        else io_fail UnknownCode)))))"

section \<open>Strings that end with a zero byte\<close>

definition no_null :: "bytes \<Rightarrow> bool" where
  "no_null bs \<longleftrightarrow> 0 \<notin> set bs"

lemma until_null_append: "no_null bs \<Longrightarrow> until_null buf (bs @ 0 # rest) = Some (buf @ bs, rest)"
  by (induction bs arbitrary: buf) (auto simp: no_null_def)

lemma readUntilNull_append:
  "no_null bs \<Longrightarrow> readUntilNull \<lparr>c_in = (bs @ [0]) @ rest, c_out = out, c_writes = k\<rparr> =
    (Inr bs, \<lparr>c_in = rest, c_out = out, c_writes = k\<rparr>)"
  by (simp add: readUntilNull_def until_null_append)

interpretation null_string: wire_format "\<lambda>bs. bs @ [0]" readUntilNull no_null
  by unfold_locales (rule readUntilNull_append)

section \<open>The two sides agree\<close>

text \<open>The address a client dials for a host, and the host as the server writes it.\<close>

definition dial4 :: "string \<Rightarrow> u32 \<Rightarrow> bool" where
  "dial4 host w \<longleftrightarrow> ParseAddr host = Some (V4 w) \<or> (ParseAddr host = None \<and> w = 1)"

definition host4 :: "string \<Rightarrow> u32 \<Rightarrow> string" where
  "host4 host w = (if isReservedIP (V4 w) then host else v4_string w)"

definition reply4 :: "u8 \<Rightarrow> nat \<Rightarrow> u32 \<Rightarrow> bytes" where
  "reply4 code port w = [0, code] @ nat_be 2 port @ put_be w"

lemma reserved_one: "isReservedIP (V4 1)"
  by (simp add: isReservedIP_def)

lemma header4:
  "ReadFull 8 \<lparr>c_in = ([a, b] @ nat_be 2 port @ put_be (w :: u32)) @ rest, c_out = out, c_writes = k\<rparr> =
    (Inr ([a, b] @ nat_be 2 port @ put_be w), \<lparr>c_in = rest, c_out = out, c_writes = k\<rparr>)"
  by (rule ReadFull_append) simp

lemma server4_good:
  assumes host: "host \<noteq> ''''" "no_null (str_bytes host)" and user: "no_null (str_bytes userID)"
    and port: "port < 65536" and ok: "authenticator = None \<or> the authenticator userID ''''"
  shows "ServerHandshake4 authenticator
      \<lparr>c_in = client_request4 (V4 w) host port CmdConnect4 userID @ rest, c_out = out, c_writes = Suc k\<rparr> =
    (Inr (JoinHostPort (host4 host w) (Itoa port), CmdConnect4, userID),
     \<lparr>c_in = rest, c_out = out @ reply4 RequestGranted port w, c_writes = k\<rparr>)"
proof -
  let ?h = "[Version4, CmdConnect4] @ nat_be 2 port @ put_be w"
  let ?t = "if isReservedIP (V4 w) then str_bytes host @ [0] else []"
  have r: "client_request4 (V4 w) host port CmdConnect4 userID @ rest = ?h @ (str_bytes userID @ [0]) @ ?t @ rest"
    by (simp add: client_request4_def)
  have d: "drop 4 ?h = put_be w" "take 2 (drop 2 ?h) = nat_be 2 port" "?h ! 0 = Version4" "?h ! Suc 0 = CmdConnect4"
    by (simp_all add: numeral_2_eq_2)
  have v: "v4_string w \<noteq> ''''"
  proof
    assume "v4_string w = ''''"
    with ParseAddr_v4_string[of w] show False by (simp add: ParseAddr_def)
  qed
  have g: "(case authenticator of None \<Rightarrow> True | Some verify \<Rightarrow> verify userID '''')" using ok by (cases authenticator) auto
  show ?thesis
    unfolding r ServerHandshake4_def and_then_def header4
    using d g host(1) v port readUntilNull_append[OF user] readUntilNull_append[OF host(2)]
    by (simp add: io_simps Let_def Write_ok reply4_def host4_def get_put_be be_nat_nat_be codes4)
qed

lemma client4_good:
  assumes "SplitHostPort addr = Inr (host, portStr)" "ParseUint 16 portStr = Some port" "dial4 host w"
  shows "ClientHandshake4 addr command userID
      \<lparr>c_in = reply4 RequestGranted p x @ rest, c_out = out, c_writes = Suc k\<rparr> =
    (Inr (), \<lparr>c_in = rest, c_out = out @ client_request4 (V4 w) host port command userID, c_writes = k\<rparr>)"
  using assms header4[of 0 RequestGranted p x rest]
  by (auto simp: ClientHandshake4_def dial4_def reply4_def io_simps Write_ok codes4)

text \<open>
  A SOCKS4 client and server understand each other for every IPv4 address and every name without zero
  bytes: what the client writes makes the server return the same host (an address in its usual text), port and
  user, and what the server then writes makes the client succeed.
\<close>

theorem socks4_handshake_agree:
  assumes "SplitHostPort addr = Inr (host, portStr)" and "ParseUint 16 portStr = Some port" and "dial4 host w"
    and "host \<noteq> ''''" and "no_null (str_bytes host)" and "no_null (str_bytes userID)"
    and "authenticator = None \<or> the authenticator userID ''''"
  shows "\<exists>c2s s2c.
    ServerHandshake4 authenticator \<lparr>c_in = c2s @ later, c_out = [], c_writes = 1\<rparr> =
      (Inr (JoinHostPort (host4 host w) (Itoa port), CmdConnect4, userID), \<lparr>c_in = later, c_out = s2c, c_writes = 0\<rparr>) \<and>
    ClientHandshake4 addr CmdConnect4 userID \<lparr>c_in = s2c @ reply, c_out = [], c_writes = 1\<rparr> =
      (Inr (), \<lparr>c_in = reply, c_out = c2s, c_writes = 0\<rparr>)"
proof -
  have p: "port < 65536" using ParseUint_less[OF assms(2)] by simp
  show ?thesis
    using server4_good[OF assms(4,5,6) p assms(7), of w later "[]" 0]
      client4_good[OF assms(1,2,3), of CmdConnect4 userID port w reply "[]" 0]
    by (intro exI[of _ "client_request4 (V4 w) host port CmdConnect4 userID"]
        exI[of _ "reply4 RequestGranted port w"]) simp
qed

theorem socks4_handshake_agree_witness:
  "\<exists>c2s s2c.
    ServerHandshake4 None \<lparr>c_in = c2s @ [], c_out = [], c_writes = 1\<rparr> =
      (Inr (JoinHostPort (host4 ''a.b'' 1) (Itoa 80), CmdConnect4, ''me''), \<lparr>c_in = [], c_out = s2c, c_writes = 0\<rparr>) \<and>
    ClientHandshake4 ''a.b:80'' CmdConnect4 ''me'' \<lparr>c_in = s2c @ [], c_out = [], c_writes = 1\<rparr> =
      (Inr (), \<lparr>c_in = [], c_out = c2s, c_writes = 0\<rparr>)"
proof (rule socks4_handshake_agree)
  show "SplitHostPort ''a.b:80'' = Inr (''a.b'', ''80'')" by code_simp
  show "ParseUint 16 ''80'' = Some 80" by (simp add: ParseUint_def digit_val_def byte_val_def)
  have "ParseAddr ''a.b'' = None" by code_simp
  then show "dial4 ''a.b'' 1" by (simp add: dial4_def)
qed (simp_all add: no_null_def str_bytes_def)

end
