(* ===== verification/LoadBalance.thy ===== *)
theory LoadBalance imports ProxyGroups Lru Complex_Main begin

text \<open>
  adapter/outboundgroup/loadbalance.go: the strategies of a load-balance group other than round robin (which
  ProxyGroups models). The public suffix list, the hash of a string under the seed of the process,
  and the rounding of 64-bit floating point numbers are arguments.
\<close>

section \<open>Keys\<close>

text \<open>\<open>etld\<close> is \<open>publicsuffix.EffectiveTLDPlusOne\<close> (None for its error).\<close>

definition getKey :: "(string \<Rightarrow> string option) \<Rightarrow> metadata option \<Rightarrow> string" where
  "getKey etld md =
     (case md of
        None \<Rightarrow> ''''
      | Some m \<Rightarrow>
          let by_ip = (if \<not> IsValid (md_DstIP m) then '''' else addr_String (md_DstIP m)) in
          if md_Host m \<noteq> '''' then
            (if ParseIP (md_Host m) \<noteq> None then md_Host m
             else case etld (md_Host m) of Some e \<Rightarrow> e | None \<Rightarrow> by_ip)
          else by_ip)"

definition getKeyWithSrcAndDst :: "(string \<Rightarrow> string option) \<Rightarrow> metadata option \<Rightarrow> string" where
  "getKeyWithSrcAndDst etld md =
     (case md of None \<Rightarrow> '''' | Some m \<Rightarrow> addr_String (md_SrcIP m)) @ getKey etld md"

section \<open>Jump hash\<close>

text \<open>
  One jump: \<open>int64(float64(b+1) * (float64(1<<31) / float64((key>>33)+1)))\<close>. The operands are integers below
  2^53 and hence exact; \<open>rnd\<close> rounds the quotient and the product.
\<close>

definition jump_next :: "(real \<Rightarrow> real) \<Rightarrow> int \<Rightarrow> u64 \<Rightarrow> int" where
  "jump_next rnd b key = \<lfloor>rnd (of_int (b + 1) * rnd (2 ^ 31 / of_nat (unat (drop_bit 33 key) + 1)))\<rfloor>"

definition next_key :: "u64 \<Rightarrow> u64" where
  "next_key key = key * 2862933555777941757 + 1"

partial_function (option) jump_loop :: "(real \<Rightarrow> real) \<Rightarrow> int \<Rightarrow> u64 \<Rightarrow> int \<Rightarrow> int \<Rightarrow> int option" where
  "jump_loop rnd buckets key b j =
     (if j < buckets then jump_loop rnd buckets (next_key key) j (jump_next rnd j (next_key key)) else Some b)"

definition jumpHash :: "(real \<Rightarrow> real) \<Rightarrow> u64 \<Rightarrow> int \<Rightarrow> int option" where
  "jumpHash rnd key buckets = jump_loop rnd buckets key 0 0"

section \<open>Strategies\<close>

text \<open>
  A strategy's answer is None when it does not return or indexes an empty list.
\<close>

definition strategy_fallback :: "gproxy list \<Rightarrow> gproxy option" where
  "strategy_fallback proxies = (case proxies of [] \<Rightarrow> None | p # _ \<Rightarrow> Some p)"

fun consistent_loop ::
  "(real \<Rightarrow> real) \<Rightarrow> health \<Rightarrow> string \<Rightarrow> gproxy list \<Rightarrow> u64 \<Rightarrow> nat \<Rightarrow> gproxy option option" where
  "consistent_loop rnd w url proxies key 0 = Some None"
| "consistent_loop rnd w url proxies key (Suc n) =
     (case jumpHash rnd key (int (length proxies)) of
        None \<Rightarrow> None
      | Some idx \<Rightarrow>
          if proxies = [] then None
          else
            let p = proxies ! nat idx in
            if alive w url p then Some (Some p) else consistent_loop rnd w url proxies (key + 1) n)"

definition strategyConsistentHashing ::
  "(real \<Rightarrow> real) \<Rightarrow> (string \<Rightarrow> u64) \<Rightarrow> (string \<Rightarrow> string option) \<Rightarrow> health \<Rightarrow> string \<Rightarrow> gproxy list \<Rightarrow>
   metadata option \<Rightarrow> gproxy option" where
  "strategyConsistentHashing rnd MapHash etld w url proxies md =
     (case consistent_loop rnd w url proxies (MapHash (getKey etld md)) 5 of
        None \<Rightarrow> None
      | Some (Some p) \<Rightarrow> Some p
      | Some None \<Rightarrow>
          (case find (alive w url) proxies of Some p \<Rightarrow> Some p | None \<Rightarrow> strategy_fallback proxies))"

text \<open>
  Sticky sessions: \<open>nano i\<close> is the i-th reading of the clock in nanoseconds, \<open>now\<close> the clock of the cache in
  seconds. The loop tries four times at most; \<open>i\<close> counts the readings.
\<close>

definition sticky_ttl :: int where
  "sticky_ttl = 600"

definition sticky_New :: "('l, 'h) list_ops \<Rightarrow> ('l, 'h, u64, nat) lru_cache" where
  "sticky_New dl = lru_New dl sticky_ttl 1000 False False False"

fun sticky_loop ::
  "(real \<Rightarrow> real) \<Rightarrow> ('l, 'h) list_ops \<Rightarrow> health \<Rightarrow> string \<Rightarrow> gproxy list \<Rightarrow> u64 \<Rightarrow> (nat \<Rightarrow> u64) \<Rightarrow> int \<Rightarrow>
   bool \<Rightarrow> nat \<Rightarrow> nat \<Rightarrow> nat \<Rightarrow> nat \<Rightarrow> ('l, 'h, u64, nat) lru_cache \<Rightarrow>
   (gproxy \<times> ('l, 'h, u64, nat) lru_cache) option" where
  "sticky_loop rnd dl w url proxies key nano now has idx nowIdx i 0 cache =
     map_option (\<lambda>p. (p, lru_set dl now now key 0 cache)) (strategy_fallback proxies)"
| "sticky_loop rnd dl w url proxies key nano now has idx nowIdx i (Suc k) cache =
     (if length proxies \<le> nowIdx then None
      else
        let proxy = proxies ! nowIdx in
        if alive w url proxy then
          Some (proxy, if \<not> has \<or> nowIdx \<noteq> idx then lru_set dl now now key nowIdx cache else cache)
        else case jumpHash rnd (key + nano i) (int (length proxies)) of
          None \<Rightarrow> None
        | Some j \<Rightarrow> sticky_loop rnd dl w url proxies key nano now has idx (nat j) (i + 1) k cache)"

definition strategyStickySessions ::
  "(real \<Rightarrow> real) \<Rightarrow> (string \<Rightarrow> u64) \<Rightarrow> (string \<Rightarrow> string option) \<Rightarrow> ('l, 'h) list_ops \<Rightarrow> health \<Rightarrow> string \<Rightarrow>
   (nat \<Rightarrow> u64) \<Rightarrow> int \<Rightarrow> gproxy list \<Rightarrow> metadata option \<Rightarrow> ('l, 'h, u64, nat) lru_cache \<Rightarrow>
   (gproxy \<times> ('l, 'h, u64, nat) lru_cache) option" where
  "strategyStickySessions rnd MapHash etld dl w url nano now proxies md cache =
     (let key = MapHash (getKeyWithSrcAndDst etld md) in
      case lru_Get dl now now key cache of
        (found, cache1) \<Rightarrow>
          (case (case found of
                   Some idx \<Rightarrow>
                     if idx \<ge> length proxies then jumpHash rnd (key + nano 0) (int (length proxies)) else Some (int idx)
                 | None \<Rightarrow> jumpHash rnd (key + nano 0) (int (length proxies))) of
             None \<Rightarrow> None
           | Some idx \<Rightarrow>
               sticky_loop rnd dl w url proxies key nano now (found \<noteq> None) (nat idx) (nat idx) 1 4 cache1))"

text \<open>The connections of a group one after the other: what each of them reads, and the proxies they get.\<close>

record sticky_conn =
  sc_md :: "metadata option"
  sc_nano :: "nat \<Rightarrow> u64"
  sc_now :: int
  sc_health :: health

fun sticky_run ::
  "(real \<Rightarrow> real) \<Rightarrow> (string \<Rightarrow> u64) \<Rightarrow> (string \<Rightarrow> string option) \<Rightarrow> ('l, 'h) list_ops \<Rightarrow> string \<Rightarrow> gproxy list \<Rightarrow>
   sticky_conn list \<Rightarrow> ('l, 'h, u64, nat) lru_cache \<Rightarrow> (gproxy list \<times> ('l, 'h, u64, nat) lru_cache) option" where
  "sticky_run rnd MapHash etld dl url proxies [] cache = Some ([], cache)"
| "sticky_run rnd MapHash etld dl url proxies (x # xs) cache =
     (case strategyStickySessions rnd MapHash etld dl (sc_health x) url (sc_nano x) (sc_now x) proxies (sc_md x) cache of
        None \<Rightarrow> None
      | Some (p, cache1) \<Rightarrow>
          map_option (\<lambda>(ps, cache2). (p # ps, cache2)) (sticky_run rnd MapHash etld dl url proxies xs cache1))"

text \<open>\<open>parseStrategy\<close> (of the option's string, if it has one) and the choice of \<open>NewLoadBalance\<close>.\<close>

datatype lb_strategy = ConsistentHashing | RoundRobin | StickySessions

definition parseStrategy :: "string option \<Rightarrow> string" where
  "parseStrategy config = (case config of Some s \<Rightarrow> s | None \<Rightarrow> ''consistent-hashing'')"

definition NewLoadBalance_strategy :: "string \<Rightarrow> lb_strategy option" where
  "NewLoadBalance_strategy s =
     (if s = ''consistent-hashing'' then Some ConsistentHashing
      else if s = ''round-robin'' then Some RoundRobin
      else if s = ''sticky-sessions'' then Some StickySessions
      else None)"

end
