(* ===== verification/LoadBalanceProps.thy ===== *)
theory LoadBalanceProps imports LoadBalance LruProps begin

text \<open>
  What the load-balance strategies promise: the jump hash ends, stays in range and is consistent; consistent
  hashing uses a living proxy if there is one; a session sticks to its proxy. With the cases in which a sticky
  session does not.
\<close>

section \<open>The jump hash\<close>

text \<open>What is used of 64-bit floating point: rounding is monotone and exact on integers up to 2^53.\<close>

definition rounding :: "(real \<Rightarrow> real) \<Rightarrow> bool" where
  "rounding rnd \<longleftrightarrow> mono rnd \<and> (\<forall>n :: int. 0 \<le> n \<and> n \<le> 2 ^ 53 \<longrightarrow> rnd (of_int n) = of_int n)"

lemma rounding_id: "rounding (\<lambda>x. x)"
  by (simp add: rounding_def mono_def)

lemma ratio_ge_1: "k < 2 ^ 31 \<Longrightarrow> 1 \<le> 2 ^ 31 / (of_nat (k + 1) :: real)"
proof -
  assume "k < 2 ^ 31"
  then have "of_nat (k + 1) \<le> (of_nat (2 ^ 31) :: real)" by (intro of_nat_mono) simp
  then show ?thesis by (simp add: field_simps)
qed

lemma jump_next_greater:
  assumes "rounding rnd" and "0 \<le> b" and "b < 2 ^ 53"
  shows "b < jump_next rnd b key"
proof -
  have mono: "x \<le> y \<Longrightarrow> rnd x \<le> rnd y" for x y using assms(1) by (simp add: rounding_def mono_def)
  have exact: "rnd (of_int n) = of_int n" if "0 \<le> n" "n \<le> 2 ^ 53" for n using assms(1) that by (simp add: rounding_def)
  let ?k = "unat (drop_bit 33 key)"
  have "?k = drop_bit 33 (unat key)" by (rule unat_drop_bit_eq)
  also have "\<dots> = unat key div 2 ^ 33" by (rule drop_bit_eq_div)
  also have "\<dots> < 2 ^ 31" using unat_bound[of key] by (simp add: less_mult_imp_div_less)
  finally have "?k < 2 ^ 31" .
  then have "1 \<le> 2 ^ 31 / (of_nat (?k + 1) :: real)" by (rule ratio_ge_1)
  then have "1 \<le> rnd (2 ^ 31 / of_nat (?k + 1))" using mono exact[of 1] by (metis of_int_1 zero_le_one one_le_numeral power_increasing one_le_power)
  then have "of_int (b + 1) \<le> of_int (b + 1) * rnd (2 ^ 31 / of_nat (?k + 1))"
    using assms(2) by (simp add: mult_le_cancel_left1)
  from mono[OF this] have "of_int (b + 1) \<le> rnd (of_int (b + 1) * rnd (2 ^ 31 / of_nat (?k + 1)))"
    using exact[of "b + 1"] assms(2,3) by simp
  then have "b + 1 \<le> jump_next rnd b key" unfolding jump_next_def le_floor_iff .
  then show ?thesis by simp
qed

lemma jump_loop_less:
  "j < n \<Longrightarrow> jump_loop rnd n key b j = jump_loop rnd n (next_key key) j (jump_next rnd j (next_key key))"
  by (subst jump_loop.simps) simp

lemma jump_loop_done: "\<not> j < n \<Longrightarrow> jump_loop rnd n key b j = Some b"
  by (subst jump_loop.simps) simp

lemma jump_loop_ends:
  assumes "rounding rnd" and "n \<le> 2 ^ 31" and "0 \<le> j" and "0 \<le> b" and "b < n \<or> b = 0 \<and> j = 0"
  shows "\<exists>i. jump_loop rnd n key b j = Some i \<and> 0 \<le> i \<and> (0 < n \<longrightarrow> i < n)"
  using assms(3-5)
proof (induction "nat (n - j)" arbitrary: key b j rule: less_induct)
  case less
  show ?case
  proof (cases "j < n")
    case True
    have "j < jump_next rnd j (next_key key)"
      by (rule jump_next_greater[OF assms(1)]) (use less.prems True assms(2) in auto)
    then have "\<exists>i. jump_loop rnd n (next_key key) j (jump_next rnd j (next_key key)) = Some i \<and> 0 \<le> i \<and> (0 < n \<longrightarrow> i < n)"
      using True less.prems by (intro less.hyps) auto
    with True show ?thesis by (simp add: jump_loop_less)
  next
    case False
    with less.prems show ?thesis by (auto simp: jump_loop_done)
  qed
qed

lemma jumpHash_ends:
  assumes "rounding rnd" and "0 < n" and "n \<le> 2 ^ 31"
  shows "\<exists>i. jumpHash rnd key n = Some i \<and> 0 \<le> i \<and> i < n"
  using jump_loop_ends[OF assms(1,3), of 0 0 key] assms(2) by (auto simp: jumpHash_def)

lemma jump_loop_consistent:
  assumes "rounding rnd" and "n < 2 ^ 31" and "0 \<le> j"
    and "jump_loop rnd n key b j = Some i" and "jump_loop rnd (n + 1) key b j = Some i'"
  shows "i' = i \<or> i' = n"
  using assms(3-5)
proof (induction "nat (n + 1 - j)" arbitrary: key b j rule: less_induct)
  case less
  have grow: "j < jump_next rnd j (next_key key)" if "j < n + 1"
    by (rule jump_next_greater[OF assms(1)]) (use less.prems that assms(2) in auto)
  consider "j < n" | "j = n" | "n < j" by linarith
  then show ?case
  proof cases
    case 1
    have "jump_loop rnd n (next_key key) j (jump_next rnd j (next_key key)) = Some i"
      using less.prems(2) jump_loop_less[OF 1, of rnd key b] by simp
    moreover have "jump_loop rnd (n + 1) (next_key key) j (jump_next rnd j (next_key key)) = Some i'"
      using less.prems(3) jump_loop_less[of j "n + 1" rnd key b] 1 by simp
    ultimately show ?thesis
      using 1 grow less.prems(1) by (intro less.hyps[of "jump_next rnd j (next_key key)" "next_key key" j]) auto
  next
    case 2
    have "jump_loop rnd (n + 1) (next_key key) j (jump_next rnd j (next_key key)) = Some i'"
      using less.prems(3) jump_loop_less[of j "n + 1" rnd key b] 2 by simp
    moreover have "\<not> jump_next rnd j (next_key key) < n + 1" using grow 2 by simp
    ultimately show ?thesis using 2 by (simp add: jump_loop_done)
  next
    case 3
    then have "jump_loop rnd n key b j = Some b" "jump_loop rnd (n + 1) key b j = Some b"
      by (simp_all add: jump_loop_done)
    with less.prems(2,3) show ?thesis by simp
  qed
qed

section \<open>Consistent hashing\<close>

lemma consistent_loop_ends:
  assumes "rounding rnd" and "proxies \<noteq> []" and "length proxies \<le> 2 ^ 31"
  shows "\<exists>r. consistent_loop rnd w url proxies key n = Some r \<and>
    (\<forall>p. r = Some p \<longrightarrow> p \<in> set proxies \<and> alive w url p)"
proof (induction n arbitrary: key)
  case (Suc n)
  have len: "int (length proxies) \<le> 2 ^ 31" "0 < int (length proxies)" using assms(2,3) by simp_all
  from jumpHash_ends[OF assms(1) len(2,1), of key] obtain i where
    i: "jumpHash rnd key (int (length proxies)) = Some i" "0 \<le> i" "i < int (length proxies)" by blast
  with Suc assms(2) show ?case by (auto simp: Let_def nat_less_iff)
qed simp

lemma consistent_hashing_alive:
  assumes "rounding rnd" and "proxies \<noteq> []" and "length proxies \<le> 2 ^ 31"
  shows "\<exists>p. strategyConsistentHashing rnd MapHash etld w url proxies md = Some p \<and> p \<in> set proxies \<and>
    (alive w url p \<or> (\<forall>q \<in> set proxies. \<not> alive w url q) \<and> p = hd proxies)"
proof -
  from consistent_loop_ends[OF assms, of w url "MapHash (getKey etld md)" 5] obtain r where
    r: "consistent_loop rnd w url proxies (MapHash (getKey etld md)) 5 = Some r"
    "\<And>p. r = Some p \<Longrightarrow> p \<in> set proxies \<and> alive w url p" by blast
  show ?thesis
  proof (cases r)
    case (Some p)
    with r show ?thesis by (simp add: strategyConsistentHashing_def)
  next
    case None
    show ?thesis
    proof (cases "find (alive w url) proxies")
      case None
      then have "\<forall>q \<in> set proxies. \<not> alive w url q" by (simp add: find_None_iff)
      with r \<open>r = None\<close> None assms(2) show ?thesis
        by (cases proxies) (simp_all add: strategyConsistentHashing_def strategy_fallback_def)
    next
      case (Some p)
      then have "p \<in> set proxies" "alive w url p" by (auto simp: find_Some_iff)
      with r(1) \<open>r = None\<close> Some show ?thesis by (simp add: strategyConsistentHashing_def)
    qed
  qed
qed

text \<open>With all proxies alive the first jump decides.\<close>

lemma consistent_hashing_first:
  assumes "rounding rnd" and "proxies \<noteq> []" and "length proxies \<le> 2 ^ 31" and "\<And>p. p \<in> set proxies \<Longrightarrow> alive w url p"
    and "jumpHash rnd (MapHash (getKey etld md)) (int (length proxies)) = Some i"
  shows "strategyConsistentHashing rnd MapHash etld w url proxies md = Some (proxies ! nat i)"
proof -
  have "0 \<le> i \<and> i < int (length proxies)"
    using jumpHash_ends[OF assms(1), of "int (length proxies)" "MapHash (getKey etld md)"] assms(2,3,5) by auto
  then have "alive w url (proxies ! nat i)" by (intro assms(4) nth_mem) (simp add: nat_less_iff)
  with assms(2,5) have c: "consistent_loop rnd w url proxies (MapHash (getKey etld md)) (Suc 4) = Some (Some (proxies ! nat i))"
    by (subst consistent_loop.simps(2)) (simp add: Let_def)
  have "Suc 4 = (5 :: nat)" by simp
  with c have "consistent_loop rnd w url proxies (MapHash (getKey etld md)) 5 = Some (Some (proxies ! nat i))" by metis
  then show ?thesis by (simp add: strategyConsistentHashing_def)
qed

lemma consistent_hashing_stable:
  assumes "rounding rnd" and "proxies \<noteq> []" and "length proxies < 2 ^ 31"
    and "\<And>p. p \<in> set (proxies @ [new]) \<Longrightarrow> alive w url p"
    and "strategyConsistentHashing rnd MapHash etld w url proxies md = Some p"
    and "strategyConsistentHashing rnd MapHash etld w url (proxies @ [new]) md = Some q"
  shows "q = p \<or> q = new"
proof -
  let ?key = "MapHash (getKey etld md)"
  let ?n = "int (length proxies)"
  have n: "0 < ?n" "?n \<le> 2 ^ 31" "?n + 1 \<le> 2 ^ 31" "?n < 2 ^ 31" using assms(2,3) by simp_all
  obtain i where i: "jumpHash rnd ?key ?n = Some i" "0 \<le> i" "i < ?n"
    using jumpHash_ends[OF assms(1) n(1,2)] by blast
  obtain j where j: "jumpHash rnd ?key (?n + 1) = Some j" "0 \<le> j" "j < ?n + 1"
    using jumpHash_ends[OF assms(1) _ n(3)] n(1) by force
  have "p = proxies ! nat i"
    using consistent_hashing_first[where rnd = rnd and w = w and url = url and MapHash = MapHash and etld = etld
      and md = md and proxies = proxies and i = i] assms i(1) by simp
  moreover have "q = (proxies @ [new]) ! nat j"
    using consistent_hashing_first[where rnd = rnd and w = w and url = url and MapHash = MapHash and etld = etld
      and md = md and proxies = "proxies @ [new]" and i = j] assms j(1) by (simp add: add.commute)
  moreover have "j = i \<or> j = ?n"
    using jump_loop_consistent[OF assms(1) n(4), of 0 ?key 0 i j] i(1) j(1) by (simp add: jumpHash_def)
  ultimately show ?thesis using i(2,3) by (auto simp: nth_append nat_less_iff)
qed

section \<open>Sticky sessions\<close>

definition sticky_cache :: "('l \<Rightarrow> ('h \<times> nat) list) \<Rightarrow> ('l, 'h, u64, nat) lru_cache \<Rightarrow> bool" where
  "sticky_cache items c \<longleftrightarrow> lru_inv items c \<and> lc_maxAge c = sticky_ttl \<and> lc_maxSize c = 1000 \<and>
     \<not> lc_staleReturn c \<and> \<not> lc_updateAgeOnGet c"

definition sticky_entry :: "('l \<Rightarrow> ('h \<times> nat) list) \<Rightarrow> ('l, 'h, u64, nat) lru_cache \<Rightarrow> u64 \<Rightarrow> (u64, nat) lru_entry option" where
  "sticky_entry items c key = find_key key (lru_view items c)"

text \<open>The entry \<open>e\<close> is in the cache, with at most \<open>j\<close> more recently used ones.\<close>

definition sticky_at ::
  "('l \<Rightarrow> ('h \<times> nat) list) \<Rightarrow> ('l, 'h, u64, nat) lru_cache \<Rightarrow> (u64, nat) lru_entry \<Rightarrow> nat \<Rightarrow> bool" where
  "sticky_at items c e j \<longleftrightarrow> sticky_cache items c \<and> (\<exists>xs ys. lru_view items c = xs @ e # ys \<and> length ys \<le> j)"

text \<open>The same while a connection with the key \<open>k\<close> is under way, whose own entry does not count.\<close>

definition sticky_busy ::
  "('l \<Rightarrow> ('h \<times> nat) list) \<Rightarrow> ('l, 'h, u64, nat) lru_cache \<Rightarrow> (u64, nat) lru_entry \<Rightarrow> u64 \<Rightarrow> nat \<Rightarrow> bool" where
  "sticky_busy items c e k j \<longleftrightarrow> sticky_cache items c \<and>
     (\<exists>xs ys. lru_view items c = xs @ e # ys \<and> length (other_keys k ys) \<le> j)"

text \<open>Never more than 999 connections of other sessions in a row.\<close>

definition session_key :: "(string \<Rightarrow> u64) \<Rightarrow> (string \<Rightarrow> string option) \<Rightarrow> sticky_conn \<Rightarrow> u64" where
  "session_key MapHash etld x = MapHash (getKeyWithSrcAndDst etld (sc_md x))"

fun gaps_ok :: "(string \<Rightarrow> u64) \<Rightarrow> (string \<Rightarrow> string option) \<Rightarrow> u64 \<Rightarrow> nat \<Rightarrow> sticky_conn list \<Rightarrow> bool" where
  "gaps_ok MapHash etld key j [] = True"
| "gaps_ok MapHash etld key j (x # xs) =
     (if session_key MapHash etld x = key then gaps_ok MapHash etld key 0 xs
      else j < 999 \<and> gaps_ok MapHash etld key (Suc j) xs)"

lemma dropWhile_keeps: "\<not> P y \<Longrightarrow> dropWhile P (xs @ y # ys) = dropWhile P xs @ y # ys"
  by (induction xs) auto

lemma sticky_loop_ends:
  assumes "rounding rnd" and "proxies \<noteq> []" and "length proxies \<le> 2 ^ 31" and "nowIdx < length proxies"
  shows "\<exists>p c'. sticky_loop rnd dl w url proxies key nano t has idx nowIdx i n c = Some (p, c') \<and>
    (c' = c \<or> (\<exists>v. c' = lru_set dl t t key v c))"
  using assms(4)
proof (induction n arbitrary: nowIdx i)
  case 0
  then show ?case using assms(2) by (cases proxies) (auto simp: strategy_fallback_def)
next
  case (Suc n)
  have len: "int (length proxies) \<le> 2 ^ 31" "0 < int (length proxies)" using assms(2,3) by simp_all
  from jumpHash_ends[OF assms(1) len(2,1), of "key + nano i"] obtain j where
    j: "jumpHash rnd (key + nano i) (int (length proxies)) = Some j" "0 \<le> j" "j < int (length proxies)" by blast
  then have "nat j < length proxies" by (simp add: nat_less_iff)
  from Suc.IH[OF this, of "i + 1"] show ?case using Suc.prems j(1) by (auto simp: Let_def)
qed

context linked_list
begin

lemma sticky_New: "sticky_cache items (sticky_New dl)"
  by (simp add: sticky_cache_def sticky_New_def lru_New_def lru_inv_def New)

lemma sticky_Set:
  assumes "sticky_cache items c" and "c' = lru_set dl t t k v c"
  shows "sticky_cache items c' \<and> sticky_entry items c' k = Some \<lparr>le_key = k, le_value = v, le_expires = t + sticky_ttl\<rparr>"
proof -
  let ?e = "\<lparr>le_key = k, le_value = v, le_expires = t + sticky_ttl\<rparr>" and ?es = "lru_view items c"
  have inv: "lru_inv items c" using assms by (simp add: sticky_cache_def)
  have c': "c' = setWithExpire dl t k v (t + sticky_ttl) c"
    using assms by (simp add: lru_set_def sticky_cache_def sticky_ttl_def)
  note S = setWithExpire[OF inv, of t k v "t + sticky_ttl", folded c']
  obtain zs where zs: "abs_push c ?e ?es = zs @ [?e]" "find_key k zs = None"
  proof (cases "find_key k ?es = None \<and> lc_maxSize c > 0 \<and> int (length ?es) + 1 > lc_maxSize c")
    case True
    have "?es \<noteq> []" using True assms(1) by (auto simp: sticky_cache_def)
    moreover have "find_key k (tl ?es) = None"
      using True find_key_tl[OF lru_inv_distinct[OF inv], of k] by (metis empty_iff insert_iff)
    ultimately show ?thesis using True that[of "tl ?es"] by (simp add: abs_push_def del: find_key_None)
  next
    case False
    then have "abs_push c ?e ?es = other_keys k ?es @ [?e]" by (auto simp add: abs_push_def simp del: find_key_None)
    with that[of "other_keys k ?es"] show ?thesis by simp
  qed
  have "lru_view items c' = dropWhile (\<lambda>e. le_expires e \<le> t) (zs @ [?e])"
    using S zs(1) assms(1) by (simp add: abs_expire_def sticky_cache_def sticky_ttl_def)
  also have "\<dots> = dropWhile (\<lambda>e. le_expires e \<le> t) zs @ [?e]"
    by (rule dropWhile_append3) (simp add: sticky_ttl_def)
  finally have view: "lru_view items c' = dropWhile (\<lambda>e. le_expires e \<le> t) zs @ [?e]" .
  have "find_key k (dropWhile (\<lambda>e. le_expires e \<le> t) zs) = None"
    using zs(2) by (auto dest: set_dropWhileD)
  then have "sticky_entry items c' k = Some ?e"
    unfolding sticky_entry_def view find_key_append by (simp add: find_key_def)
  moreover have "sticky_cache items c'" using S assms(1) by (simp add: sticky_cache_def same_options_def)
  ultimately show ?thesis by blast
qed

lemma sticky_Get:
  assumes "sticky_cache items c" and "lru_Get dl t t k c = (r, c')"
  shows "sticky_cache items c'"
    and "sticky_entry items c k = None \<Longrightarrow> r = None"
    and "sticky_entry items c k = Some e \<Longrightarrow> t < le_expires e \<Longrightarrow> r = Some (le_value e) \<and> sticky_entry items c' k = Some e"
proof -
  have inv: "lru_inv items c" using assms by (simp add: sticky_cache_def)
  note G = lru_Get[OF inv assms(2)]
  show "sticky_cache items c'" using G assms(1) by (simp add: sticky_cache_def same_options_def)
  show "r = None" if "sticky_entry items c k = None"
    using G that by (simp add: sticky_entry_def abs_get_def del: find_key_None)
  show "r = Some (le_value e) \<and> sticky_entry items c' k = Some e"
    if e: "sticky_entry items c k = Some e" "t < le_expires e"
  proof -
    have "abs_get c t t k (lru_view items c) = (Some e, other_keys k (lru_view items c) @ [e])"
      using e assms(1) by (simp add: sticky_entry_def abs_get_def sticky_cache_def)
    moreover have "le_key e = k" using e(1) by (auto simp: sticky_entry_def find_key_def find_Some_iff)
    then have "find_key k [e] = Some e" by (simp add: find_key_def)
    then have "find_key k (other_keys k (lru_view items c) @ [e]) = Some e" by (simp add: find_key_append)
    ultimately show ?thesis using G by (simp add: sticky_entry_def)
  qed
qed

lemma sticky_loop_new:
  assumes "sticky_loop rnd dl w url proxies key nano t False idx nowIdx i k c = Some (p, c')"
  shows "\<exists>v < length proxies. p = proxies ! v \<and> c' = lru_set dl t t key v c"
  using assms
proof (induction k arbitrary: nowIdx i)
  case 0
  then show ?case by (cases proxies) (auto simp: strategy_fallback_def)
next
  case (Suc k)
  then show ?case by (auto simp: Let_def not_le split: if_splits option.splits)
qed

lemma sticky_set_view:
  assumes "sticky_cache items c"
  shows "sticky_cache items (lru_set dl t t k v c) \<and> lru_view items (lru_set dl t t k v c) =
    dropWhile (\<lambda>e. le_expires e \<le> t) (abs_push c \<lparr>le_key = k, le_value = v, le_expires = t + sticky_ttl\<rparr> (lru_view items c))"
proof -
  have "lru_set dl t t k v c = setWithExpire dl t k v (t + sticky_ttl) c"
    using assms by (simp add: lru_set_def sticky_cache_def sticky_ttl_def)
  then show ?thesis
    using setWithExpire[of c t k v "t + sticky_ttl"] assms
    by (simp add: sticky_cache_def same_options_def abs_expire_def sticky_ttl_def)
qed

text \<open>A first connection leaves its entry as the most recently used one.\<close>

lemma sticky_set_last:
  assumes "sticky_cache items c"
  shows "sticky_at items (lru_set dl t t k v c) \<lparr>le_key = k, le_value = v, le_expires = t + sticky_ttl\<rparr> 0"
proof -
  let ?e = "\<lparr>le_key = k, le_value = v, le_expires = t + sticky_ttl\<rparr>" and ?es = "lru_view items c"
  have "\<exists>zs. abs_push c ?e ?es = zs @ [?e]"
  proof (cases "find_key k ?es = None \<and> lc_maxSize c > 0 \<and> int (length ?es) + 1 > lc_maxSize c")
    case True
    then have "?es \<noteq> []" using assms by (auto simp: sticky_cache_def)
    then show ?thesis using True by (simp add: abs_push_def del: find_key_None)
  next
    case False
    then show ?thesis by (auto simp add: abs_push_def simp del: find_key_None)
  qed
  then obtain zs where zs: "abs_push c ?e ?es = zs @ [?e]" by blast
  have "lru_view items (lru_set dl t t k v c) = dropWhile (\<lambda>e. le_expires e \<le> t) zs @ [?e]"
    using sticky_set_view[OF assms, of t k v] zs dropWhile_keeps[of "\<lambda>e. le_expires e \<le> t" ?e zs "[]"]
    by (simp add: sticky_ttl_def)
  then show ?thesis using sticky_set_view[OF assms, of t k v] by (auto simp: sticky_at_def)
qed

text \<open>A connection of another session.\<close>

lemma busy_Get:
  assumes at: "sticky_at items c e j" and k: "k \<noteq> le_key e" and t: "t < le_expires e"
    and g: "lru_Get dl t t k c = (r, c')"
  shows "sticky_busy items c' e k j"
proof -
  obtain xs ys where v: "lru_view items c = xs @ e # ys" "length ys \<le> j" and c: "sticky_cache items c"
    using at by (auto simp: sticky_at_def)
  have inv: "lru_inv items c" using c by (simp add: sticky_cache_def)
  note G = lru_Get[OF inv g]
  have c': "sticky_cache items c'" by (rule sticky_Get(1)[OF c g])
  have len: "length (other_keys k ys) \<le> j" using v(2) length_filter_le[of "\<lambda>e. le_key e \<noteq> k" ys] by linarith
  have other: "other_keys k (xs @ e # ys) = other_keys k xs @ e # other_keys k ys" using k by auto
  have view: "lru_view items c' = snd (abs_get c t t k (xs @ e # ys))" using G v(1) by (metis snd_conv snd_map_prod id_apply)
  show ?thesis
  proof (cases "find_key k (xs @ e # ys)")
    case None
    then have "lru_view items c' = xs @ e # ys" using view by (simp add: abs_get_def del: find_key_None)
    then show ?thesis using c' len by (auto simp: sticky_busy_def)
  next
    case (Some x)
    show ?thesis
    proof (cases "le_expires x \<le> t")
      case True
      then have "lru_view items c' = dropWhile (\<lambda>e. le_expires e \<le> t) (other_keys k xs) @ e # other_keys k ys"
        using view Some c t other dropWhile_keeps[of "\<lambda>e. le_expires e \<le> t" e "other_keys k xs" "other_keys k ys"]
        by (simp add: abs_get_def abs_expire_def sticky_cache_def sticky_ttl_def)
      moreover have "length (other_keys k (other_keys k ys)) \<le> j" using len by (simp add: filter_filter)
      ultimately show ?thesis using c' unfolding sticky_busy_def by blast
    next
      case False
      then have "lru_view items c' = other_keys k xs @ e # (other_keys k ys @ [x])"
        using view Some c other by (simp add: abs_get_def sticky_cache_def)
      moreover have "length (other_keys k (other_keys k ys @ [x])) \<le> j"
        using len Some by (auto simp: filter_filter find_key_def find_Some_iff)
      ultimately show ?thesis using c' unfolding sticky_busy_def by blast
    qed
  qed
qed

lemma busy_set:
  assumes b: "sticky_busy items c e k j" and k: "k \<noteq> le_key e" and t: "t < le_expires e" and j: "j < 999"
  shows "sticky_at items (lru_set dl t t k v c) e (Suc j)"
proof -
  let ?n = "\<lparr>le_key = k, le_value = v, le_expires = t + sticky_ttl\<rparr>"
  obtain xs ys where v: "lru_view items c = xs @ e # ys" "length (other_keys k ys) \<le> j" and c: "sticky_cache items c"
    using b by (auto simp: sticky_busy_def)
  have "\<exists>xs'. abs_push c ?n (xs @ e # ys) = xs' @ e # (other_keys k ys @ [?n])"
  proof (cases "find_key k (xs @ e # ys) = None \<and> lc_maxSize c > 0 \<and> int (length (xs @ e # ys)) + 1 > lc_maxSize c")
    case True
    then have "k \<notin> le_key ` set ys" by auto
    then have ys: "other_keys k ys = ys" by (rule other_keys_id)
    have "lc_maxSize c = 1000" using c by (simp add: sticky_cache_def)
    then have "xs \<noteq> []" using True v(2) j ys by auto
    moreover have "abs_push c ?n (xs @ e # ys) = tl (xs @ e # ys @ [?n])"
      using True by (simp add: abs_push_def del: find_key_None)
    ultimately show ?thesis unfolding ys by auto
  next
    case False
    then have "abs_push c ?n (xs @ e # ys) = other_keys k (xs @ e # ys) @ [?n]"
      by (auto simp add: abs_push_def simp del: find_key_None)
    then show ?thesis using k by auto
  qed
  then obtain xs' where xs': "abs_push c ?n (xs @ e # ys) = xs' @ e # (other_keys k ys @ [?n])" by blast
  have "lru_view items (lru_set dl t t k v c) = dropWhile (\<lambda>e. le_expires e \<le> t) xs' @ e # (other_keys k ys @ [?n])"
    using sticky_set_view[OF c, of t k v] v(1) xs' dropWhile_keeps[of "\<lambda>e. le_expires e \<le> t" e xs'] t by simp
  moreover have "length (other_keys k ys @ [?n]) \<le> Suc j" using v(2) by simp
  ultimately show ?thesis using sticky_set_view[OF c, of t k v] unfolding sticky_at_def by blast
qed

lemma busy_done:
  assumes b: "sticky_busy items c e k j"
  shows "sticky_at items c e (Suc j)"
proof -
  obtain xs ys where v: "lru_view items c = xs @ e # ys" "length (other_keys k ys) \<le> j" and c: "sticky_cache items c"
    using b by (auto simp: sticky_busy_def)
  have "lru_inv items c" using c by (simp add: sticky_cache_def)
  from lru_inv_distinct[OF this] have "distinct (map le_key ys)" by (simp add: v(1))
  then have "length ys \<le> Suc (length (other_keys k ys))"
  proof (induction ys)
    case (Cons y ys)
    then show ?case by (cases "le_key y = k") (auto simp: other_keys_id)
  qed simp
  then show ?thesis using v c unfolding sticky_at_def by (intro conjI exI) auto
qed

lemma other_session:
  assumes at: "sticky_at items c e j" and j: "j < 999" and k: "session_key MapHash etld x \<noteq> le_key e"
    and t: "sc_now x < le_expires e"
    and r: "rounding rnd" "proxies \<noteq> []" "length proxies \<le> 2 ^ 31"
  shows "\<exists>p c'. strategyStickySessions rnd MapHash etld dl (sc_health x) url (sc_nano x) (sc_now x) proxies (sc_md x) c =
      Some (p, c') \<and> sticky_at items c' e (Suc j)"
proof -
  let ?k = "MapHash (getKeyWithSrcAndDst etld (sc_md x))"
  have k': "?k \<noteq> le_key e" using k by (simp add: session_key_def)
  obtain f c0 where g: "lru_Get dl (sc_now x) (sc_now x) ?k c = (f, c0)" by fastforce
  note B = busy_Get[OF at k' t g]
  have len: "int (length proxies) \<le> 2 ^ 31" "0 < int (length proxies)" using r(2,3) by simp_all
  from jumpHash_ends[OF r(1) len(2,1), of "?k + sc_nano x 0"] obtain i where
    i: "jumpHash rnd (?k + sc_nano x 0) (int (length proxies)) = Some i" "0 \<le> i" "i < int (length proxies)" by blast
  define idx where "idx = (case f of Some idx \<Rightarrow> if idx \<ge> length proxies then nat i else idx | None \<Rightarrow> nat i)"
  have idx: "idx < length proxies" using i by (auto simp: idx_def nat_less_iff split: option.split)
  obtain p c' where L: "sticky_loop rnd dl (sc_health x) url proxies ?k (sc_nano x) (sc_now x) (f \<noteq> None) idx idx 1 4 c0 = Some (p, c')"
    "c' = c0 \<or> (\<exists>v. c' = lru_set dl (sc_now x) (sc_now x) ?k v c0)"
    using sticky_loop_ends[OF r idx] by blast
  have "strategyStickySessions rnd MapHash etld dl (sc_health x) url (sc_nano x) (sc_now x) proxies (sc_md x) c = Some (p, c')"
    using L(1) g i(1) by (auto simp: strategyStickySessions_def Let_def idx_def split: option.splits if_splits)
  moreover have "sticky_at items c' e (Suc j)" using L(2) busy_done[OF B] busy_set[OF B k' t j] by auto
  ultimately show ?thesis by blast
qed

text \<open>A connection of the session itself.\<close>

lemma own_session:
  assumes at: "sticky_at items c e j" and k: "session_key MapHash etld x = le_key e" and t: "sc_now x < le_expires e"
    and v: "le_value e < length proxies" "alive (sc_health x) url (proxies ! le_value e)"
  shows "\<exists>c'. strategyStickySessions rnd MapHash etld dl (sc_health x) url (sc_nano x) (sc_now x) proxies (sc_md x) c =
      Some (proxies ! le_value e, c') \<and> sticky_at items c' e 0"
proof -
  obtain xs ys where w: "lru_view items c = xs @ e # ys" and c: "sticky_cache items c"
    using at by (auto simp: sticky_at_def)
  have inv: "lru_inv items c" using c by (simp add: sticky_cache_def)
  obtain f c0 where g: "lru_Get dl (sc_now x) (sc_now x) (le_key e) c = (f, c0)" by fastforce
  have "find_key (le_key e) (lru_view items c) = Some e"
    using find_key_Some[OF lru_inv_distinct[OF inv]] w by simp
  then have "abs_get c (sc_now x) (sc_now x) (le_key e) (lru_view items c) = (Some e, other_keys (le_key e) (lru_view items c) @ [e])"
    using t c by (simp add: abs_get_def sticky_cache_def)
  then have f: "f = Some (le_value e)" "lru_view items c0 = other_keys (le_key e) (lru_view items c) @ [e]"
    using lru_Get[OF inv g] by simp_all
  have "sticky_at items c0 e 0" using sticky_Get(1)[OF c g] f(2) by (auto simp: sticky_at_def)
  moreover have "sticky_loop rnd dl (sc_health x) url proxies (le_key e) (sc_nano x) (sc_now x) True (le_value e) (le_value e) 1 4 c0 =
      Some (proxies ! le_value e, c0)"
    using v by (simp add: eval_nat_numeral)
  ultimately show ?thesis using g f(1) v(1) k by (simp add: strategyStickySessions_def session_key_def Let_def)
qed

lemma session_run:
  assumes "sticky_at items c e j" and "gaps_ok MapHash etld (le_key e) j xs" and "le_value e < length proxies"
    and "\<And>x. x \<in> set xs \<Longrightarrow> sc_now x < le_expires e"
    and "\<And>x. x \<in> set xs \<Longrightarrow> session_key MapHash etld x = le_key e \<Longrightarrow> alive (sc_health x) url (proxies ! le_value e)"
    and r: "rounding rnd" "length proxies \<le> 2 ^ 31"
  shows "\<exists>ps c'. sticky_run rnd MapHash etld dl url proxies xs c = Some (ps, c') \<and> length ps = length xs \<and>
    (\<forall>i < length xs. session_key MapHash etld (xs ! i) = le_key e \<longrightarrow> ps ! i = proxies ! le_value e)"
  using assms(1-5)
proof (induction xs arbitrary: c j)
  case (Cons x xs)
  have "\<exists>p c1 j'. strategyStickySessions rnd MapHash etld dl (sc_health x) url (sc_nano x) (sc_now x) proxies (sc_md x) c = Some (p, c1) \<and>
      sticky_at items c1 e j' \<and> gaps_ok MapHash etld (le_key e) j' xs \<and>
      (session_key MapHash etld x = le_key e \<longrightarrow> p = proxies ! le_value e)"
  proof (cases "session_key MapHash etld x = le_key e")
    case True
    with own_session[where MapHash = MapHash and etld = etld and rnd = rnd, OF Cons.prems(1) True] Cons.prems(2-5)
    show ?thesis by fastforce
  next
    case False
    then have "j < 999" "gaps_ok MapHash etld (le_key e) (Suc j) xs" using Cons.prems(2) by simp_all
    with other_session[OF Cons.prems(1) _ False _ r(1) _ r(2)] Cons.prems(3,4) False show ?thesis by fastforce
  qed
  then obtain p c1 j' where 1: "strategyStickySessions rnd MapHash etld dl (sc_health x) url (sc_nano x) (sc_now x) proxies (sc_md x) c = Some (p, c1)"
    "sticky_at items c1 e j'" "gaps_ok MapHash etld (le_key e) j' xs" "session_key MapHash etld x = le_key e \<longrightarrow> p = proxies ! le_value e"
    by blast
  from Cons.IH[OF 1(2,3) Cons.prems(3)] Cons.prems(4,5) obtain ps c' where
    "sticky_run rnd MapHash etld dl url proxies xs c1 = Some (ps, c')" "length ps = length xs"
    "\<forall>i < length xs. session_key MapHash etld (xs ! i) = le_key e \<longrightarrow> ps ! i = proxies ! le_value e"
    by auto
  then show ?case using 1(1,4) by (intro exI[of _ "p # ps"] exI[of _ c']) (auto simp: nth_Cons split: nat.splits)
qed simp

lemma first_connection:
  assumes c: "sticky_cache items c" "sticky_entry items c (MapHash (getKeyWithSrcAndDst etld md)) = None"
    and first: "strategyStickySessions rnd MapHash etld dl w url nano t proxies md c = Some (p, c1)"
  shows "\<exists>v < length proxies. p = proxies ! v \<and>
    sticky_at items c1 \<lparr>le_key = MapHash (getKeyWithSrcAndDst etld md), le_value = v, le_expires = t + sticky_ttl\<rparr> 0"
proof -
  let ?key = "MapHash (getKeyWithSrcAndDst etld md)"
  obtain r c0 where g: "lru_Get dl t t ?key c = (r, c0)" by fastforce
  note G = sticky_Get[OF c(1) g]
  have "r = None" using G(2) c(2) by blast
  then obtain idx where "sticky_loop rnd dl w url proxies ?key nano t False idx idx 1 4 c0 = Some (p, c1)"
    using first g by (auto simp: strategyStickySessions_def Let_def split: option.splits)
  from sticky_loop_new[OF this] obtain v where v: "v < length proxies" "p = proxies ! v" "c1 = lru_set dl t t ?key v c0"
    by blast
  then show ?thesis using sticky_set_last[OF G(1), of t ?key v] by blast
qed

text \<open>An index beyond a shrunken list is not replaced in the cache.\<close>

lemma stale_index_stays:
  assumes c: "sticky_cache items c"
    "sticky_entry items c (MapHash (getKeyWithSrcAndDst etld md)) = Some e"
    and e: "t < le_expires e" "length proxies \<le> le_value e"
    and j: "jumpHash rnd (MapHash (getKeyWithSrcAndDst etld md) + nano 0) (int (length proxies)) = Some (int v)"
      "v < length proxies" "alive w url (proxies ! v)"
  shows "\<exists>c1. strategyStickySessions rnd MapHash etld dl w url nano t proxies md c = Some (proxies ! v, c1) \<and>
    sticky_cache items c1 \<and> sticky_entry items c1 (MapHash (getKeyWithSrcAndDst etld md)) = Some e"
proof -
  let ?key = "MapHash (getKeyWithSrcAndDst etld md)"
  obtain r c1 where g: "lru_Get dl t t ?key c = (r, c1)" by fastforce
  note G = sticky_Get[OF c(1) g]
  have r: "r = Some (le_value e)" "sticky_entry items c1 ?key = Some e" using G(3)[OF c(2) e(1)] by simp_all
  have "sticky_loop rnd dl w url proxies ?key nano t True v v 1 4 c1 = Some (proxies ! v, c1)"
    using j(2,3) by (simp add: eval_nat_numeral)
  then have "strategyStickySessions rnd MapHash etld dl w url nano t proxies md c = Some (proxies ! v, c1)"
    using g r(1) e(2) j(1) by (simp add: strategyStickySessions_def Let_def)
  with G(1) r(2) show ?thesis by blast
qed

end

section \<open>Properties\<close>

text \<open>
  For every key and every number of buckets up to 2^31 the jump hash returns a bucket, and adding one
  bucket moves a key nowhere but to the new bucket. Of floating point only this is used: rounding is
  monotone and exact on small integers.
\<close>

theorem jumpHash_consistent:
  assumes "rounding rnd" and "0 < n" and "n < 2 ^ 31"
  shows "\<exists>i i'. jumpHash rnd key n = Some i \<and> 0 \<le> i \<and> i < n \<and>
    jumpHash rnd key (n + 1) = Some i' \<and> (i' = i \<or> i' = n)"
proof -
  obtain i where i: "jumpHash rnd key n = Some i" "0 \<le> i" "i < n" using jumpHash_ends[OF assms(1,2)] assms(3) by auto
  obtain i' where i': "jumpHash rnd key (n + 1) = Some i'" using jumpHash_ends[OF assms(1), of "n + 1" key] assms(2,3) by auto
  have "i' = i \<or> i' = n"
    by (rule jump_loop_consistent[OF assms(1,3), of 0 key 0]) (use i i' in \<open>simp_all add: jumpHash_def\<close>)
  with i i' show ?thesis by blast
qed

text \<open>
  C16: consistent hashing always answers with a proxy of the list, and with a living one if any lives; and while
  all proxies live, a proxy added at the end takes connections over but moves none between the others.
\<close>

theorem consistent_hashing_correct:
  assumes "rounding rnd" and "proxies \<noteq> []" and "length proxies < 2 ^ 31"
  shows "\<exists>p. strategyConsistentHashing rnd MapHash etld w url proxies md = Some p \<and> p \<in> set proxies \<and>
    (alive w url p \<or> (\<forall>q \<in> set proxies. \<not> alive w url q)) \<and>
    (\<forall>q. (\<forall>p \<in> set (proxies @ [new]). alive w url p) \<and>
      strategyConsistentHashing rnd MapHash etld w url (proxies @ [new]) md = Some q \<longrightarrow> q = p \<or> q = new)"
proof -
  have "length proxies \<le> 2 ^ 31" using assms(3) by simp
  from consistent_hashing_alive[where rnd = rnd and w = w and url = url and MapHash = MapHash and etld = etld and md = md,
      OF assms(1,2) this]
  obtain p where p: "strategyConsistentHashing rnd MapHash etld w url proxies md = Some p" "p \<in> set proxies"
    "alive w url p \<or> (\<forall>q \<in> set proxies. \<not> alive w url q)" by blast
  have "q = p \<or> q = new" if "\<forall>p \<in> set (proxies @ [new]). alive w url p"
    "strategyConsistentHashing rnd MapHash etld w url (proxies @ [new]) md = Some q" for q
    using consistent_hashing_stable[where rnd = rnd and w = w and url = url and MapHash = MapHash and etld = etld and md = md
        and proxies = proxies and new = new and p = p and q = q] assms that p(1) by blast
  with p show ?thesis by blast
qed

text \<open>
  C17: a session (source and destination) the cache does not know yet keeps the proxy it is given: whatever connections
  come in the ten minutes from then, of this and of other sessions, with whatever clocks and health of the proxies,
  each of them gets a proxy, and all of the session's own get the first one's, as long as it lives at these, the list of
  proxies stays, and fewer than a thousand connections of other sessions come in a row.
\<close>

theorem sticky_session_sticks:
  assumes "linked_list dl items" and "sticky_cache items c" and "rounding rnd" and "length proxies < 2 ^ 31"
    and "sticky_entry items c (MapHash (getKeyWithSrcAndDst etld md)) = None"
    and "strategyStickySessions rnd MapHash etld dl w url nano t proxies md c = Some (p, c1)"
    and "gaps_ok MapHash etld (MapHash (getKeyWithSrcAndDst etld md)) 0 xs"
    and "\<And>x. x \<in> set xs \<Longrightarrow> sc_now x < t + sticky_ttl"
    and "\<And>x. x \<in> set xs \<Longrightarrow> session_key MapHash etld x = MapHash (getKeyWithSrcAndDst etld md) \<Longrightarrow> alive (sc_health x) url p"
  shows "\<exists>ps c2. sticky_run rnd MapHash etld dl url proxies xs c1 = Some (ps, c2) \<and> length ps = length xs \<and>
    (\<forall>i < length xs. session_key MapHash etld (xs ! i) = MapHash (getKeyWithSrcAndDst etld md) \<longrightarrow> ps ! i = p)"
proof -
  let ?key = "MapHash (getKeyWithSrcAndDst etld md)"
  from linked_list.first_connection[where MapHash = MapHash and etld = etld, OF assms(1,2,5,6)] obtain v where
    v: "v < length proxies" "p = proxies ! v"
      "sticky_at items c1 \<lparr>le_key = ?key, le_value = v, le_expires = t + sticky_ttl\<rparr> 0" by blast
  have len: "length proxies \<le> 2 ^ 31" using assms(4) by simp
  from linked_list.session_run[where MapHash = MapHash and etld = etld and proxies = proxies, OF assms(1) v(3), of xs url rnd]
  show ?thesis using assms v(1,2) len by simp
qed

text \<open>
  When the list of proxies shrinks below a session's index, the proxy chosen instead is not stored: the
  stale index stays in the cache, so each later connection of the session is placed by the clock anew.
\<close>

theorem sticky_index_not_replaced:
  assumes "linked_list dl items" and "sticky_cache items c"
    and "sticky_entry items c (MapHash (getKeyWithSrcAndDst etld md)) = Some e"
    and "t < le_expires e" and "length proxies \<le> le_value e"
    and "jumpHash rnd (MapHash (getKeyWithSrcAndDst etld md) + nano 0) (int (length proxies)) = Some (int v)"
    and "v < length proxies" and "alive w url (proxies ! v)"
  shows "\<exists>c1. strategyStickySessions rnd MapHash etld dl w url nano t proxies md c = Some (proxies ! v, c1) \<and>
    sticky_cache items c1 \<and> sticky_entry items c1 (MapHash (getKeyWithSrcAndDst etld md)) = Some e"
  using linked_list.stale_index_stays[where MapHash = MapHash and etld = etld and rnd = rnd and nano = nano, OF assms] .

section \<open>Witnesses\<close>

definition proxy_named :: "nat \<Rightarrow> gproxy" where
  "proxy_named n = \<lparr>gp_id = n, gp_Name = [char_of (n + 97)], gp_Type = ''Shadowsocks''\<rparr>"

definition only_alive :: "nat list \<Rightarrow> health" where
  "only_alive ids = \<lparr>h_alive = (\<lambda>i url. i \<in> set ids), h_delay = (\<lambda>i url. 0)\<rparr>"

lemma jumpHash_0: "n \<le> 2 ^ 31 \<Longrightarrow> 0 < n \<Longrightarrow> jumpHash (\<lambda>x. x) 0 n = Some 0"
proof -
  assume n: "n \<le> 2 ^ 31" "0 < n"
  have "jump_loop (\<lambda>x. x) n (next_key 0) 0 (jump_next (\<lambda>x. x) 0 (next_key 0)) = Some 0"
    by (rule jump_loop_done) (use n in \<open>simp add: next_key_def jump_next_def drop_bit_eq_div\<close>)
  then show ?thesis using jump_loop_less[OF n(2), of "\<lambda>x. x" 0 0] by (simp add: jumpHash_def)
qed

theorem jumpHash_consistent_witness: "\<exists>i. jumpHash (\<lambda>x. x) 7 3 = Some i \<and> 0 \<le> i \<and> i < 3"
  using jumpHash_consistent[OF rounding_id, of 3 7] by auto

theorem consistent_hashing_correct_witness:
  "strategyConsistentHashing (\<lambda>x. x) (\<lambda>_. 0) (\<lambda>_. None) (only_alive [1]) ''u'' [proxy_named 0, proxy_named 1] None =
     Some (proxy_named 1)"
  using consistent_hashing_correct[OF rounding_id, of "[proxy_named 0, proxy_named 1]" "\<lambda>_. 0" "\<lambda>_. None" "only_alive [1]" "''u''" None]
  by (auto simp: only_alive_def proxy_named_def)

lemma empty_session: "sticky_entry (\<lambda>l. l) (sticky_New hlist_ops) k = None"
  by (simp add: sticky_entry_def sticky_New_def lru_New_def lru_view_def hlist_ops_def find_key_def)

lemma first_session:
  "strategyStickySessions (\<lambda>x. x) (\<lambda>_. 0) (\<lambda>_. None) hlist_ops (only_alive [0]) ''u'' (\<lambda>_. 0) 5
     [proxy_named 0, proxy_named 1] None (sticky_New hlist_ops) =
   Some (proxy_named 0, lru_set hlist_ops 5 5 0 0 (sticky_New hlist_ops))"
  by (simp add: strategyStickySessions_def lru_Get_def lru_get_def sticky_New_def lru_New_def jumpHash_0
      eval_nat_numeral only_alive_def proxy_named_def)

definition demo_conn :: "u32 \<Rightarrow> int \<Rightarrow> sticky_conn" where
  "demo_conn src now = \<lparr>sc_md = Some (zero_metadata\<lparr>md_SrcIP := V4 src\<rparr>), sc_nano = (\<lambda>_. 3), sc_now = now, sc_health = only_alive [0, 1]\<rparr>"

text \<open>A hash that tells the sources 0.0.0.1 and 0.0.0.2 apart.\<close>

definition demo_hash :: "string \<Rightarrow> u64" where
  "demo_hash s = (if s = ''0.0.0.1'' then 0 else 1)"

lemma demo_keys:
  "demo_hash (getKeyWithSrcAndDst (\<lambda>_. None) (Some (zero_metadata\<lparr>md_SrcIP := V4 1\<rparr>))) = 0"
  "session_key demo_hash (\<lambda>_. None) (demo_conn 1 now) = 0" "session_key demo_hash (\<lambda>_. None) (demo_conn 2 now) = 1"
proof -
  have "getKeyWithSrcAndDst (\<lambda>_. None) (Some (zero_metadata\<lparr>md_SrcIP := V4 1\<rparr>)) = ''0.0.0.1''"
    "getKeyWithSrcAndDst (\<lambda>_. None) (Some (zero_metadata\<lparr>md_SrcIP := V4 2\<rparr>)) \<noteq> ''0.0.0.1''" by code_simp+
  then show "demo_hash (getKeyWithSrcAndDst (\<lambda>_. None) (Some (zero_metadata\<lparr>md_SrcIP := V4 1\<rparr>))) = 0"
    "session_key demo_hash (\<lambda>_. None) (demo_conn 1 now) = 0" "session_key demo_hash (\<lambda>_. None) (demo_conn 2 now) = 1"
    by (simp_all add: session_key_def demo_conn_def demo_hash_def)
qed

lemma first_of_session:
  "strategyStickySessions (\<lambda>x. x) demo_hash (\<lambda>_. None) hlist_ops (only_alive [0]) ''u'' (\<lambda>_. 0) 5
     [proxy_named 0, proxy_named 1] (Some (zero_metadata\<lparr>md_SrcIP := V4 1\<rparr>)) (sticky_New hlist_ops) =
   Some (proxy_named 0, lru_set hlist_ops 5 5 0 0 (sticky_New hlist_ops))"
  by (simp add: strategyStickySessions_def lru_Get_def lru_get_def sticky_New_def lru_New_def jumpHash_0 demo_keys(1)
      eval_nat_numeral only_alive_def proxy_named_def)

theorem sticky_session_sticks_witness:
  "\<exists>q c2. sticky_run (\<lambda>x. x) demo_hash (\<lambda>_. None) hlist_ops ''u'' [proxy_named 0, proxy_named 1]
     [demo_conn 1 9, demo_conn 2 100, demo_conn 1 604] (lru_set hlist_ops 5 5 0 0 (sticky_New hlist_ops)) =
     Some ([proxy_named 0, q, proxy_named 0], c2)"
proof -
  let ?md = "Some (zero_metadata\<lparr>md_SrcIP := V4 1\<rparr>)" and ?xs = "[demo_conn 1 9, demo_conn 2 100, demo_conn 1 604]"
  have "\<exists>ps c2. sticky_run (\<lambda>x. x) demo_hash (\<lambda>_. None) hlist_ops ''u'' [proxy_named 0, proxy_named 1] ?xs
      (lru_set hlist_ops 5 5 0 0 (sticky_New hlist_ops)) = Some (ps, c2) \<and> length ps = length ?xs \<and>
    (\<forall>i < length ?xs. session_key demo_hash (\<lambda>_. None) (?xs ! i) = demo_hash (getKeyWithSrcAndDst (\<lambda>_. None) ?md) \<longrightarrow> ps ! i = proxy_named 0)"
  proof (rule sticky_session_sticks[OF hl.linked_list_axioms hl.sticky_New rounding_id _ empty_session first_of_session])
    show "gaps_ok demo_hash (\<lambda>_. None) (demo_hash (getKeyWithSrcAndDst (\<lambda>_. None) ?md)) 0 ?xs"
      by (simp add: demo_keys)
  qed (auto simp: demo_conn_def sticky_ttl_def only_alive_def proxy_named_def)
  then obtain ps c2 where ps: "sticky_run (\<lambda>x. x) demo_hash (\<lambda>_. None) hlist_ops ''u'' [proxy_named 0, proxy_named 1] ?xs
      (lru_set hlist_ops 5 5 0 0 (sticky_New hlist_ops)) = Some (ps, c2)" "length ps = 3"
    "ps ! 0 = proxy_named 0" "ps ! 2 = proxy_named 0"
    by (auto simp: demo_keys All_less_Suc eval_nat_numeral)
  then have "ps = [proxy_named 0, ps ! 1, proxy_named 0]"
    by (auto simp: list_eq_iff_nth_eq All_less_Suc eval_nat_numeral)
  with ps(1) show ?thesis by metis
qed

text \<open>
  Sticky sessions may use a dead proxy although others live: when the clock leads the tries to dead ones, the
  first proxy of the list is used and stored without asking whether it lives.
\<close>

theorem sticky_uses_dead_proxy:
  "strategyStickySessions (\<lambda>x. x) (\<lambda>_. 0) (\<lambda>_. None) hlist_ops (only_alive [1]) ''u'' (\<lambda>_. 0) 5
     [proxy_named 0, proxy_named 1] None (sticky_New hlist_ops) =
   Some (proxy_named 0, lru_set hlist_ops 5 5 0 0 (sticky_New hlist_ops)) \<and>
   \<not> alive (only_alive [1]) ''u'' (proxy_named 0) \<and> alive (only_alive [1]) ''u'' (proxy_named 1)"
  by (simp add: strategyStickySessions_def lru_Get_def lru_get_def sticky_New_def lru_New_def jumpHash_0
      eval_nat_numeral only_alive_def proxy_named_def strategy_fallback_def)

text \<open>
  The key of a session joins source and destination without a separator, so different sessions share a key:
  source 0.0.0.1 to the site 2b.com and source 0.0.0.12 to the site b.com.
\<close>

theorem sticky_key_ambiguous:
  "getKeyWithSrcAndDst Some (Some (zero_metadata\<lparr>md_SrcIP := V4 1, md_Host := ''2b.com''\<rparr>)) =
   getKeyWithSrcAndDst Some (Some (zero_metadata\<lparr>md_SrcIP := V4 12, md_Host := ''b.com''\<rparr>))"
  by code_simp

theorem sticky_index_not_replaced_witness:
  "\<exists>c1. strategyStickySessions (\<lambda>x. x) (\<lambda>_. 0) (\<lambda>_. None) hlist_ops (only_alive [0]) ''u'' (\<lambda>_. 0) 7
      [proxy_named 0] None (lru_set hlist_ops 5 5 0 1 (sticky_New hlist_ops)) = Some (proxy_named 0, c1) \<and>
    sticky_entry (\<lambda>l. l) c1 0 = Some \<lparr>le_key = 0, le_value = 1, le_expires = 605\<rparr>"
proof -
  have e: "sticky_cache (\<lambda>l. l) (lru_set hlist_ops 5 5 0 1 (sticky_New hlist_ops))"
    "sticky_entry (\<lambda>l. l) (lru_set hlist_ops 5 5 0 1 (sticky_New hlist_ops)) 0 =
      Some \<lparr>le_key = 0, le_value = 1, le_expires = 605\<rparr>"
    using hl.sticky_Set[OF hl.sticky_New refl, of 5 0 1] by (simp_all add: sticky_ttl_def)
  from sticky_index_not_replaced[OF hl.linked_list_axioms e(1), where MapHash = "\<lambda>_. 0" and etld = "\<lambda>_. None" and md = None
      and t = 7 and proxies = "[proxy_named 0]" and rnd = "\<lambda>x. x" and nano = "\<lambda>_. 0" and v = 0 and w = "only_alive [0]"
      and url = "''u''", OF e(2)]
  show ?thesis by (auto simp: jumpHash_0 only_alive_def proxy_named_def)
qed

end
