(* ===== verification/ProxyHealth.thy ===== *)
theory ProxyHealth imports ProxyGroups IntRanges "HOL-Library.AList" begin

text \<open>
  adapter/adapter.go with common/queue/queue.go: a proxy with the record of its tests, in general and for
  each test URL. A test dials the host of the URL and asks for its head; what the network answers and the
  clock are in the record \<open>test_env\<close>. Times are nanoseconds.
\<close>

section \<open>common/queue\<close>

text \<open>The items of a queue; \<open>zero\<close> is the zero value that an empty queue answers.\<close>

definition q_Put :: "'a list \<Rightarrow> 'a list \<Rightarrow> 'a list" where
  "q_Put items q = (if length items = 0 then q else q @ items)"

definition q_Pop :: "'a \<Rightarrow> 'a list \<Rightarrow> 'a \<times> 'a list" where
  "q_Pop zero q = (if length q = 0 then (zero, q) else (q ! 0, drop 1 q))"

definition q_Last :: "'a \<Rightarrow> 'a list \<Rightarrow> 'a" where
  "q_Last zero q = (if length q = 0 then zero else q ! (length q - 1))"

definition q_Copy :: "'a list \<Rightarrow> 'a list" where
  "q_Copy q = q"

definition q_Len :: "'a list \<Rightarrow> nat" where
  "q_Len q = length q"

section \<open>Proxies\<close>

record delay_history =
  dh_Time :: int
  dh_Delay :: u16

definition zero_history :: delay_history where
  "zero_history = \<lparr>dh_Time = 0, dh_Delay = 0\<rparr>"

record proxy_state =
  ps_alive :: bool
  ps_history :: "delay_history list"

record tested_proxy =
  px_alive :: bool
  px_history :: "delay_history list"
  px_extra :: "string \<rightharpoonup> proxy_state"

definition defaultHistoriesNum :: nat where
  "defaultHistoriesNum = 10"

definition NewProxy :: tested_proxy where
  "NewProxy = \<lparr>px_alive = True, px_history = [], px_extra = Map.empty\<rparr>"

definition AliveForTestUrl :: "tested_proxy \<Rightarrow> string \<Rightarrow> bool" where
  "AliveForTestUrl p url = (case px_extra p url of Some state \<Rightarrow> ps_alive state | None \<Rightarrow> px_alive p)"

definition DelayHistory :: "tested_proxy \<Rightarrow> delay_history list" where
  "DelayHistory p = q_Copy (px_history p)"

definition DelayHistoryForTestUrl :: "tested_proxy \<Rightarrow> string \<Rightarrow> delay_history list" where
  "DelayHistoryForTestUrl p url = (case px_extra p url of Some state \<Rightarrow> q_Copy (ps_history state) | None \<Rightarrow> [])"

definition ExtraDelayHistories :: "tested_proxy \<Rightarrow> string \<rightharpoonup> bool \<times> delay_history list" where
  "ExtraDelayHistories p = map_option (\<lambda>state. (ps_alive state, q_Copy (ps_history state))) \<circ> px_extra p"

definition LastDelayForTestUrl :: "tested_proxy \<Rightarrow> string \<Rightarrow> u16" where
  "LastDelayForTestUrl p url =
     (let maxDelay = 0xffff;
          (alive, history) = (case px_extra p url of
                                Some state \<Rightarrow> (ps_alive state, q_Last zero_history (ps_history state))
                              | None \<Rightarrow> (False, zero_history)) in
      if \<not> alive \<or> dh_Delay history = 0 then maxDelay else dh_Delay history)"

section \<open>The test of a proxy\<close>

text \<open>
  What \<open>URLTest\<close> meets: \<open>url.Parse\<close> (scheme, host name and port), the dial, the request and the TLS
  configuration, the first and second response (an error or the status code), the clock when the dial
  starts, between the requests and at the end, and the clock when the deferred function runs.
\<close>

record 'e test_env =
  te_Parse :: "string \<Rightarrow> 'e + (string \<times> string \<times> string)"
  te_dial :: "metadata \<Rightarrow> 'e option"
  te_NewRequest :: "string \<Rightarrow> 'e option"
  te_GetTLSConfig :: "'e option"
  te_first :: "'e + int"
  te_second :: "'e + int"
  te_start :: int
  te_between :: int
  te_end :: int
  te_now :: int

datatype 'e test_error = TestError 'e | SchemeNotSupport string | BadAddress addr_error

definition urlToMetadata :: "'e test_env \<Rightarrow> string \<Rightarrow> 'e test_error + metadata" where
  "urlToMetadata te rawURL =
     (case te_Parse te rawURL of
        Inl e \<Rightarrow> Inl (TestError e)
      | Inr (scheme, hostname, port0) \<Rightarrow>
          (case (if port0 = '''' then
                   (if scheme = ''https'' then Some ''443'' else if scheme = ''http'' then Some ''80'' else None)
                 else Some port0) of
             None \<Rightarrow> Inl (SchemeNotSupport rawURL)
           | Some port \<Rightarrow>
               (case SetRemoteAddress zero_metadata (JoinHostPort hostname port) of
                  Inl e \<Rightarrow> Inl (BadAddress e)
                | Inr addr \<Rightarrow> Inr addr)))"

text \<open>The deferred function: the outcome of the test goes into the two records.\<close>

definition put_record :: "delay_history \<Rightarrow> delay_history list \<Rightarrow> delay_history list" where
  "put_record r q =
     (let q1 = q_Put [r] q in if q_Len q1 > defaultHistoriesNum then snd (q_Pop zero_history q1) else q1)"

definition record_test :: "int \<Rightarrow> string \<Rightarrow> bool \<Rightarrow> bool \<Rightarrow> u16 \<Rightarrow> tested_proxy \<Rightarrow> tested_proxy" where
  "record_test now url ok satisfied t p =
     (let alive = ok;
          rec = \<lparr>dh_Time = now, dh_Delay = (if alive then t else 0)\<rparr>;
          p1 = p\<lparr>px_alive := alive, px_history := put_record rec (px_history p)\<rparr>;
          state = (case px_extra p1 url of Some st \<Rightarrow> st | None \<Rightarrow> \<lparr>ps_alive = True, ps_history = []\<rparr>);
          rec2 = (if \<not> satisfied then rec\<lparr>dh_Delay := 0\<rparr> else rec);
          alive2 = (if \<not> satisfied then False else alive);
          state2 = state\<lparr>ps_alive := alive2, ps_history := put_record rec2 (ps_history state)\<rparr> in
      p1\<lparr>px_extra := (px_extra p1)(url \<mapsto> state2)\<rparr>)"

text \<open>
  The body: the error or the delay, and whether the status was satisfactory. \<open>expectedStatus\<close> is None for
  nil; a status code and the delay in milliseconds are cut to 16 bits.
\<close>

definition test_body ::
  "'e test_env \<Rightarrow> bool \<Rightarrow> string \<Rightarrow> u16 range list option \<Rightarrow> ('e test_error + u16) \<times> bool" where
  "test_body te unifiedDelay url expectedStatus =
     (case urlToMetadata te url of
        Inl e \<Rightarrow> (Inl e, False)
      | Inr addr \<Rightarrow>
          (case first_some (te_dial te addr) (first_some (te_NewRequest te url) (te_GetTLSConfig te)) of
             Some e \<Rightarrow> (Inl (TestError e), False)
           | None \<Rightarrow>
               (case te_first te of
                  Inl e \<Rightarrow> (Inl (TestError e), False)
                | Inr status0 \<Rightarrow>
                    let (status, start) =
                          (if unifiedDelay then
                             (case te_second te of Inr s \<Rightarrow> (s, te_between te) | Inl e \<Rightarrow> (status0, te_start te))
                           else (status0, te_start te));
                        satisfied = (case expectedStatus of None \<Rightarrow> True | Some rs \<Rightarrow> ranges_Check rs (word_of_int status)) in
                    (Inr (word_of_int ((te_end te - start) div 1000000)), satisfied))))"

definition URLTest ::
  "'e test_env \<Rightarrow> bool \<Rightarrow> string \<Rightarrow> u16 range list option \<Rightarrow> tested_proxy \<Rightarrow>
   ('e test_error + u16) \<times> tested_proxy" where
  "URLTest te unifiedDelay url expectedStatus p =
     (case test_body te unifiedDelay url expectedStatus of
        (res, satisfied) \<Rightarrow>
          (res, record_test (te_now te) url (\<not> isl res) satisfied (case res of Inl e \<Rightarrow> 0 | Inr t \<Rightarrow> t) p))"

section \<open>The test of a group\<close>

text \<open>
  \<open>GroupBase.URLTest\<close>: the delays by name of the proxies whose test succeeded; the tests run at the same time,
  here with their results in the order in which
  they take the lock. The map is an association list; False is the error.
\<close>

definition group_URLTest :: "(string \<times> ('e + u16)) list \<Rightarrow> (string \<times> u16) list \<times> bool" where
  "group_URLTest results =
     (let mp = foldl (\<lambda>mp (name, r). case r of Inl e \<Rightarrow> mp | Inr t \<Rightarrow> AList.update name t mp) [] results in
      if length mp = 0 then (mp, False) else (mp, True))"

text \<open>The health the groups of ProxyGroups ask for, given the proxies behind the identities.\<close>

definition health_of :: "(nat \<Rightarrow> tested_proxy) \<Rightarrow> health" where
  "health_of px = \<lparr>h_alive = \<lambda>i url. AliveForTestUrl (px i) url, h_delay = \<lambda>i url. LastDelayForTestUrl (px i) url\<rparr>"

end
