(* ===== verification/HealthCheck.thy ===== *)
theory HealthCheck imports ProxyHealth begin

text \<open>
  adapter/provider/healthcheck.go: which proxies of a provider are tested for which URLs, and when;
  the failure counter of a group (adapter/outboundgroup/groupbase.go); the relay group; and
  adapter/outboundgroup/parser.go, which builds a group from its options and registers its test URL with its
  providers. Regular expressions are compiled by the argument \<open>compile\<close>, whose None is the panic of
  \<open>MustCompile\<close>.
\<close>

section \<open>Tests of a provider\<close>

text \<open>A \<open>time.Duration\<close>: a signed number of nanoseconds of 64 bits.\<close>

definition duration :: "int \<Rightarrow> int" where
  "duration n = signed_take_bit 63 n"

record extra_option =
  eo_expectedStatus :: "u16 range list option"
  eo_filters :: "string list"

record health_check =
  hc_url :: string
  hc_extra :: "(string \<times> extra_option) list"
  hc_proxies :: "gproxy list"
  hc_interval :: int
  hc_lazy :: bool
  hc_expectedStatus :: "u16 range list option"
  hc_lastTouch :: int
  hc_timeout :: int

definition NewHealthCheck ::
  "gproxy list \<Rightarrow> string \<Rightarrow> int \<Rightarrow> int \<Rightarrow> bool \<Rightarrow> u16 range list option \<Rightarrow> health_check" where
  "NewHealthCheck proxies url timeout interval lazy expectedStatus =
     \<lparr>hc_url = url, hc_extra = [], hc_proxies = proxies,
      hc_interval = duration ((if url = '''' then 0 else interval) * 1000000000), hc_lazy = lazy,
      hc_expectedStatus = (if url = '''' then None else expectedStatus), hc_lastTouch = 0,
      hc_timeout = duration ((if timeout = 0 then 5000 else timeout) * 1000000)\<rparr>"

definition hc_setProxies :: "gproxy list \<Rightarrow> health_check \<Rightarrow> health_check" where
  "hc_setProxies proxies hc = hc\<lparr>hc_proxies := proxies\<rparr>"

definition hc_auto :: "health_check \<Rightarrow> bool" where
  "hc_auto hc = (hc_interval hc \<noteq> 0)"

definition hc_touch :: "int \<Rightarrow> health_check \<Rightarrow> health_check" where
  "hc_touch now hc = hc\<lparr>hc_lastTouch := now\<rparr>"

text \<open>The filters of an option are a set of expressions, kept without duplicates.\<close>

definition add_filter :: "string \<Rightarrow> string list \<Rightarrow> string list" where
  "add_filter regex filters =
     (let regex = TrimSpace regex in
      if length regex \<noteq> 0 then (if regex \<in> set filters then filters else filters @ [regex]) else filters)"

definition splitAndAddFiltersToExtra :: "string \<Rightarrow> extra_option \<Rightarrow> extra_option" where
  "splitAndAddFiltersToExtra flt option =
     (let flt = TrimSpace flt in
      if length flt \<noteq> 0 then option\<lparr>eo_filters := fold add_filter (Split flt CHR ''`'') (eo_filters option)\<rparr>
      else option)"

definition registerHealthCheckTask ::
  "string \<Rightarrow> u16 range list option \<Rightarrow> string \<Rightarrow> int \<Rightarrow> health_check \<Rightarrow> health_check" where
  "registerHealthCheckTask url0 expectedStatus flt interval hc =
     (let url = TrimSpace url0 in
      if length url = 0 \<or> url = hc_url hc then hc
      else
        let hc1 = (if hc_interval hc = 0 then hc\<lparr>hc_interval := duration (interval * 1000000000)\<rparr> else hc) in
        case map_of (hc_extra hc1) url of
          Some option \<Rightarrow>
            if url \<noteq> hc_url hc1 \<and> length flt \<noteq> 0
            then hc1\<lparr>hc_extra := AList.update url (splitAndAddFiltersToExtra flt option) (hc_extra hc1)\<rparr>
            else hc1
        | None \<Rightarrow>
            let option = splitAndAddFiltersToExtra flt \<lparr>eo_expectedStatus = expectedStatus, eo_filters = []\<rparr> in
            hc1\<lparr>hc_extra := AList.update url option (hc_extra hc1)\<rparr>)"

text \<open>
  \<open>execute\<close>: the tests it starts, as URL, expected status and proxy. \<open>ord\<close> is the order in which Go goes through
  the map of filters: it rearranges a list.
\<close>

type_synonym test_task = "string \<times> u16 range list option \<times> gproxy"

definition execute ::
  "(string list \<Rightarrow> string list) \<Rightarrow> (string \<Rightarrow> (string \<Rightarrow> bool) option) \<Rightarrow> string \<Rightarrow> extra_option \<Rightarrow> health_check \<Rightarrow> test_task list option" where
  "execute ord compile url0 option hc =
     (let url = TrimSpace url0 in
      if length url = 0 then Some []
      else
        let tasks = (\<lambda>f. map (\<lambda>p. (url, eo_expectedStatus option, p)) (filter (\<lambda>p. f (gp_Name p)) (hc_proxies hc))) in
        if length (eo_filters option) \<noteq> 0 then map_option tasks (compile (Join (ord (eo_filters option)) ''|''))
        else Some (tasks (\<lambda>_. True)))"

fun execute_all ::
  "(string list \<Rightarrow> string list) \<Rightarrow> (string \<Rightarrow> (string \<Rightarrow> bool) option) \<Rightarrow> (string \<times> extra_option) list \<Rightarrow> health_check \<Rightarrow> test_task list option" where
  "execute_all ord compile [] hc = Some []"
| "execute_all ord compile ((url, option) # rest) hc =
     (case execute ord compile url option hc of
        None \<Rightarrow> None
      | Some tasks \<Rightarrow> map_option (append tasks) (execute_all ord compile rest hc))"

text \<open>\<open>check\<close>: at most one run in a second (\<open>singleDo\<close>). The tests started, none when the last run is shared.\<close>

definition check_tasks ::
  "(string list \<Rightarrow> string list) \<Rightarrow> (string \<Rightarrow> (string \<Rightarrow> bool) option) \<Rightarrow> health_check \<Rightarrow> test_task list option" where
  "check_tasks ord compile hc =
     execute_all ord compile
       ((hc_url hc, \<lparr>eo_expectedStatus = hc_expectedStatus hc, eo_filters = []\<rparr>) # hc_extra hc) hc"

definition hc_check ::
  "(string list \<Rightarrow> string list) \<Rightarrow> (string \<Rightarrow> (string \<Rightarrow> bool) option) \<Rightarrow> nat \<Rightarrow> test_task list option single \<Rightarrow> health_check \<Rightarrow>
   test_task list option \<times> test_task list option single" where
  "hc_check ord compile now sg hc =
     (if length (hc_proxies hc) = 0 then (Some [], sg)
      else case Single_Do now (\<lambda>u. (check_tasks ord compile hc, u)) sg () of
        ((v, shared), sg', u) \<Rightarrow> ((if shared then Some [] else v), sg'))"

text \<open>\<open>process\<close>: whether a tick of the clock leads to a check.\<close>

definition process_tick :: "int \<Rightarrow> health_check \<Rightarrow> bool" where
  "process_tick now hc = (let since = now - hc_lastTouch hc in \<not> hc_lazy hc \<or> since < hc_interval hc)"

section \<open>Failures of a group\<close>

text \<open>The part of GroupBase that counts failed dials; times are nanoseconds.\<close>

record fail_state =
  gb_failedTimes :: int
  gb_failedTime :: int
  gb_failedTesting :: bool
  gb_TestTimeout :: int
  gb_maxFailedTimes :: int

definition new_fail_state :: "int \<Rightarrow> int \<Rightarrow> fail_state" where
  "new_fail_state testTimeout maxFailedTimes =
     \<lparr>gb_failedTimes = 0, gb_failedTime = 0, gb_failedTesting = False,
      gb_TestTimeout = (if testTimeout = 0 then 5000 else testTimeout),
      gb_maxFailedTimes = (if maxFailedTimes = 0 then 5 else maxFailedTimes)\<rparr>"

text \<open>The error of a dial: \<open>ErrNotSupport\<close>, or another one by its message.\<close>

datatype dial_error = ErrNotSupport | DialError string

text \<open>
  \<open>onDialFailed\<close>, with its goroutine in one piece: whether it calls \<open>fn\<close> (the health check of the group), and the
  new state. The mutex orders the counting of different failures.
\<close>

definition onDialFailed :: "string \<Rightarrow> dial_error \<Rightarrow> int \<Rightarrow> fail_state \<Rightarrow> bool \<times> fail_state" where
  "onDialFailed adapterType err now gb =
     (if adapterType \<in> {''Direct'', ''Compatible'', ''Reject'', ''Pass'', ''RejectDrop''} then (False, gb)
      else case err of
        ErrNotSupport \<Rightarrow> (False, gb)
      | DialError msg \<Rightarrow>
          if Contains msg ''connection refused'' then (True, gb)
          else
            let gb1 = gb\<lparr>gb_failedTimes := gb_failedTimes gb + 1\<rparr> in
            if gb_failedTimes gb1 = 1 then (False, gb1\<lparr>gb_failedTime := now\<rparr>)
            else if now - gb_failedTime gb1 > duration (gb_TestTimeout gb1 * 1000000) then (False, gb1\<lparr>gb_failedTimes := 0\<rparr>)
            else (gb_failedTimes gb1 \<ge> gb_maxFailedTimes gb1, gb1))"

text \<open>\<open>healthCheck\<close> up to the start of the providers' checks (whether it starts them), and after them.\<close>

definition healthCheck_begin :: "fail_state \<Rightarrow> bool \<times> fail_state" where
  "healthCheck_begin gb = (if gb_failedTesting gb then (False, gb) else (True, gb\<lparr>gb_failedTesting := True\<rparr>))"

definition healthCheck_end :: "fail_state \<Rightarrow> fail_state" where
  "healthCheck_end gb = gb\<lparr>gb_failedTesting := False, gb_failedTimes := 0\<rparr>"

definition onDialSuccess :: "fail_state \<Rightarrow> fail_state" where
  "onDialSuccess gb = (if \<not> gb_failedTesting gb then gb\<lparr>gb_failedTimes := 0\<rparr> else gb)"

section \<open>Relay\<close>

text \<open>
  \<open>Relay.proxies\<close>: every proxy is replaced by what it unwraps to, again and again; \<open>unwrap\<close> stands for the choices of
  the groups among the proxies. None is an unwrapping that does not end.
\<close>

partial_function (option) unwrap_chain ::
  "(gproxy \<Rightarrow> gproxy option) \<Rightarrow> gproxy list \<Rightarrow> gproxy \<Rightarrow> gproxy list option" where
  "unwrap_chain unwrap ch proxy =
     (case unwrap proxy of
        None \<Rightarrow> Some ch
      | Some subproxy \<Rightarrow> unwrap_chain unwrap (ch @ [subproxy]) subproxy)"

fun relay_loop :: "(gproxy \<Rightarrow> gproxy option) \<Rightarrow> gproxy list \<Rightarrow> gproxy list \<times> gproxy list \<Rightarrow> (gproxy list \<times> gproxy list) option" where
  "relay_loop unwrap [] acc = Some acc"
| "relay_loop unwrap (proxy # rest) (proxies, chainProxies) =
     (case unwrap_chain unwrap [proxy] proxy of
        None \<Rightarrow> None
      | Some ch \<Rightarrow> relay_loop unwrap rest (proxies @ [last ch], chainProxies @ ch))"

definition relay_proxies :: "(gproxy \<Rightarrow> gproxy option) \<Rightarrow> gproxy list \<Rightarrow> (gproxy list \<times> gproxy list) option" where
  "relay_proxies unwrap rawProxies =
     map_option (\<lambda>(proxies, chainProxies).
         (filter (\<lambda>p. gp_Type p \<noteq> ''Direct'' \<and> gp_Type p \<noteq> ''Compatible'') proxies, chainProxies))
       (relay_loop unwrap rawProxies ([], []))"

text \<open>What a proxy supports: UDP, UDP over TCP, and the networks it can reach through another dialer.\<close>

datatype dialer_net = InvalidNet | NetTCP | NetUDP | ALLNet

record udp_support =
  us_SupportUDP :: "gproxy \<Rightarrow> bool"
  us_SupportUOT :: "gproxy \<Rightarrow> bool"
  us_SupportWithDialer :: "gproxy \<Rightarrow> dialer_net"

fun relay_udp_loop :: "udp_support \<Rightarrow> gproxy list \<Rightarrow> bool" where
  "relay_udp_loop us [] = True"
| "relay_udp_loop us (proxy # rest) =
     (if \<not> us_SupportUDP us proxy then False
      else if us_SupportUOT us proxy then True
      else if us_SupportWithDialer us proxy \<in> {ALLNet, NetUDP} then relay_udp_loop us rest
      else False)"

definition relay_SupportUDP :: "udp_support \<Rightarrow> (gproxy \<Rightarrow> gproxy option) \<Rightarrow> gproxy list \<Rightarrow> bool option" where
  "relay_SupportUDP us unwrap rawProxies =
     map_option (\<lambda>(proxies, _). if length proxies = 0 then True else relay_udp_loop us (rev proxies))
       (relay_proxies unwrap rawProxies)"

text \<open>
  How a relay dials: directly, through its only proxy, or through the last one by the dialers of those before; with
  the names that the chain of the connection gets, in the order in which they are appended.
\<close>

datatype relay_dial = DialDirect | DialOnly gproxy | DialThrough "gproxy list" gproxy "string list"

definition relay_DialContext :: "string \<Rightarrow> (gproxy \<Rightarrow> gproxy option) \<Rightarrow> gproxy list \<Rightarrow> relay_dial option" where
  "relay_DialContext name unwrap rawProxies =
     map_option (\<lambda>(proxies, chainProxies).
         if length proxies = 0 then DialDirect
         else if length proxies = 1 then DialOnly (proxies ! 0)
         else DialThrough (take (length proxies - 1) proxies) (proxies ! (length proxies - 1))
                (map gp_Name (rev (take (length chainProxies - 1) chainProxies)) @ [name]))
       (relay_proxies unwrap rawProxies)"

section \<open>Building a group\<close>

record group_common =
  go_Name :: string
  go_Type :: string
  go_Proxies :: "string list"
  go_Use :: "string list"
  go_URL :: string
  go_Interval :: int
  go_TestTimeout :: int
  go_MaxFailedTimes :: int
  go_Lazy :: bool
  go_Filter :: string
  go_ExcludeFilter :: string
  go_ExcludeType :: string
  go_ExpectedStatus :: string
  go_IncludeAll :: bool
  go_IncludeAllProxies :: bool
  go_IncludeAllProviders :: bool

record named_provider =
  np_Name :: string
  np_Compatible :: bool
  np_hc :: health_check

datatype group_error =
    errFormat | errType | errMissProxy | errDuplicateProvider | StatusError ranges_error
  | NotFound string | GroupInUse string | errStrategy | RegexPanic

definition DefaultTestURL :: string where
  "DefaultTestURL = ''https://www.gstatic.com/generate_204''"

fun getProxies :: "(string \<Rightarrow> gproxy option) \<Rightarrow> string list \<Rightarrow> group_error + gproxy list" where
  "getProxies mapping [] = Inr []"
| "getProxies mapping (name # rest) =
     (case mapping name of
        None \<Rightarrow> Inl (NotFound name)
      | Some p \<Rightarrow> (case getProxies mapping rest of Inl e \<Rightarrow> Inl e | Inr ps \<Rightarrow> Inr (p # ps)))"

fun getProviders :: "(string \<times> named_provider) list \<Rightarrow> string list \<Rightarrow> group_error + string list" where
  "getProviders mapping [] = Inr []"
| "getProviders mapping (name # rest) =
     (case map_of mapping name of
        None \<Rightarrow> Inl (NotFound name)
      | Some p \<Rightarrow>
          if np_Compatible p then Inl (GroupInUse name)
          else (case getProviders mapping rest of Inl e \<Rightarrow> Inl e | Inr ps \<Rightarrow> Inr (name # ps)))"

text \<open>The providers are shared objects: a task is registered in the provider the map names.\<close>

definition addTestUrlToProviders ::
  "string list \<Rightarrow> string \<Rightarrow> u16 range list option \<Rightarrow> string \<Rightarrow> int \<Rightarrow>
   (string \<times> named_provider) list \<Rightarrow> (string \<times> named_provider) list" where
  "addTestUrlToProviders names url expectedStatus flt interval pds =
     (if length names = 0 \<or> length url = 0 then pds
      else fold (\<lambda>name. AList.map_entry name
                    (\<lambda>pd. pd\<lparr>np_hc := registerHealthCheckTask url expectedStatus flt interval (np_hc pd)\<rparr>))
             names pds)"

text \<open>The names that \<open>include-all-proxies\<close> adds; \<open>compile\<close> as above.\<close>

fun compile_all :: "(string \<Rightarrow> (string \<Rightarrow> bool) option) \<Rightarrow> string list \<Rightarrow> (string \<Rightarrow> bool) list option" where
  "compile_all compile [] = Some []"
| "compile_all compile (r # rs) =
     (case compile r of None \<Rightarrow> None | Some f \<Rightarrow> map_option (\<lambda>fs. f # fs) (compile_all compile rs))"

definition included_proxies ::
  "(string \<Rightarrow> (string \<Rightarrow> bool) option) \<Rightarrow> string \<Rightarrow> string list \<Rightarrow> string list option" where
  "included_proxies compile flt AllProxies =
     (if flt \<noteq> '''' then
        map_option (\<lambda>filterRegs. concat (map (\<lambda>p. concat (map (\<lambda>f. if f p then [p] else []) filterRegs)) AllProxies))
          (compile_all compile (Split flt CHR ''`''))
      else Some AllProxies)"

text \<open>The part of \<open>ParseProxyGroup\<close> up to the lists of proxies and providers.\<close>

definition group_lists ::
  "(string \<Rightarrow> (string \<Rightarrow> bool) option) \<Rightarrow> string list \<Rightarrow> string list \<Rightarrow> group_common \<Rightarrow> group_error + group_common" where
  "group_lists compile AllProxies AllProviders opt0 =
     (if go_Type opt0 = '''' \<or> go_Name opt0 = '''' then Inl errFormat
      else
        let opt1 = (if go_IncludeAll opt0 then opt0\<lparr>go_IncludeAllProviders := True, go_IncludeAllProxies := True\<rparr> else opt0);
            opt2 = (if go_IncludeAllProviders opt1 then opt1\<lparr>go_Use := AllProviders\<rparr> else opt1) in
        case (if go_IncludeAllProxies opt2 then
                map_option (\<lambda>add.
                    let opt3 = opt2\<lparr>go_Proxies := go_Proxies opt2 @ add\<rparr> in
                    if length (go_Proxies opt3) = 0 \<and> length (go_Use opt3) = 0
                    then opt3\<lparr>go_Proxies := [''COMPATIBLE'']\<rparr> else opt3)
                  (included_proxies compile (go_Filter opt2) AllProxies)
              else Some opt2) of
          None \<Rightarrow> Inl RegexPanic
        | Some opt4 \<Rightarrow> if length (go_Proxies opt4) = 0 \<and> length (go_Use opt4) = 0 then Inl errMissProxy else Inr opt4)"

text \<open>The first health check URL of the providers in use.\<close>

definition first_url :: "(string \<times> named_provider) list \<Rightarrow> string list \<Rightarrow> string" where
  "first_url pds names =
     (case find (\<lambda>u. u \<noteq> '''') (map (\<lambda>n. case map_of pds n of Some pd \<Rightarrow> hc_url (np_hc pd) | None \<Rightarrow> '''') names) of
        Some u \<Rightarrow> u | None \<Rightarrow> DefaultTestURL)"

text \<open>
  The providers in use: the URL of the group, and the map with the group's task registered. Then the
  provider made of the proxies that are named.
\<close>

definition group_use ::
  "u16 range list option \<Rightarrow> group_common \<Rightarrow> (string \<times> named_provider) list \<Rightarrow>
   group_error + (string list \<times> group_common \<times> (string \<times> named_provider) list)" where
  "group_use expectedStatus opt pds =
     (if length (go_Use opt) \<noteq> 0 then
        (case getProviders pds (go_Use opt) of
           Inl e \<Rightarrow> Inl e
         | Inr names \<Rightarrow>
             if go_URL opt = '''' then Inr (names, opt\<lparr>go_URL := first_url pds names\<rparr>, pds)
             else Inr (names, opt,
                    addTestUrlToProviders names (go_URL opt) expectedStatus (go_Filter opt) (go_Interval opt) pds))
      else Inr ([], opt, pds))"

definition group_own ::
  "u16 range list option \<Rightarrow> (string \<Rightarrow> gproxy option) \<Rightarrow> string list \<Rightarrow> group_common \<Rightarrow> (string \<times> named_provider) list \<Rightarrow>
   group_error + (string list \<times> group_common \<times> (string \<times> named_provider) list)" where
  "group_own expectedStatus proxyMap names opt pds =
     (if length (go_Proxies opt) \<noteq> 0 then
        (case getProxies proxyMap (go_Proxies opt) of
           Inl e \<Rightarrow> Inl e
         | Inr ps \<Rightarrow>
             if map_of pds (go_Name opt) \<noteq> None then Inl errDuplicateProvider
             else
               let opt1 = (if go_URL opt = '''' then opt\<lparr>go_URL := DefaultTestURL\<rparr> else opt);
                   opt2 = (if go_Type opt1 \<noteq> ''select'' \<and> go_Type opt1 \<noteq> ''relay'' \<and> go_Interval opt1 = 0
                           then opt1\<lparr>go_Interval := 300\<rparr> else opt1);
                   hc = NewHealthCheck ps (go_URL opt2) (go_TestTimeout opt2) (go_Interval opt2) (go_Lazy opt2) expectedStatus in
               Inr (go_Name opt2 # names, opt2,
                    AList.update (go_Name opt2) \<lparr>np_Name = go_Name opt2, np_Compatible = True, np_hc = hc\<rparr> pds))
      else Inr (names, opt, pds))"

text \<open>
  \<open>ParseProxyGroup\<close> from the decoded options on: the options as completed, the names of the group's providers and
  the providers, or an error. \<open>strategy\<close> is the answer of \<open>parseStrategy\<close>. An error is given without the changes it
  leaves in the map of providers.
\<close>

definition ParseProxyGroup ::
  "(string \<Rightarrow> (string \<Rightarrow> bool) option) \<Rightarrow> string \<Rightarrow> group_common \<Rightarrow> (string \<Rightarrow> gproxy option) \<Rightarrow>
   (string \<times> named_provider) list \<Rightarrow> string list \<Rightarrow> string list \<Rightarrow>
   group_error + (group_common \<times> string list \<times> (string \<times> named_provider) list)" where
  "ParseProxyGroup compile strategy opt0 proxyMap pds0 AllProxies AllProviders =
     (case group_lists compile AllProxies AllProviders opt0 of
        Inl e \<Rightarrow> Inl e
      | Inr opt1 \<Rightarrow>
          (case NewUnsignedRanges (go_ExpectedStatus opt1) of
             Inl e \<Rightarrow> Inl (StatusError e)
           | Inr ranges \<Rightarrow>
               let expectedStatus = (if ranges = [] then None else Some ranges);
                   status = TrimSpace (go_ExpectedStatus opt1);
                   opt2 = opt1\<lparr>go_ExpectedStatus := (if status = '''' then ''*'' else status)\<rparr> in
               case group_use expectedStatus opt2 pds0 of
                 Inl e \<Rightarrow> Inl e
               | Inr (use, opt3, pds1) \<Rightarrow>
                   (case group_own expectedStatus proxyMap use opt3 pds1 of
                      Inl e \<Rightarrow> Inl e
                    | Inr (names, opt4, pds2) \<Rightarrow>
                        if go_Type opt4 \<in> {''url-test'', ''select'', ''fallback'', ''relay''} then Inr (opt4, names, pds2)
                        else if go_Type opt4 = ''load-balance'' then
                          (if strategy \<in> {''consistent-hashing'', ''round-robin'', ''sticky-sessions''}
                           then Inr (opt4, names, pds2) else Inl errStrategy)
                        else Inl errType)))"

end
