(* ===== verification/HealthProps.thy ===== *)
theory HealthProps imports HealthCheck GroupProps "HOL-Library.Sublist" begin

text \<open>
  What the health records of a proxy say: they are the last ten tests, and liveness and delay are those of the
  latest test of the URL; a url-test group over tested proxies uses the fastest of them.
\<close>

section \<open>Queues\<close>

definition lastn :: "nat \<Rightarrow> 'a list \<Rightarrow> 'a list" where
  "lastn n xs = drop (length xs - n) xs"

lemma length_lastn [simp]: "length (lastn n xs) = min n (length xs)"
  by (simp add: lastn_def)

lemma lastn_Nil [simp]: "lastn n [] = []"
  by (simp add: lastn_def)

lemma last_lastn: "xs \<noteq> [] \<Longrightarrow> 0 < n \<Longrightarrow> last (lastn n xs) = last xs"
  by (simp add: lastn_def)

lemma lastn_eq_Nil [simp]: "lastn n xs = [] \<longleftrightarrow> xs = [] \<or> n = 0"
  by (cases xs) (auto simp: lastn_def)

lemma put_record_lastn: "put_record r (lastn 10 xs) = lastn 10 (xs @ [r])"
proof (cases "length xs < 10")
  case False
  then have "Suc (length xs - 10) = length xs - 9" by linarith
  with False show ?thesis
    by (simp add: put_record_def q_Put_def q_Pop_def q_Len_def defaultHistoriesNum_def lastn_def Let_def)
qed (simp add: put_record_def q_Put_def q_Len_def defaultHistoriesNum_def lastn_def Let_def)

lemmas put_record_first = put_record_lastn[where xs = "[]", simplified]

lemma q_Last_last: "q_Last z q = (if q = [] then z else last q)"
  by (simp add: q_Last_def last_conv_nth)

section \<open>A history of tests\<close>

text \<open>One call of \<open>URLTest\<close> with all it meets, and what is written down of it.\<close>

type_synonym 'e test_call = "'e test_env \<times> bool \<times> string \<times> u16 range list option"

fun call_url :: "'e test_call \<Rightarrow> string" where
  "call_url (te, uni, url, expected) = url"

fun call_result :: "'e test_call \<Rightarrow> 'e test_error + u16" where
  "call_result (te, uni, url, expected) = fst (test_body te uni url expected)"

text \<open>The delay of a test that succeeded with a satisfactory status.\<close>

fun passed :: "'e test_call \<Rightarrow> u16 option" where
  "passed (te, uni, url, expected) =
     (case test_body te uni url expected of (Inr t, True) \<Rightarrow> Some t | _ \<Rightarrow> None)"

fun call_record :: "'e test_call \<Rightarrow> delay_history" where
  "call_record (te, uni, url, expected) =
     \<lparr>dh_Time = te_now te, dh_Delay = (case fst (test_body te uni url expected) of Inl e \<Rightarrow> 0 | Inr t \<Rightarrow> t)\<rparr>"

fun url_record :: "'e test_call \<Rightarrow> delay_history" where
  "url_record (te, uni, url, expected) =
     \<lparr>dh_Time = te_now te, dh_Delay = (case passed (te, uni, url, expected) of None \<Rightarrow> 0 | Some t \<Rightarrow> t)\<rparr>"

fun run_test :: "'e test_call \<Rightarrow> tested_proxy \<Rightarrow> tested_proxy" where
  "run_test (te, uni, url, expected) p = snd (URLTest te uni url expected p)"

definition run_tests :: "'e test_call list \<Rightarrow> tested_proxy" where
  "run_tests log = fold run_test log NewProxy"

lemma run_tests_snoc: "run_tests (log @ [c]) = run_test c (run_tests log)"
  by (simp add: run_tests_def)

abbreviation calls_of :: "'e test_call list \<Rightarrow> string \<Rightarrow> 'e test_call list" where
  "calls_of log url \<equiv> filter (\<lambda>c. call_url c = url) log"

text \<open>The whole record of a proxy as a function of the tests made.\<close>

definition state_of :: "'e test_call list \<Rightarrow> proxy_state option" where
  "state_of calls =
     (if calls = [] then None
      else Some \<lparr>ps_alive = (passed (last calls) \<noteq> None), ps_history = lastn 10 (map url_record calls)\<rparr>)"

lemma run_tests_state:
  "run_tests log =
     \<lparr>px_alive = (log = [] \<or> \<not> isl (call_result (last log))),
      px_history = lastn 10 (map call_record log), px_extra = (\<lambda>url. state_of (calls_of log url))\<rparr>"
proof (induction log rule: rev_induct)
  case Nil
  then show ?case by (simp add: run_tests_def NewProxy_def state_of_def)
next
  case (snoc c log)
  obtain te uni url es where c: "c = (te, uni, url, es)" by (cases c) auto
  obtain res sat where b: "test_body te uni url es = (res, sat)" by fastforce
  let ?st = "case state_of (calls_of log url) of Some st \<Rightarrow> st | None \<Rightarrow> \<lparr>ps_alive = True, ps_history = []\<rparr>"
  have st: "ps_history ?st = lastn 10 (map url_record (calls_of log url))"
    by (simp add: state_of_def)
  show ?case
    by (cases res)
      (auto simp: run_tests_snoc c snoc URLTest_def b record_test_def Let_def fun_eq_iff st put_record_lastn put_record_first
        state_of_def split: if_splits)
qed

lemma state_of_snoc:
  "state_of (calls @ [c]) = Some \<lparr>ps_alive = (passed c \<noteq> None), ps_history = lastn 10 (map url_record (calls @ [c]))\<rparr>"
  by (simp add: state_of_def)

lemma health_tested:
  assumes "calls_of log url = cs @ [c]"
  shows "AliveForTestUrl (run_tests log) url = (passed c \<noteq> None)"
    and "LastDelayForTestUrl (run_tests log) url = (case passed c of Some t \<Rightarrow> if t = 0 then 0xffff else t | None \<Rightarrow> 0xffff)"
proof -
  have "last (lastn 10 (map url_record (cs @ [c]))) = url_record c" by (subst last_lastn) auto
  moreover have "dh_Delay (url_record c) = (case passed c of None \<Rightarrow> 0 | Some t \<Rightarrow> t)" by (cases c) simp
  ultimately show "AliveForTestUrl (run_tests log) url = (passed c \<noteq> None)"
    and "LastDelayForTestUrl (run_tests log) url = (case passed c of Some t \<Rightarrow> if t = 0 then 0xffff else t | None \<Rightarrow> 0xffff)"
    by (auto simp: assms run_tests_state AliveForTestUrl_def Let_def LastDelayForTestUrl_def state_of_snoc
        zero_history_def q_Last_last split: option.split)
qed

text \<open>
  C18: after any sequence of tests of a new proxy its history holds the last ten of them, and its history for a
  URL the last ten tests of this URL. It is alive for a URL if the latest test of this URL succeeded with a
  satisfactory status, and its delay for the URL is then the delay of this test, unless this is 0; in every other
  case the delay is the largest one. A URL without a test takes liveness from the latest test of any URL, and a
  proxy without a test is alive.
\<close>

theorem health_is_latest_test:
  "DelayHistory (run_tests log) = lastn 10 (map call_record log) \<and>
   DelayHistoryForTestUrl (run_tests log) url = lastn 10 (map url_record (calls_of log url)) \<and>
   AliveForTestUrl (run_tests log) url =
     (case rev (calls_of log url) of
        c # _ \<Rightarrow> passed c \<noteq> None
      | [] \<Rightarrow> (case rev log of c # _ \<Rightarrow> \<not> isl (call_result c) | [] \<Rightarrow> True)) \<and>
   LastDelayForTestUrl (run_tests log) url =
     (case rev (calls_of log url) of
        c # _ \<Rightarrow> (case passed c of Some t \<Rightarrow> if t = 0 then 0xffff else t | None \<Rightarrow> 0xffff)
      | [] \<Rightarrow> 0xffff)"
proof (cases "calls_of log url" rule: rev_cases)
  case Nil
  then show ?thesis
    by (cases log rule: rev_cases)
      (simp_all add: run_tests_state DelayHistory_def DelayHistoryForTestUrl_def AliveForTestUrl_def
        LastDelayForTestUrl_def q_Copy_def state_of_def zero_history_def)
next
  case (snoc cs c)
  have "DelayHistory (run_tests log) = lastn 10 (map call_record log)"
    by (simp add: run_tests_state DelayHistory_def q_Copy_def)
  moreover have "DelayHistoryForTestUrl (run_tests log) url = lastn 10 (map url_record (calls_of log url))"
    using snoc by (simp add: run_tests_state DelayHistoryForTestUrl_def q_Copy_def state_of_snoc)
  ultimately show ?thesis using snoc health_tested[OF snoc] by simp
qed

section \<open>Groups over tested proxies\<close>

lemma LastDelay_cases:
  "LastDelayForTestUrl (run_tests log) url < 0xffff \<longleftrightarrow>
     (\<exists>c t. calls_of log url \<noteq> [] \<and> c = last (calls_of log url) \<and> passed c = Some t \<and> 0 < t \<and> t < 0xffff \<and>
        LastDelayForTestUrl (run_tests log) url = t)"
proof (cases "calls_of log url" rule: rev_cases)
  case Nil
  then show ?thesis by (simp add: run_tests_state LastDelayForTestUrl_def state_of_def)
next
  case (snoc cs c)
  then show ?thesis by (auto simp: health_tested[OF snoc] word_gt_0 split: option.split)
qed

lemma delay_passed:
  assumes "calls_of log url \<noteq> []" and "passed (last (calls_of log url)) = Some t" and "0 < t"
  shows "LastDelayForTestUrl (run_tests log) url = t" and "AliveForTestUrl (run_tests log) url"
proof -
  obtain cs c where "calls_of log url = cs @ [c]" using assms(1) by (cases "calls_of log url" rule: rev_cases) auto
  then show "LastDelayForTestUrl (run_tests log) url = t" "AliveForTestUrl (run_tests log) url"
    using assms(2,3) by (auto simp: health_tested)
qed

text \<open>The choice when no fixed proxy lives: the fastest of the list, or the one in use within the tolerance.\<close>

lemma fast_compute_cases:
  assumes "fast_compute w proxies u = (p, u')" and "proxies \<noteq> []"
    and "\<And>q. q \<in> set proxies \<Longrightarrow> gp_Name q = u_selected u \<Longrightarrow> u_selected u = '''' \<or> \<not> alive w (u_testUrl u) q"
  shows "\<exists>f \<in> set proxies. (\<forall>q \<in> set proxies. alive w (u_testUrl u) q \<longrightarrow> delay w (u_testUrl u) f \<le> delay w (u_testUrl u) q) \<and>
    u_fastNode u' = Some p \<and>
    (p = f \<or> u_fastNode u = Some p \<and> gp_Name p \<in> gp_Name ` set (tl proxies) \<and> alive w (u_testUrl u) p \<and>
      delay w (u_testUrl u) p \<le> delay w (u_testUrl u) f + u_tolerance u)"
proof -
  let ?url = "u_testUrl u"
  obtain x xs where ps: "proxies = x # xs" using assms(2) by (cases proxies) auto
  have sel: "(if u_selected u = '''' then None else find (\<lambda>p. alive w ?url p \<and> gp_Name p = u_selected u) proxies) = None"
    using assms(3) by (auto simp: find_None_iff)
  obtain f d ne where L: "fast_loop w ?url (u_fastNode u) xs (x, delay w ?url x, True) = (f, d, ne)"
    by (metis prod_cases3)
  note F = fast_loop_fastest[OF L refl]
  have f: "f \<in> set proxies" "\<forall>q \<in> set proxies. alive w ?url q \<longrightarrow> delay w ?url f \<le> delay w ?url q"
    using F by (auto simp: ps list_all_iff)
  have r: "fast_compute w proxies u = (case u_fastNode u of
      None \<Rightarrow> (f, u\<lparr>u_fastNode := Some f\<rparr>)
    | Some g \<Rightarrow> if ne \<or> \<not> alive w ?url g \<or> delay w ?url g > delay w ?url f + u_tolerance u
        then (f, u\<lparr>u_fastNode := Some f\<rparr>) else (g, u))"
    unfolding fast_compute_def Let_def sel option.case using L by (simp add: ps)
  have "u_fastNode u' = Some p \<and> (p = f \<or> u_fastNode u = Some p \<and> gp_Name p \<in> gp_Name ` set (tl proxies) \<and> alive w ?url p \<and>
      delay w ?url p \<le> delay w ?url f + u_tolerance u)"
    using assms(1) r F by (auto simp: ps not_less split: option.splits if_splits)
  with f show ?thesis by blast
qed

text \<open>
  C19: whenever a url-test group chooses and no living proxy of its list is the fixed one, then for every listed proxy
  whose latest test of the group's URL passed with a delay t (in milliseconds, not 0, and with the tolerance below
  65535) the group takes a proxy whose own latest test of this URL passed: one of the list with a delay at most t, or
  the one in use so far, if its name is still listed and its delay is at most t and the tolerance. The group
  remembers the proxy as the one in use.
\<close>

theorem urltest_uses_fastest_tested:
  assumes "fast_compute (health_of (\<lambda>i. run_tests (logs i))) proxies u = (p, u')"
    and "\<And>q. q \<in> set proxies \<Longrightarrow> gp_Name q = u_selected u \<Longrightarrow>
      u_selected u = '''' \<or> \<not> AliveForTestUrl (run_tests (logs (gp_id q))) (u_testUrl u)"
    and "q \<in> set proxies" and "calls_of (logs (gp_id q)) (u_testUrl u) \<noteq> []"
    and "passed (last (calls_of (logs (gp_id q)) (u_testUrl u))) = Some t" and "0 < t"
    and "unat t + unat (u_tolerance u) < 65535"
  shows "u_fastNode u' = Some p \<and> calls_of (logs (gp_id p)) (u_testUrl u) \<noteq> [] \<and>
    (\<exists>t'. passed (last (calls_of (logs (gp_id p)) (u_testUrl u))) = Some t' \<and> 0 < t' \<and>
      (p \<in> set proxies \<and> t' \<le> t \<or>
       u_fastNode u = Some p \<and> gp_Name p \<in> gp_Name ` set proxies \<and> unat t' \<le> unat t + unat (u_tolerance u)))"
proof -
  let ?url = "u_testUrl u" and ?w = "health_of (\<lambda>i. run_tests (logs i))"
  have ne: "proxies \<noteq> []" using assms(3) by auto
  have fixed: "x \<in> set proxies \<Longrightarrow> gp_Name x = u_selected u \<Longrightarrow> u_selected u = '''' \<or> \<not> alive ?w ?url x" for x
    using assms(2) by (simp add: health_of_def)
  obtain f where f: "f \<in> set proxies" "\<forall>q \<in> set proxies. alive ?w ?url q \<longrightarrow> delay ?w ?url f \<le> delay ?w ?url q"
    "u_fastNode u' = Some p"
    "p = f \<or> u_fastNode u = Some p \<and> gp_Name p \<in> gp_Name ` set (tl proxies) \<and> alive ?w ?url p \<and>
      delay ?w ?url p \<le> delay ?w ?url f + u_tolerance u"
    using fast_compute_cases[OF assms(1) ne fixed] by blast
  have "delay ?w ?url f \<le> t" using bspec[OF f(2) assms(3)] delay_passed[OF assms(4-6)] by (simp add: health_of_def)
  then have df: "unat (delay ?w ?url f) \<le> unat t" by (simp add: word_le_nat_alt)
  then have sum: "unat (delay ?w ?url f + u_tolerance u) = unat (delay ?w ?url f) + unat (u_tolerance u)"
    using assms(7) by (intro unat_add_lem[THEN iffD1]) simp
  have bound: "p = f \<and> unat (delay ?w ?url p) \<le> unat t \<or>
      u_fastNode u = Some p \<and> gp_Name p \<in> gp_Name ` set proxies \<and> unat (delay ?w ?url p) \<le> unat t + unat (u_tolerance u)"
    using f(4) df sum by (cases proxies) (auto simp: word_le_nat_alt)
  then have "unat (LastDelayForTestUrl (run_tests (logs (gp_id p))) ?url) < unat (0xffff :: u16)"
    using assms(7) by (auto simp: health_of_def)
  then have "LastDelayForTestUrl (run_tests (logs (gp_id p))) ?url < 0xffff" by (simp add: word_less_nat_alt)
  with LastDelay_cases[of "logs (gp_id p)" ?url] bound f(1,3) show ?thesis by (auto simp: health_of_def word_le_nat_alt)
qed

text \<open>A test that goes through: the status code and the milliseconds it takes.\<close>

definition quiet_env :: "int \<Rightarrow> int \<Rightarrow> string test_env" where
  "quiet_env status ms =
     \<lparr>te_Parse = (\<lambda>_. Inr (''http'', ''t'', '''')), te_dial = (\<lambda>_. None), te_NewRequest = (\<lambda>_. None),
      te_GetTLSConfig = None, te_first = Inr status, te_second = Inl ''closed'', te_start = 0, te_between = 0,
      te_end = ms * 1000000, te_now = ms * 1000000\<rparr>"

lemma quiet_urlToMetadata: "\<exists>m. urlToMetadata (quiet_env status ms) url = Inr m"
proof -
  have "SplitHostPort (JoinHostPort ''t'' ''80'') = Inr (''t'', ''80'')" by code_simp
  then have "\<not> isl (SetRemoteAddress zero_metadata (JoinHostPort ''t'' ''80''))"
    by (simp add: SetRemoteAddress_def Let_def split: option.split)
  then show ?thesis
    by (cases "SetRemoteAddress zero_metadata (JoinHostPort ''t'' ''80'')") (auto simp: urlToMetadata_def quiet_env_def)
qed

lemma quiet_body: "test_body (quiet_env status ms) False url None = (Inr (word_of_int ms), True)"
proof -
  obtain m where "urlToMetadata (quiet_env status ms) url = Inr m" using quiet_urlToMetadata by blast
  then show ?thesis by (simp add: test_body_def Let_def) (simp add: quiet_env_def)
qed

text \<open>A slower proxy in use may be kept within the tolerance, here a fixed name is not listed.\<close>

theorem urltest_uses_fastest_tested_witness:
  "let logs = (\<lambda>i. [(quiet_env 204 (if i = 1 then 90 else 20), False, ''u'', None)]);
       u = \<lparr>u_base = plain_base, u_selected = ''c'', u_testUrl = ''u'', u_tolerance = 100, u_fastNode = Some (gp 1 ''b'')\<rparr>;
       p = fst (fast_compute (health_of (\<lambda>i. run_tests (logs i))) [gp 2 ''a'', gp 1 ''b''] u) in
   \<exists>t. passed (last (calls_of (logs (gp_id p)) ''u'')) = Some t \<and> 0 < t \<and> unat t \<le> 120"
proof -
  let ?logs = "\<lambda>i::nat. [(quiet_env 204 (if i = 1 then 90 else 20), False, ''u'', None)]"
  let ?u = "\<lparr>u_base = plain_base, u_selected = ''c'', u_testUrl = ''u'', u_tolerance = 100, u_fastNode = Some (gp 1 ''b'')\<rparr>"
  obtain p u' where f: "fast_compute (health_of (\<lambda>i. run_tests (?logs i))) [gp 2 ''a'', gp 1 ''b''] ?u = (p, u')"
    by fastforce
  have t: "passed (last (calls_of (?logs (gp_id (gp 2 ''a''))) (u_testUrl ?u))) = Some 20"
    by (simp add: quiet_body gp_def)
  have le: "unat t' \<le> 120" if "t' \<le> (20 :: u16)" for t' using that by (simp add: word_le_nat_alt)
  have "q \<in> set [gp 2 ''a'', gp 1 ''b''] \<Longrightarrow> gp_Name q = u_selected ?u \<Longrightarrow>
      u_selected ?u = [] \<or> \<not> AliveForTestUrl (run_tests (?logs (gp_id q))) (u_testUrl ?u)" for q
    by (auto simp: gp_def)
  from urltest_uses_fastest_tested[OF f this _ _ t] f le show ?thesis by (auto simp: gp_def Let_def)
qed

text \<open>
  A proxy that answers within a millisecond is recorded with delay 0, which is read as a failure: it is alive, and a
  url-test group prefers to it any other proxy that passed.
\<close>

theorem instant_answer_counts_as_slowest:
  "let logs = (\<lambda>i. [(quiet_env 204 (if i = 1 then 0 else 900), False, ''u'', None)]);
       u = \<lparr>u_base = plain_base, u_selected = '''', u_testUrl = ''u'', u_tolerance = 0, u_fastNode = None\<rparr> in
   AliveForTestUrl (run_tests (logs 1)) ''u'' \<and> LastDelayForTestUrl (run_tests (logs 1)) ''u'' = 0xffff \<and>
   fst (fast_compute (health_of (\<lambda>i. run_tests (logs i))) [gp 1 ''a'', gp 2 ''b''] u) = gp 2 ''b''"
proof -
  let ?logs = "\<lambda>i::nat. [(quiet_env 204 (if i = 1 then 0 else 900), False, ''u'', None)]"
  have "calls_of [(quiet_env 204 ms, False, ''u'', None)] ''u'' = [] @ [(quiet_env 204 ms, False, ''u'', None)]" for ms by simp
  note h = health_tested[OF this]
  show ?thesis
    by (simp add: h quiet_body fast_compute_def health_of_def gp_def Let_def)
qed

text \<open>
  The sum of the delay and the tolerance is taken in 16 bits: while no proxy of the list has passed a test the
  tolerance makes it small, and a living proxy in use is given up for the first of the list, dead or not.
\<close>

theorem tolerance_wraps:
  "let w = \<lparr>h_alive = (\<lambda>i url. i = 2), h_delay = (\<lambda>_ _. 0xffff)\<rparr>;
       u = \<lparr>u_base = plain_base, u_selected = '''', u_testUrl = ''u'', u_tolerance = 50, u_fastNode = Some (gp 2 ''b'')\<rparr> in
   alive w ''u'' (gp 2 ''b'') \<and> \<not> alive w ''u'' (gp 1 ''a'') \<and>
   fst (fast_compute w [gp 1 ''a'', gp 2 ''b''] u) = gp 1 ''a'' \<and>
   fst (fast_compute w [gp 1 ''a'', gp 2 ''b''] (u\<lparr>u_tolerance := 0\<rparr>)) = gp 2 ''b''"
  by (simp add: fast_compute_def gp_def)

section \<open>Failures of a group\<close>

text \<open>What happens to the counter of a group: failed dials, successes and the end of its health check.\<close>

datatype fail_event = Failed string dial_error int | Succeeded | CheckEnded

text \<open>One event: whether it starts the checks of the providers, and the new state.\<close>

fun fail_step :: "fail_event \<Rightarrow> fail_state \<Rightarrow> bool \<times> fail_state" where
  "fail_step (Failed ty err now) gb =
     (case onDialFailed ty err now gb of (fn, gb1) \<Rightarrow> if fn then healthCheck_begin gb1 else (False, gb1))"
| "fail_step Succeeded gb = (False, onDialSuccess gb)"
| "fail_step CheckEnded gb = (False, if gb_failedTesting gb then healthCheck_end gb else gb)"

definition fail_run :: "fail_event list \<Rightarrow> fail_state \<Rightarrow> fail_state" where
  "fail_run es gb = fold (\<lambda>e g. snd (fail_step e g)) es gb"

lemma fail_run_snoc: "fail_run (es @ [e]) gb = snd (fail_step e (fail_run es gb))"
  by (simp add: fail_run_def)

lemma fail_run_Nil [simp]: "fail_run [] gb = gb" "fail_run [e] gb = snd (fail_step e gb)"
  by (simp_all add: fail_run_def)

text \<open>Failures that are counted, and the window in which they are counted together.\<close>

definition counts :: "string \<Rightarrow> dial_error \<Rightarrow> bool" where
  "counts ty err \<longleftrightarrow> ty \<notin> {''Direct'', ''Compatible'', ''Reject'', ''Pass'', ''RejectDrop''} \<and>
     (\<exists>msg. err = DialError msg \<and> \<not> Contains msg ''connection refused'')"

fun counted :: "fail_event \<Rightarrow> int list" where
  "counted (Failed ty err now) = (if counts ty err then [now] else [])"
| "counted Succeeded = []"
| "counted CheckEnded = []"

definition window :: "fail_state \<Rightarrow> int" where
  "window gb = duration (gb_TestTimeout gb * 1000000)"

lemma onDialFailed_counts:
  "counts ty err \<Longrightarrow>
   onDialFailed ty err now gb =
     (let gb1 = gb\<lparr>gb_failedTimes := gb_failedTimes gb + 1\<rparr> in
      if gb_failedTimes gb1 = 1 then (False, gb1\<lparr>gb_failedTime := now\<rparr>)
      else if now > gb_failedTime gb1 + window gb then (False, gb1\<lparr>gb_failedTimes := 0\<rparr>)
      else (gb_failedTimes gb1 \<ge> gb_maxFailedTimes gb1, gb1))"
  by (auto simp: onDialFailed_def counts_def window_def Let_def)

lemma onDialFailed_other: "\<not> counts ty err \<Longrightarrow> snd (onDialFailed ty err now gb) = gb"
  by (auto simp: onDialFailed_def counts_def split: dial_error.split)

lemma fail_step_keeps [simp]:
  "gb_TestTimeout (snd (fail_step e gb)) = gb_TestTimeout gb"
  "gb_maxFailedTimes (snd (fail_step e gb)) = gb_maxFailedTimes gb"
  by (cases e; auto simp: onDialFailed_def healthCheck_begin_def onDialSuccess_def healthCheck_end_def Let_def
      split: dial_error.split)+

lemma fail_run_keeps [simp]:
  "gb_TestTimeout (fail_run es gb) = gb_TestTimeout gb"
  "gb_maxFailedTimes (fail_run es gb) = gb_maxFailedTimes gb"
  by (induction es rule: rev_induct) (simp_all add: fail_run_snoc)

lemma window_run [simp]: "window (fail_run es gb) = window gb" "window (snd (fail_step e gb)) = window gb"
  by (simp_all add: window_def)

text \<open>A list of failures counted together: the first, and the others in its window.\<close>

definition together :: "int \<Rightarrow> int \<Rightarrow> int list \<Rightarrow> fail_event list \<Rightarrow> bool" where
  "together w t0 ts es \<longleftrightarrow> subseq (t0 # ts) (concat (map counted es)) \<and> list_all (\<lambda>t. t \<le> t0 + w) ts"

definition counter_inv :: "fail_event list \<Rightarrow> fail_state \<Rightarrow> bool" where
  "counter_inv es gb \<longleftrightarrow> 0 \<le> gb_failedTimes gb \<and>
     (0 < gb_failedTimes gb \<longrightarrow>
        (\<exists>ts. together (window gb) (gb_failedTime gb) ts es \<and> gb_failedTimes gb = 1 + int (length ts)))"

lemma together_grow: "together w t0 ts es \<Longrightarrow> together w t0 ts (es @ [e])"
  by (auto simp: together_def intro: subseq_rev_drop_many simp: subseq_singleton_left)

lemma together_snoc:
  "together w t0 ts es \<Longrightarrow> counts ty err \<Longrightarrow> now \<le> t0 + w \<Longrightarrow> together w t0 (ts @ [now]) (es @ [Failed ty err now])"
  using list_emb_append_mono[of "(=)" "t0 # ts" "concat (map counted es)" "[now]" "[now]"]
  by (auto simp: together_def)

lemma together_first: "counts ty err \<Longrightarrow> together w now [] (es @ [Failed ty err now])"
  by (auto simp: together_def intro: subseq_rev_drop_many simp: subseq_singleton_left)

lemma counter_inv_step:
  assumes "counter_inv es gb"
  shows "counter_inv (es @ [e]) (snd (fail_step e gb))"
proof (cases e)
  case (Failed ty err now)
  show ?thesis
  proof (cases "counts ty err")
    case False
    obtain fn where "onDialFailed ty err now gb = (fn, gb)"
      using onDialFailed_other[OF False, of now gb] by (metis prod.collapse)
    with assms Failed show ?thesis
      by (auto simp: counter_inv_def healthCheck_begin_def window_def intro: together_grow)
  next
    case True
    note D = onDialFailed_counts[OF True, of now gb]
    show ?thesis
    proof (cases "gb_failedTimes gb = 0")
      case z: True
      with D Failed show ?thesis
        by (auto simp: counter_inv_def window_def intro: together_first[OF True] exI[of _ "[]"])
    next
      case False
      with assms obtain ts where ts: "together (window gb) (gb_failedTime gb) ts es" "gb_failedTimes gb = 1 + int (length ts)"
        by (auto simp: counter_inv_def)
      from together_snoc[OF ts(1) True, of now] ts(2) False D Failed show ?thesis
        by (auto simp: counter_inv_def Let_def healthCheck_begin_def window_def
            intro: exI[of _ "ts @ [now]"])
    qed
  qed
qed (use assms in \<open>auto simp: counter_inv_def onDialSuccess_def healthCheck_end_def window_def intro: together_grow\<close>)

lemma counter_inv_run: "gb_failedTimes gb = 0 \<Longrightarrow> counter_inv es (fail_run es gb)"
  by (induction es rule: rev_induct)
    (auto simp: fail_run_snoc counter_inv_step, auto simp: counter_inv_def)

text \<open>
  C20: whatever happened before, a failed dial starts the health check of a group at once only for a refused connection;
  any other failure starts it only when at least two failures, and at least as many as configured, are counted
  that all came within the test timeout after the first of them.
\<close>

theorem health_check_needs_failures:
  assumes "fst (fail_step (Failed ty (DialError msg) now) (fail_run es (new_fail_state timeout limit)))"
    and "\<not> Contains msg ''connection refused''"
  shows "\<exists>t0 ts. subseq (t0 # ts) (concat (map counted (es @ [Failed ty (DialError msg) now]))) \<and>
    list_all (\<lambda>t. t \<le> t0 + duration ((if timeout = 0 then 5000 else timeout) * 1000000)) ts \<and>
    2 \<le> length (t0 # ts) \<and> (if limit = 0 then 5 else limit) \<le> int (length (t0 # ts))"
proof -
  let ?gb = "fail_run es (new_fail_state timeout limit)"
  have c: "counts ty (DialError msg)" using assms by (auto simp: counts_def onDialFailed_def split: if_splits)
  note D = onDialFailed_counts[OF c, of now ?gb]
  have inv: "counter_inv es ?gb" by (rule counter_inv_run) (simp add: new_fail_state_def)
  from assms(1) D have k: "gb_failedTimes ?gb \<noteq> 0" "now \<le> gb_failedTime ?gb + window ?gb"
      "gb_maxFailedTimes ?gb \<le> gb_failedTimes ?gb + 1"
    by (auto simp: Let_def split: if_splits)
  with inv obtain ts where ts: "together (window ?gb) (gb_failedTime ?gb) ts es" "gb_failedTimes ?gb = 1 + int (length ts)"
    by (auto simp: counter_inv_def)
  have "together (window ?gb) (gb_failedTime ?gb) (ts @ [now]) (es @ [Failed ty (DialError msg) now])"
    by (rule together_snoc[OF ts(1) c k(2)])
  moreover have "window ?gb = duration ((if timeout = 0 then 5000 else timeout) * 1000000)"
    "gb_maxFailedTimes ?gb = (if limit = 0 then 5 else limit)"
    by (simp_all add: window_def new_fail_state_def)
  ultimately show ?thesis using k(3) ts(2)
    by (intro exI[of _ "gb_failedTime ?gb"] exI[of _ "ts @ [now]"]) (simp add: together_def)
qed

text \<open>
  Failures counted from zero within the window start the health check at the configured one, but never before
  the second.
\<close>

theorem health_check_after_burst:
  assumes "gb_failedTimes gb = 0" and "\<not> gb_failedTesting gb" and "counts ty err"
    and "list_all (\<lambda>s. s \<le> hd (ts @ [t]) + duration (gb_TestTimeout gb * 1000000)) (ts @ [t])"
    and "length ts < max 2 (nat (gb_maxFailedTimes gb))"
  shows "fst (fail_step (Failed ty err t) (fail_run (map (Failed ty err) ts) gb)) \<longleftrightarrow>
    1 \<le> length ts \<and> gb_maxFailedTimes gb \<le> int (length ts) + 1"
proof -
  have A: "list_all (\<lambda>s. s \<le> hd ts + window gb) ts \<Longrightarrow> length ts < max 2 (nat (gb_maxFailedTimes gb)) \<Longrightarrow>
     \<not> gb_failedTesting (fail_run (map (Failed ty err) ts) gb) \<and>
     gb_failedTimes (fail_run (map (Failed ty err) ts) gb) = int (length ts) \<and>
     (ts \<noteq> [] \<longrightarrow> gb_failedTime (fail_run (map (Failed ty err) ts) gb) = hd ts)" for ts
  proof (induction ts rule: rev_induct)
    case Nil
    then show ?case using assms(1,2) by simp
  next
    case (snoc s ts)
    let ?g = "fail_run (map (Failed ty err) ts) gb"
    note D = onDialFailed_counts[OF assms(3), of s ?g]
    show ?case
    proof (cases "ts = []")
      case True
      with D assms(1,2) show ?thesis by simp
    next
      case False
      then have "1 \<le> length ts" by (cases ts) auto
      with snoc.prems(2) have "int (length ts) + 1 < gb_maxFailedTimes gb" by (simp split: if_splits)
      with D False snoc show ?thesis by (simp add: fail_run_snoc)
    qed
  qed
  have "list_all (\<lambda>s. s \<le> hd ts + window gb) ts"
    using assms(4) by (cases ts) (auto simp: window_def)
  from A[OF this assms(5)] assms(4) show ?thesis
    using onDialFailed_counts[OF assms(3), of t "fail_run (map (Failed ty err) ts) gb"]
    by (cases ts) (auto simp: Let_def healthCheck_begin_def window_def)
qed

definition timed_out :: "int \<Rightarrow> fail_event" where
  "timed_out ms = Failed ''Vmess'' (DialError ''timeout'') (ms * 1000000)"

lemma duration_5000: "duration 5000000000 = 5000000000"
  by (simp add: duration_def signed_take_bit_int_eq_self)

lemma counts_timeout: "counts ''Vmess'' (DialError ''timeout'')"
proof -
  have "\<not> Contains ''timeout'' ''connection refused''" by code_simp
  then show ?thesis by (simp add: counts_def)
qed

theorem health_check_needs_failures_witness:
  "\<exists>t0 ts. subseq (t0 # ts) (concat (map counted (map timed_out [0, 1, 2, 3, 4]))) \<and> 5 \<le> int (length (t0 # ts))"
proof -
  have r: "fail_run (map timed_out [0, 1, 2, 3]) (new_fail_state 0 0) =
     \<lparr>gb_failedTimes = 4, gb_failedTime = 0, gb_failedTesting = False, gb_TestTimeout = 5000, gb_maxFailedTimes = 5\<rparr>"
    by (simp add: fail_run_def timed_out_def onDialFailed_counts[OF counts_timeout] window_def new_fail_state_def
        duration_5000 Let_def)
  have "fst (fail_step (Failed ''Vmess'' (DialError ''timeout'') 4000000) (fail_run (map timed_out [0, 1, 2, 3]) (new_fail_state 0 0)))"
    unfolding r by (simp add: onDialFailed_counts[OF counts_timeout] window_def duration_5000 healthCheck_begin_def)
  moreover have "\<not> Contains ''timeout'' ''connection refused''" by code_simp
  ultimately have "\<exists>t0 ts. subseq (t0 # ts)
      (concat (map counted (map timed_out [0, 1, 2, 3] @ [Failed ''Vmess'' (DialError ''timeout'') 4000000]))) \<and>
    list_all (\<lambda>t. t \<le> t0 + duration ((if (0::int) = 0 then 5000 else 0) * 1000000)) ts \<and>
    2 \<le> length (t0 # ts) \<and> (if (0::int) = 0 then 5 else 0) \<le> int (length (t0 # ts))"
    by (rule health_check_needs_failures)
  moreover have "map timed_out [0, 1, 2, 3, 4] = map timed_out [0, 1, 2, 3] @ [Failed ''Vmess'' (DialError ''timeout'') 4000000]"
    by (simp add: timed_out_def)
  ultimately show ?thesis by (auto simp only: if_True refl)
qed

theorem health_check_after_burst_witness:
  "fst (fail_step (timed_out 20) (fail_run (map timed_out [0, 10]) (new_fail_state 0 3)))"
proof -
  have m: "map timed_out [0, 10] = map (Failed ''Vmess'' (DialError ''timeout'')) [0, 10000000]"
    by (simp add: timed_out_def)
  show ?thesis
    unfolding m timed_out_def
    by (subst health_check_after_burst[OF _ _ counts_timeout]) (simp_all add: new_fail_state_def duration_5000)
qed

text \<open>
  The failure that ends a window is forgotten instead of opening the next one: after an old failure a burst of as
  many failures as configured starts no health check, and the same burst alone does.
\<close>

theorem burst_after_old_failure_missed:
  "let burst = map timed_out [6000, 6100, 6200, 6300] in
   fst (fail_step (timed_out 6400) (fail_run burst (new_fail_state 0 0))) \<and>
   \<not> fst (fail_step (timed_out 6400) (fail_run (timed_out 0 # burst) (new_fail_state 0 0)))"
  by (simp add: fail_run_def timed_out_def onDialFailed_counts[OF counts_timeout] window_def new_fail_state_def
      duration_5000 Let_def healthCheck_begin_def)

text \<open>With one failure configured the first failure starts nothing; the second does.\<close>

theorem one_failure_needs_two:
  "\<not> fst (fail_step (timed_out 0) (new_fail_state 0 1)) \<and>
   fst (fail_step (timed_out 1) (fail_run [timed_out 0] (new_fail_state 0 1)))"
  by (simp add: timed_out_def onDialFailed_counts[OF counts_timeout] window_def new_fail_state_def
      duration_5000 Let_def healthCheck_begin_def)

end
