(* ===== verification/HealthTasks.thy ===== *)
theory HealthTasks imports HealthProps "HOL-Library.Multiset" begin

text \<open>
  Which proxies of a provider are tested for the URL of a group, what a configured group is made of, and what
  a relay dials.
\<close>

section \<open>Registered tasks\<close>

text \<open>A registration: URL, expected status, filter and interval. The expressions a filter names.\<close>

type_synonym registration = "string \<times> u16 range list option \<times> string \<times> int"

fun register :: "registration \<Rightarrow> health_check \<Rightarrow> health_check" where
  "register (url, expected, flt, interval) hc = registerHealthCheckTask url expected flt interval hc"

fun reg_url :: "registration \<Rightarrow> string" where
  "reg_url (url, expected, flt, interval) = TrimSpace url"

fun reg_expected :: "registration \<Rightarrow> u16 range list option" where
  "reg_expected (url, expected, flt, interval) = expected"

definition expressions :: "string \<Rightarrow> string set" where
  "expressions flt = {r \<in> TrimSpace ` set (Split (TrimSpace flt) CHR ''`''). r \<noteq> ''''}"

fun reg_expressions :: "registration \<Rightarrow> string set" where
  "reg_expressions (url, expected, flt, interval) = expressions flt"

lemma TrimSpace_Nil [simp]: "TrimSpace '''' = ''''"
  by (simp add: TrimSpace_def trim_by_def)

lemma expressions_blank: "TrimSpace flt = '''' \<Longrightarrow> expressions flt = {}"
  by (simp add: expressions_def)

lemma set_add_filters:
  "set (fold add_filter rs fs) = set fs \<union> {r \<in> TrimSpace ` set rs. r \<noteq> ''''}"
  by (induction rs arbitrary: fs) (auto simp: add_filter_def Let_def)

lemma eo_filters_split: "set (eo_filters (splitAndAddFiltersToExtra flt opt)) = set (eo_filters opt) \<union> expressions flt"
  by (simp add: splitAndAddFiltersToExtra_def Let_def set_add_filters expressions_def expressions_blank)

lemma eo_expected_split [simp]: "eo_expectedStatus (splitAndAddFiltersToExtra flt opt) = eo_expectedStatus opt"
  by (simp add: splitAndAddFiltersToExtra_def Let_def)

lemma register_keeps [simp]:
  "hc_url (register r hc) = hc_url hc" "hc_proxies (register r hc) = hc_proxies hc"
  "hc_expectedStatus (register r hc) = hc_expectedStatus hc"
  by (cases r, auto simp: registerHealthCheckTask_def Let_def split: option.split)+

lemma fold_register_keeps [simp]:
  "hc_url (fold register rs hc) = hc_url hc" "hc_proxies (fold register rs hc) = hc_proxies hc"
  "hc_expectedStatus (fold register rs hc) = hc_expectedStatus hc"
  by (induction rs arbitrary: hc) simp_all

text \<open>What is stored for a URL, up to the order of the expressions.\<close>

definition stored :: "health_check \<Rightarrow> string \<Rightarrow> (u16 range list option \<times> string set) option" where
  "stored hc url = map_option (\<lambda>opt. (eo_expectedStatus opt, set (eo_filters opt))) (map_of (hc_extra hc) url)"

lemma stored_register:
  "stored (register r hc) url =
     (if reg_url r = url \<and> url \<noteq> '''' \<and> url \<noteq> hc_url hc then
        (case stored hc url of
           None \<Rightarrow> Some (reg_expected r, reg_expressions r)
         | Some (expected, exprs) \<Rightarrow> Some (expected, exprs \<union> reg_expressions r))
      else stored hc url)"
  by (cases r)
    (auto simp: stored_def registerHealthCheckTask_def Let_def update_conv eo_filters_split expressions_blank
      split: option.split)

declare register.simps [simp del]

definition registrations :: "registration list \<Rightarrow> string \<Rightarrow> registration list" where
  "registrations rs url = filter (\<lambda>r. reg_url r = url) rs"

lemma stored_registrations:
  assumes "url \<noteq> ''''" and "url \<noteq> hc_url hc" and "stored hc url = None"
  shows "stored (fold register rs hc) url =
    (if registrations rs url = [] then None
     else Some (reg_expected (hd (registrations rs url)), \<Union> (reg_expressions ` set (registrations rs url))))"
  using assms
proof (induction rs rule: rev_induct)
  case (snoc r rs)
  then show ?case
    by (cases "registrations rs url") (simp_all add: registrations_def stored_register Un_ac)
qed (simp add: registrations_def)

section \<open>The tests of a check\<close>

lemma execute_all_set:
  "execute_all ord compile xs hc = Some ts \<Longrightarrow>
   list_all (\<lambda>(url, opt). execute ord compile url opt hc \<noteq> None) xs \<and>
   set ts = (\<Union>(url, opt) \<in> set xs. set (the (execute ord compile url opt hc)))"
proof (induction xs arbitrary: ts)
  case (Cons x xs)
  obtain url opt where x: "x = (url, opt)" by (cases x)
  from Cons.prems obtain t1 t2 where "execute ord compile url opt hc = Some t1" "execute_all ord compile xs hc = Some t2" "ts = t1 @ t2"
    by (auto simp: x split: option.splits)
  with Cons.IH show ?case by (simp add: x)
qed simp

lemma distinct_extra: "distinct (map fst (hc_extra hc)) \<Longrightarrow> distinct (map fst (hc_extra (register r hc)))"
  by (cases r) (auto simp: register.simps registerHealthCheckTask_def Let_def distinct_update split: option.split)

lemma distinct_extra_fold:
  "distinct (map fst (hc_extra hc)) \<Longrightarrow> distinct (map fst (hc_extra (fold register rs hc)))"
  by (induction rs arbitrary: hc) (auto simp: distinct_extra)

lemma trim_by_ends: "trim_by f s = [] \<or> \<not> f (hd (trim_by f s)) \<and> \<not> f (last (trim_by f s))"
proof (cases "trim_by f s = []")
  case False
  define a where "a = dropWhile f s"
  have t: "trim_by f s = rev (dropWhile f (rev a))" by (simp add: trim_by_def a_def)
  have "a = trim_by f s @ rev (takeWhile f (rev a))"
    unfolding t by (metis rev_append rev_rev_ident takeWhile_dropWhile_id)
  with False have "hd a = hd (trim_by f s)" by (metis hd_append2)
  moreover have "a \<noteq> []" using False t by auto
  then have "\<not> f (hd a)" unfolding a_def by (rule hd_dropWhile)
  moreover have "\<not> f (hd (dropWhile f (rev a)))" using False t by (intro hd_dropWhile) auto
  ultimately show ?thesis using False by (simp add: t last_rev)
qed simp

lemma TrimSpace_idem [simp]: "TrimSpace (TrimSpace s) = TrimSpace s"
  using trim_by_id[OF trim_by_ends[of is_space s]] by (simp add: TrimSpace_def)

text \<open>Every URL stored is trimmed, and no expression is stored twice for one.\<close>

definition extra_ok :: "health_check \<Rightarrow> bool" where
  "extra_ok hc \<longleftrightarrow> distinct (map fst (hc_extra hc)) \<and>
     (\<forall>(k, opt) \<in> set (hc_extra hc). TrimSpace k = k \<and> distinct (eo_filters opt))"

lemma set_update: "set (AList.update k v xs) \<subseteq> insert (k, v) (set xs)"
  by (induction xs) auto

lemma distinct_add_filters: "distinct fs \<Longrightarrow> distinct (fold add_filter rs fs)"
  by (induction rs arbitrary: fs) (simp_all add: add_filter_def Let_def)

lemma distinct_filters_split:
  "distinct (eo_filters opt) \<Longrightarrow> distinct (eo_filters (splitAndAddFiltersToExtra flt opt))"
  by (simp add: splitAndAddFiltersToExtra_def Let_def distinct_add_filters)

lemma extra_ok_register:
  assumes "extra_ok hc"
  shows "extra_ok (register r hc)"
proof -
  obtain u es flt iv where r: "r = (u, es, flt, iv)" by (cases r)
  have "TrimSpace k = k \<and> distinct (eo_filters opt)" if "(k, opt) \<in> set (hc_extra (register r hc))" for k opt
  proof (cases "(k, opt) \<in> set (hc_extra hc)")
    case True
    then show ?thesis using assms by (fastforce simp: extra_ok_def)
  next
    case False
    have old: "distinct (eo_filters opt0)" if "map_of (hc_extra hc) k = Some opt0" for opt0
      using assms map_of_SomeD[OF that] by (auto simp: extra_ok_def)
    from False that set_update r have "k = TrimSpace u \<and>
        (\<exists>opt0. opt = splitAndAddFiltersToExtra flt opt0 \<and> (map_of (hc_extra hc) k = Some opt0 \<or> eo_filters opt0 = []))"
      by (fastforce simp: register.simps registerHealthCheckTask_def Let_def split: if_splits option.splits)
    with old show ?thesis by (auto intro: distinct_filters_split)
  qed
  moreover have "distinct (map fst (hc_extra (register r hc)))"
    using assms distinct_extra by (simp add: extra_ok_def)
  ultimately show ?thesis by (auto simp: extra_ok_def)
qed

lemma extra_ok_fold: "extra_ok hc \<Longrightarrow> extra_ok (fold register rs hc)"
  by (induction rs arbitrary: hc) (simp_all add: extra_ok_register)

text \<open>The tests of one URL.\<close>

lemma execute_url:
  assumes "execute ord compile url opt hc = Some tasks" and "TrimSpace url = url" and "url \<noteq> ''''"
    and "\<And>xs. mset (ord xs) = mset xs"
  shows "(u, es, p) \<in> set tasks \<longleftrightarrow> u = url \<and> es = eo_expectedStatus opt \<and> p \<in> set (hc_proxies hc) \<and>
    (ord (eo_filters opt) = [] \<or> (\<exists>f. compile (Join (ord (eo_filters opt)) ''|'') = Some f \<and> f (gp_Name p)))"
proof -
  have "length (ord (eo_filters opt)) = length (eo_filters opt)" by (metis assms(4) size_mset)
  then have "ord (eo_filters opt) = [] \<longleftrightarrow> eo_filters opt = []" by (metis length_0_conv)
  then show ?thesis using assms(1-3) by (auto simp: execute_def Let_def split: if_splits)
qed

text \<open>
  C21: for a URL other than the provider's own, a check of a provider tests exactly the proxies whose name matches the
  expressions of all filters registered for this URL, joined as alternatives in some order, each once; all proxies of
  the provider if these filters have no expression. The expected status is the one registered first. The
  order is that in which Go goes through a map; the check is one that does not panic on the joined expression.
\<close>

theorem health_check_targets:
  assumes order: "\<And>xs. mset (ord xs) = mset xs"
    and tasks: "check_tasks ord compile (fold register regs (NewHealthCheck proxies base timeout interval lazy expected)) = Some tasks"
    and url: "url \<noteq> ''''" "TrimSpace base \<noteq> url" "registrations regs url \<noteq> []"
  shows "\<exists>fs. distinct fs \<and> set fs = \<Union> (reg_expressions ` set (registrations regs url)) \<and>
    (\<forall>es p. (url, es, p) \<in> set tasks \<longleftrightarrow>
       es = reg_expected (hd (registrations regs url)) \<and> p \<in> set proxies \<and>
       (fs = [] \<or> (\<exists>f. compile (Join fs ''|'') = Some f \<and> f (gp_Name p))))"
proof -
  define hc where "hc = fold register regs (NewHealthCheck proxies base timeout interval lazy expected)"
  have ok: "extra_ok hc" unfolding hc_def by (rule extra_ok_fold) (simp add: NewHealthCheck_def extra_ok_def)
  have hc: "hc_url hc = base" "hc_proxies hc = proxies" by (simp_all add: hc_def NewHealthCheck_def)
  have ne: "url \<noteq> base" using url(2,3) by (auto simp: registrations_def filter_empty_conv)
  obtain opt where opt: "map_of (hc_extra hc) url = Some opt"
    "eo_expectedStatus opt = reg_expected (hd (registrations regs url))"
    "set (eo_filters opt) = \<Union> (reg_expressions ` set (registrations regs url))"
    using stored_registrations[of url "NewHealthCheck proxies base timeout interval lazy expected" regs] url ne
    by (auto simp: stored_def hc_def NewHealthCheck_def split: if_splits)
  note in_extra = map_of_SomeD[OF opt(1)]
  let ?fs = "ord (eo_filters opt)"
  note E = execute_all_set[OF tasks[folded hc_def, unfolded check_tasks_def]]
  have some: "\<exists>ts. execute ord compile u o' hc = Some ts" if "(u, o') \<in> set (hc_extra hc)" for u o'
    using E that by (auto simp: list_all_iff)
  have base: "(url, es, p) \<notin> set (the (execute ord compile base \<lparr>eo_expectedStatus = hc_expectedStatus hc, eo_filters = []\<rparr> hc))" for es p
    using url(2) by (simp add: execute_def Let_def) blast
  have mem: "(url, es, p) \<in> set tasks \<longleftrightarrow> (url, es, p) \<in> set (the (execute ord compile url opt hc))" for es p
  proof -
    have "u = url \<and> o' = opt" if "(u, o') \<in> set (hc_extra hc)" "(url, es, p) \<in> set (the (execute ord compile u o' hc))" for u o'
    proof -
      have "TrimSpace u = u" using ok that(1) by (auto simp: extra_ok_def)
      then have "u = url" using some[OF that(1)] that(2) by (auto simp: execute_def Let_def split: if_splits)
      then show ?thesis using that(1) opt(1) ok by (simp add: extra_ok_def)
    qed
    then show ?thesis using E base in_extra hc(1) by fastforce
  qed
  obtain ts where ts: "execute ord compile url opt hc = Some ts" using some[OF in_extra] by blast
  have trim: "TrimSpace url = url" and d: "distinct (eo_filters opt)" using ok in_extra by (auto simp: extra_ok_def)
  have "distinct ?fs" using d order[of "eo_filters opt"] by (metis mset_eq_imp_distinct_iff)
  moreover have "set ?fs = \<Union> (reg_expressions ` set (registrations regs url))"
    using order[of "eo_filters opt"] opt(3) by (metis mset_eq_setD)
  moreover have "(url, es, p) \<in> set tasks \<longleftrightarrow>
       es = reg_expected (hd (registrations regs url)) \<and> p \<in> set proxies \<and>
       (?fs = [] \<or> (\<exists>f. compile (Join ?fs ''|'') = Some f \<and> f (gp_Name p)))" for es p
    using mem execute_url[OF ts trim url(1) order] opt(2) hc(2) by (simp add: ts)
  ultimately show ?thesis by blast
qed

text \<open>A stand-in for regular expressions: names separated by bars.\<close>

definition compile_names :: "string \<Rightarrow> (string \<Rightarrow> bool) option" where
  "compile_names r = Some (\<lambda>n. n \<in> set (Split r CHR ''|''))"

lemma Split_append_bar: "Split (a @ c # b) c = Split a c @ Split b c"
  by (induction a) (auto split: list.split)

lemma Split_Join_concat: "rs \<noteq> [] \<Longrightarrow> Split (Join rs [c]) c = concat (map (\<lambda>r. Split r c) rs)"
  by (induction rs "[c]" rule: Join.induct) (auto simp: Split_append_bar)

lemma check_tasks_names: "\<exists>tasks. check_tasks ord compile_names hc = Some tasks"
proof -
  have "\<exists>ts. execute ord compile_names url opt hc = Some ts" for url opt
    by (simp add: execute_def compile_names_def Let_def)
  then have "\<exists>ts. execute_all ord compile_names xs hc = Some ts" for xs
  proof (induction xs)
    case (Cons x xs)
    then show ?case by (cases x) (metis execute_all.simps(2) option.simps(5,9))
  qed simp
  then show ?thesis unfolding check_tasks_def by blast
qed

theorem health_check_targets_witness:
  "let regs = [('' u '', None, ''a`b'', 60), (''u'', None, ''c'', 60)];
       hc = fold register regs (NewHealthCheck [gp 1 ''a'', gp 2 ''c'', gp 3 ''d''] ''v'' 0 0 True None) in
   \<exists>tasks. check_tasks rev compile_names hc = Some tasks \<and>
     (''u'', None, gp 1 ''a'') \<in> set tasks \<and> (''u'', None, gp 2 ''c'') \<in> set tasks \<and> (''u'', None, gp 3 ''d'') \<notin> set tasks"
proof -
  let ?regs = "[('' u '', None, ''a`b'', 60), (''u'', None, ''c'', 60)]" and ?ps = "[gp 1 ''a'', gp 2 ''c'', gp 3 ''d'']"
  let ?hc = "fold register ?regs (NewHealthCheck ?ps ''v'' 0 0 True None)"
  have e: "expressions ''a`b'' = {''a'', ''b''}" "expressions ''c'' = {''c''}"
    unfolding expressions_def by code_simp+
  have u: "TrimSpace '' u '' = ''u''" "TrimSpace ''u'' = ''u''" "TrimSpace ''v'' = ''v''" by code_simp+
  have n: "TrimSpace ''v'' \<noteq> ''u''" "registrations ?regs ''u'' \<noteq> []" by (simp_all add: registrations_def u)
  obtain tasks where tasks: "check_tasks rev compile_names ?hc = Some tasks" using check_tasks_names by blast
  have "\<exists>fs. distinct fs \<and> set fs = \<Union> (reg_expressions ` set (registrations ?regs ''u'')) \<and>
    (\<forall>es p. (''u'', es, p) \<in> set tasks \<longleftrightarrow> es = reg_expected (hd (registrations ?regs ''u'')) \<and> p \<in> set ?ps \<and>
       (fs = [] \<or> (\<exists>f. compile_names (Join fs ''|'') = Some f \<and> f (gp_Name p))))"
    by (rule health_check_targets[OF _ tasks _ n]) simp_all
  then obtain fs where fs: "distinct fs \<and> set fs = \<Union> (reg_expressions ` set (registrations ?regs ''u'')) \<and>
    (\<forall>es p. (''u'', es, p) \<in> set tasks \<longleftrightarrow> es = reg_expected (hd (registrations ?regs ''u'')) \<and> p \<in> set ?ps \<and>
       (fs = [] \<or> (\<exists>f. compile_names (Join fs ''|'') = Some f \<and> f (gp_Name p))))" by (rule exE)
  have regs: "registrations ?regs ''u'' = ?regs" by (simp add: registrations_def u)
  have set: "set fs = {''a'', ''b'', ''c''}" using conjunct1[OF conjunct2[OF fs]] unfolding regs by (auto simp: e)
  then have ne: "fs \<noteq> []" by (metis list.set(1) insert_not_empty)
  have "set (Split (Join fs ''|'') CHR ''|'') = (\<Union>r \<in> {''a'', ''b'', ''c''}. set (Split r CHR ''|''))"
    unfolding Split_Join_concat[OF ne] set_concat set_map set image_image by (rule refl)
  also have "\<dots> = {''a'', ''b'', ''c''}" by code_simp
  finally have "(''u'', es, p) \<in> set tasks \<longleftrightarrow> es = None \<and> p \<in> set ?ps \<and> gp_Name p \<in> {''a'', ''b'', ''c''}" for es p
    using conjunct2[OF conjunct2[OF fs]] ne unfolding regs compile_names_def by (simp del: Join.simps Split.simps)
  then have "(''u'', None, gp 1 ''a'') \<in> set tasks" "(''u'', None, gp 2 ''c'') \<in> set tasks" "(''u'', None, gp 3 ''d'') \<notin> set tasks"
    by (simp_all add: gp_def)
  with tasks show ?thesis unfolding Let_def by blast
qed

text \<open>
  The filters of all groups with the same URL are joined, but a group without a filter adds nothing: when
  another group registers a filter for its URL, its other proxies are no longer tested.
\<close>

theorem unfiltered_group_narrowed:
  assumes "\<And>xs. mset (ord xs) = mset xs"
  shows "let hc = NewHealthCheck [gp 1 ''a'', gp 2 ''b''] ''v'' 0 0 True None;
       alone = register (''u'', None, '''', 60) hc;
       both = register (''u'', None, ''a'', 60) alone in
   (\<exists>tasks. check_tasks ord compile_names alone = Some tasks \<and> (''u'', None, gp 2 ''b'') \<in> set tasks) \<and>
   (\<exists>tasks. check_tasks ord compile_names both = Some tasks \<and> (''u'', None, gp 2 ''b'') \<notin> set tasks)"
proof -
  have u: "TrimSpace ''u'' = ''u''" "TrimSpace ''v'' = ''v''" "TrimSpace ''a'' = ''a''" by code_simp+
  have s: "Split ''a'' CHR ''`'' = [''a'']" "Split ''a'' CHR ''|'' = [''a'']" by code_simp+
  have o: "ord [x] = [x]" for x using assms[of "[x]"] by simp
  show ?thesis
    by (simp del: Split.simps add: register.simps registerHealthCheckTask_def NewHealthCheck_def check_tasks_def execute_def u s o gp_def
        splitAndAddFiltersToExtra_def add_filter_def compile_names_def Let_def duration_def)
qed

theorem unfiltered_group_narrowed_witness:
  "\<exists>tasks. check_tasks rev compile_names (register (''u'', None, ''a'', 60) (register (''u'', None, [], 60)
     (NewHealthCheck [gp 1 ''a'', gp 2 ''b''] ''v'' 0 0 True None))) = Some tasks \<and> (''u'', None, gp 2 ''b'') \<notin> set tasks"
  using unfiltered_group_narrowed[of rev] by (auto simp: Let_def)

section \<open>Groups from the configuration\<close>

definition tests_url :: "named_provider \<Rightarrow> string \<Rightarrow> bool" where
  "tests_url pd url \<longleftrightarrow> hc_url (np_hc pd) = url \<or> stored (np_hc pd) url \<noteq> None"

lemma getProviders_Inr:
  "getProviders pds use = Inr names \<Longrightarrow>
   names = use \<and> list_all (\<lambda>n. \<exists>pd. map_of pds n = Some pd \<and> \<not> np_Compatible pd) use"
  by (induction use arbitrary: names) (auto split: option.splits sum.splits if_splits)

lemma map_of_map_entry:
  "map_of (AList.map_entry k f xs) n = (if n = k then map_option f (map_of xs n) else map_of xs n)"
  by (induction xs) auto

lemma stored_after_register:
  "url \<noteq> '''' \<Longrightarrow> TrimSpace url = url \<Longrightarrow> hc_url hc = url \<or> stored (register (url, es, f, iv) hc) url \<noteq> None"
  "stored hc url' \<noteq> None \<Longrightarrow> stored (register r hc) url' \<noteq> None"
  by (auto simp: stored_register split: option.split)

abbreviation with_task :: "registration \<Rightarrow> named_provider \<Rightarrow> named_provider" where
  "with_task r pd \<equiv> pd\<lparr>np_hc := register r (np_hc pd)\<rparr>"

lemma addTest_unfold:
  "names \<noteq> [] \<Longrightarrow> url \<noteq> '''' \<Longrightarrow>
   addTestUrlToProviders names url es f iv pds = fold (\<lambda>n. AList.map_entry n (with_task (url, es, f, iv))) names pds"
  by (simp add: addTestUrlToProviders_def register.simps)

lemma addTest_keeps:
  "map_of pds n = Some pd \<Longrightarrow>
   \<exists>pd'. map_of (fold (\<lambda>n. AList.map_entry n (with_task r)) names pds) n = Some pd' \<and>
     np_Compatible pd' = np_Compatible pd \<and> hc_url (np_hc pd') = hc_url (np_hc pd) \<and>
     (tests_url pd url \<longrightarrow> tests_url pd' url)"
proof (induction names arbitrary: pds pd)
  case (Cons m names)
  show ?case
  proof (cases "m = n")
    case True
    from Cons(2) have "map_of (AList.map_entry m (with_task r) pds) n = Some (with_task r pd)"
      by (simp add: map_of_map_entry True)
    moreover have "tests_url pd url \<Longrightarrow> tests_url (with_task r pd) url"
      using stored_after_register(2)[of "np_hc pd" url r] by (auto simp: tests_url_def)
    ultimately show ?thesis using Cons(1)[of "AList.map_entry m (with_task r) pds" "with_task r pd"] by auto
  next
    case False
    with Cons(2) have "map_of (AList.map_entry m (with_task r) pds) n = Some pd" by (simp add: map_of_map_entry)
    from Cons(1)[OF this] show ?thesis by simp
  qed
qed simp

lemma addTest_tests:
  assumes "n \<in> set names" and "map_of pds n = Some pd" and "url \<noteq> ''''" and "TrimSpace url = url"
  shows "\<exists>pd'. map_of (fold (\<lambda>n. AList.map_entry n (with_task (url, es, f, iv))) names pds) n = Some pd' \<and> tests_url pd' url"
  using assms(1,2)
proof (induction names arbitrary: pds pd)
  case (Cons m names)
  show ?case
  proof (cases "m = n")
    case True
    let ?pd = "with_task (url, es, f, iv) pd"
    from Cons(3) have m: "map_of (AList.map_entry m (with_task (url, es, f, iv)) pds) n = Some ?pd"
      by (simp add: map_of_map_entry True)
    have "tests_url ?pd url" using stored_after_register(1)[OF assms(3,4), of "np_hc pd" es f iv] by (auto simp: tests_url_def)
    with addTest_keeps[OF m, of "(url, es, f, iv)" names url] show ?thesis by auto
  next
    case False
    with Cons show ?thesis by (simp add: map_of_map_entry)
  qed
qed simp

lemma first_url_nonempty: "first_url pds names \<noteq> ''''"
  by (auto simp: first_url_def DefaultTestURL_def find_Some_iff split: option.split)

lemma group_lists_Inr:
  "group_lists compile ap av opt = Inr opt' \<Longrightarrow>
   (go_Proxies opt' \<noteq> [] \<or> go_Use opt' \<noteq> []) \<and> go_Name opt' = go_Name opt \<and> go_URL opt' = go_URL opt"
  by (auto simp: group_lists_def Let_def split: if_splits option.splits)

lemma group_use_Inr:
  assumes "group_use es opt pds = Inr (names, opt', pds')"
  shows "names = go_Use opt \<and> go_Name opt' = go_Name opt \<and> go_Proxies opt' = go_Proxies opt \<and>
    (go_Use opt \<noteq> [] \<longrightarrow> go_URL opt' \<noteq> '''') \<and>
    (go_URL opt \<noteq> '''' \<longrightarrow> go_URL opt' = go_URL opt) \<and>
    (\<forall>n \<in> set names. \<exists>pd. map_of pds' n = Some pd \<and> \<not> np_Compatible pd \<and>
       (go_URL opt \<noteq> '''' \<and> TrimSpace (go_URL opt) = go_URL opt \<longrightarrow> tests_url pd (go_URL opt)))"
proof (cases "go_Use opt = []")
  case True
  with assms show ?thesis by (auto simp: group_use_def)
next
  case False
  then have g: "getProviders pds (go_Use opt) = Inr names"
    using assms by (auto simp: group_use_def split: sum.splits if_splits)
  note G = getProviders_Inr[OF g]
  show ?thesis
  proof (cases "go_URL opt = ''''")
    case True
    with assms False g G show ?thesis
      by (auto simp: group_use_def first_url_nonempty list_all_iff)
  next
    case url: False
    let ?r = "(go_URL opt, es, go_Filter opt, go_Interval opt)"
    from assms False g url G have o: "opt' = opt" "names = go_Use opt"
      "pds' = fold (\<lambda>n. AList.map_entry n (with_task ?r)) names pds"
      by (auto simp: group_use_def addTest_unfold)
    have "\<exists>pd. map_of pds' n = Some pd \<and> \<not> np_Compatible pd \<and>
       (TrimSpace (go_URL opt) = go_URL opt \<longrightarrow> tests_url pd (go_URL opt))" if "n \<in> set names" for n
    proof -
      from G that o(2) obtain pd where pd: "map_of pds n = Some pd" "\<not> np_Compatible pd"
        by (auto simp: list_all_iff)
      from addTest_keeps[OF pd(1), of ?r names "go_URL opt"] pd(2) o(3) obtain pd' where
        "map_of pds' n = Some pd'" "\<not> np_Compatible pd'" by auto
      with addTest_tests[OF that pd(1) url] o(3) show ?thesis by fastforce
    qed
    with o url show ?thesis by simp
  qed
qed

text \<open>
  C22: a group that the configuration accepts has a provider and a test URL, and each of its providers is known: its
  own one, with exactly the proxies the configuration names and its URL as the one to test, or one that is no
  group. If the configuration names a URL (without white space around it), all of them test it.
\<close>

theorem parsed_group_has_providers:
  assumes "ParseProxyGroup compile strategy opt proxyMap pds AllProxies AllProviders = Inr (opt', names, pds')"
  shows "names \<noteq> [] \<and> go_URL opt' \<noteq> '''' \<and>
    list_all (\<lambda>n. \<exists>pd. map_of pds' n = Some pd \<and>
       (if np_Compatible pd
        then n = go_Name opt \<and> getProxies proxyMap (go_Proxies opt') = Inr (hc_proxies (np_hc pd)) \<and> hc_url (np_hc pd) = go_URL opt'
        else n \<in> set (go_Use opt')) \<and>
       (go_URL opt = '''' \<or> TrimSpace (go_URL opt) \<noteq> go_URL opt \<or> tests_url pd (go_URL opt))) names"
proof -
  obtain opt1 where 1: "group_lists compile AllProxies AllProviders opt = Inr opt1"
    using assms by (cases "group_lists compile AllProxies AllProviders opt") (auto simp: ParseProxyGroup_def)
  obtain ranges :: "u16 range list" where r: "NewUnsignedRanges (go_ExpectedStatus opt1) = Inr ranges"
    using assms 1
    by (cases "NewUnsignedRanges (go_ExpectedStatus opt1) :: ranges_error + u16 range list") (auto simp: ParseProxyGroup_def)
  define es where "es = (if ranges = [] then None else Some ranges)"
  define opt2 where 2: "opt2 = opt1\<lparr>go_ExpectedStatus :=
      (if TrimSpace (go_ExpectedStatus opt1) = '''' then ''*'' else TrimSpace (go_ExpectedStatus opt1))\<rparr>"
  note P = assms[unfolded ParseProxyGroup_def 1 sum.case r Let_def, folded es_def 2]
  obtain use opt3 pds1 where 3: "group_use es opt2 pds = Inr (use, opt3, pds1)"
    using P by (cases "group_use es opt2 pds") auto
  note P = P[unfolded 3 sum.case prod.case]
  obtain opt4 pds2 where 4: "group_own es proxyMap use opt3 pds1 = Inr (names, opt4, pds2)" and 5: "opt' = opt4" "pds' = pds2"
    using P by (cases "group_own es proxyMap use opt3 pds1") (auto split: if_splits)
  note L = group_lists_Inr[OF 1]
  note U = group_use_Inr[OF 3]
  have use: "go_Use opt3 = go_Use opt2"
    using 3 by (auto simp: group_use_def split: sum.splits if_splits)
  show ?thesis
  proof (cases "go_Proxies opt3 = []")
    case True
    with 4 have "names = use" "opt4 = opt3" "pds2 = pds1" by (auto simp: group_own_def)
    with U L use 2 5 True show ?thesis by (auto simp: list_all_iff)
  next
    case False
    from 4 False obtain ps where ps: "getProxies proxyMap (go_Proxies opt3) = Inr ps" "map_of pds1 (go_Name opt3) = None"
      by (auto simp: group_own_def split: sum.splits if_splits)
    from 4 False ps obtain hc where own: "names = go_Name opt3 # use" "go_Proxies opt4 = go_Proxies opt3" "go_Use opt4 = go_Use opt3"
      "go_URL opt4 = (if go_URL opt3 = '''' then DefaultTestURL else go_URL opt3)"
      "pds2 = AList.update (go_Name opt3) \<lparr>np_Name = go_Name opt3, np_Compatible = True, np_hc = hc\<rparr> pds1"
      "hc_url hc = go_URL opt4" "hc_proxies hc = ps"
      by (auto simp: group_own_def Let_def NewHealthCheck_def)
    have others: "map_of pds2 n = map_of pds1 n" if "n \<in> set use" for n
      using that U ps(2) own(5) by (force simp: update_conv)
    have "go_Name opt3 = go_Name opt" using U L 2 by simp
    moreover have "go_URL opt \<noteq> '''' \<Longrightarrow> go_URL opt4 = go_URL opt" using U L 2 own(4) by auto
    moreover have "go_URL opt4 \<noteq> ''''" using own(4) by (auto simp: DefaultTestURL_def)
    moreover have "map_of pds' (go_Name opt3) = Some \<lparr>np_Name = go_Name opt3, np_Compatible = True, np_hc = hc\<rparr>"
      by (simp add: own(5) 5 update_conv)
    moreover have "\<exists>pd. map_of pds' n = Some pd \<and> \<not> np_Compatible pd \<and> n \<in> set (go_Use opt4) \<and>
        (go_URL opt \<noteq> '''' \<and> TrimSpace (go_URL opt) = go_URL opt \<longrightarrow> tests_url pd (go_URL opt))" if "n \<in> set use" for n
    proof -
      have "go_URL opt2 = go_URL opt" "n \<in> set (go_Use opt4)" using L 2 own(3) use U that by auto
      moreover have "map_of pds' n = map_of pds1 n" using others[OF that] 5 by simp
      ultimately show ?thesis using U that by auto
    qed
    ultimately show ?thesis
      unfolding own(1) using own(2,6,7) ps(1) 5(1)
      by (auto simp: list_all_iff tests_url_def split: if_splits) metis+
  qed
qed

text \<open>Options of a group, and a provider without a health check of its own.\<close>

definition group_opt :: "string \<Rightarrow> string list \<Rightarrow> string list \<Rightarrow> string \<Rightarrow> group_common" where
  "group_opt url proxies use flt =
     \<lparr>go_Name = ''g'', go_Type = ''url-test'', go_Proxies = proxies, go_Use = use, go_URL = url, go_Interval = 60,
      go_TestTimeout = 0, go_MaxFailedTimes = 0, go_Lazy = True, go_Filter = flt, go_ExcludeFilter = '''',
      go_ExcludeType = '''', go_ExpectedStatus = '''', go_IncludeAll = False, go_IncludeAllProxies = (proxies = []),
      go_IncludeAllProviders = False\<rparr>"

definition bare_provider :: "string \<Rightarrow> gproxy list \<Rightarrow> named_provider" where
  "bare_provider name proxies =
     \<lparr>np_Name = name, np_Compatible = False, np_hc = NewHealthCheck proxies '''' 0 0 True None\<rparr>"

lemma no_status: "NewUnsignedRanges '''' = Inr []"
  by (simp add: NewUnsignedRanges_def newIntRanges_def Let_def)

lemmas parse_group_simps = ParseProxyGroup_def group_lists_def no_status group_use_def group_own_def
  addTestUrlToProviders_def bare_provider_def included_proxies_def first_url_def Let_def

theorem parsed_group_has_providers_witness:
  "let pds = [(''p'', bare_provider ''p'' [gp 2 ''b''])];
       r = ParseProxyGroup compile_names '''' (group_opt ''u'' [''a''] [''p''] '''') [''a'' \<mapsto> gp 1 ''a''] pds [] [] in
   \<exists>opt' pds'. r = Inr (opt', [''g'', ''p''], pds') \<and> (\<exists>pd. map_of pds' ''p'' = Some pd \<and> tests_url pd ''u'')"
proof -
  let ?opt = "group_opt ''u'' [''a''] [''p''] ''''"
  let ?pds = "[(''p'', bare_provider ''p'' [gp 2 ''b''])]"
  have u: "TrimSpace ''u'' = ''u''" by code_simp
  obtain opt' pds' where r: "ParseProxyGroup compile_names '''' ?opt [''a'' \<mapsto> gp 1 ''a''] ?pds [] [] = Inr (opt', [''g'', ''p''], pds')"
    by (simp add: parse_group_simps group_opt_def)
  from parsed_group_has_providers[OF r] u have "\<exists>pd. map_of pds' ''p'' = Some pd \<and> tests_url pd ''u''"
    by (auto simp: group_opt_def)
  with r show ?thesis by (auto simp: Let_def)
qed

text \<open>
  A group without a test URL over a provider without one is given the default URL, but does not register it: no
  proxy of the provider is ever tested, and a url-test group stays with the first.
\<close>

theorem default_url_not_tested:
  "let pds = [(''p'', bare_provider ''p'' [gp 1 ''a'', gp 2 ''b''])];
       r = ParseProxyGroup compile_names '''' (group_opt '''' [] [''p''] '''') Map.empty pds [] [] in
   \<exists>opt'. r = Inr (opt', [''p''], pds) \<and> go_URL opt' = DefaultTestURL \<and>
     check_tasks ord compile_names (np_hc (bare_provider ''p'' [gp 1 ''a'', gp 2 ''b''])) = Some []"
proof -
  have d: "DefaultTestURL \<noteq> ''''" by (simp add: DefaultTestURL_def)
  show ?thesis
    by (simp add: parse_group_simps group_opt_def NewHealthCheck_def check_tasks_def execute_def)
qed

text \<open>With \<open>include-all-proxies\<close> a proxy that several expressions of the filter match is included once for each.\<close>

theorem included_proxies_repeated:
  "included_proxies compile_names ''a|b`b|c'' [''a'', ''b''] = Some [''a'', ''b'', ''b'']"
  by code_simp

section \<open>Relay\<close>

text \<open>The proxies a group leads to, as a rank that unwrapping decreases when no group contains itself.\<close>

lemma unwrap_chain_Some:
  assumes "\<And>p q. unwrap p = Some q \<Longrightarrow> rank q < (rank p :: nat)"
  shows "\<exists>ch'. unwrap_chain unwrap (ch @ [p]) p = Some (ch @ p # ch') \<and> unwrap (last (p # ch')) = None \<and>
    successively (\<lambda>a b. unwrap a = Some b) (p # ch')"
proof (induction "rank p" arbitrary: p ch rule: less_induct)
  case less
  show ?case
  proof (cases "unwrap p")
    case None
    then show ?thesis by (subst unwrap_chain.simps) simp
  next
    case (Some q)
    with assms less[of q "ch @ [p]"] obtain ch' where
      "unwrap_chain unwrap ((ch @ [p]) @ [q]) q = Some ((ch @ [p]) @ q # ch')" "unwrap (last (q # ch')) = None"
      "successively (\<lambda>a b. unwrap a = Some b) (q # ch')" by blast
    with Some show ?thesis by (subst unwrap_chain.simps) (auto intro!: exI[of _ "q # ch'"])
  qed
qed

lemma relay_loop_Some:
  assumes "\<And>p q. unwrap p = Some q \<Longrightarrow> rank q < (rank p :: nat)"
  shows "\<exists>ps ch. relay_loop unwrap raw (ps0, ch0) = Some (ps0 @ ps, ch0 @ ch) \<and>
    list_all2 (\<lambda>r p. unwrap p = None \<and> (\<lambda>a b. unwrap a = Some b)\<^sup>*\<^sup>* r p) raw ps \<and>
    (\<forall>r \<in> set raw. r \<in> set ch) \<and> set ps \<subseteq> set ch"
proof (induction raw arbitrary: ps0 ch0)
  case (Cons r raw)
  let ?R = "\<lambda>a b. unwrap a = Some b"
  from unwrap_chain_Some[of unwrap rank "[]" r, OF assms] obtain c where
    c: "unwrap_chain unwrap [r] r = Some (r # c)" "unwrap (last (r # c)) = None" "successively ?R (r # c)" by auto
  have reach: "?R\<^sup>*\<^sup>* x (last (x # c))" if "successively ?R (x # c)" for x c
    using that by (induction c arbitrary: x) (auto intro: converse_rtranclp_into_rtranclp)
  from Cons[of "ps0 @ [last (r # c)]" "ch0 @ r # c"] obtain ps ch where
    "relay_loop unwrap raw (ps0 @ [last (r # c)], ch0 @ r # c) = Some ((ps0 @ [last (r # c)]) @ ps, (ch0 @ r # c) @ ch)"
    "list_all2 (\<lambda>r p. unwrap p = None \<and> ?R\<^sup>*\<^sup>* r p) raw ps" "\<forall>r \<in> set raw. r \<in> set ch" "set ps \<subseteq> set ch" by blast
  then show ?case
    using c reach[OF c(3)] last_in_set[of "r # c"]
    by (intro exI[of _ "last (r # c) # ps"] exI[of _ "(r # c) @ ch"]) (auto simp del: last.simps)
qed auto

text \<open>
  A relay whose groups do not contain one another in a circle always finds its chain: each listed proxy is
  followed to a proxy that is no group, in the listed order, and those that are not direct are dialled.
\<close>

theorem relay_follows_groups:
  assumes "\<And>p q. unwrap p = Some q \<Longrightarrow> rank q < (rank p :: nat)"
  shows "\<exists>ps ch. relay_proxies unwrap raw =
      Some (filter (\<lambda>p. gp_Type p \<noteq> ''Direct'' \<and> gp_Type p \<noteq> ''Compatible'') ps, ch) \<and>
    list_all2 (\<lambda>r p. unwrap p = None \<and> (\<lambda>a b. unwrap a = Some b)\<^sup>*\<^sup>* r p) raw ps \<and> set ps \<subseteq> set ch"
  using relay_loop_Some[of unwrap rank raw "[]" "[]", OF assms] by (auto simp: relay_proxies_def)

end
