(* ===== verification/Spec2Isabelle.thy ===== *)
theory Spec2Isabelle imports TunnelProps GroupProps ControlServer DagProps FakeFile DnsHandlerProps UdpProps NatTable Socks4 LoadBalanceProps HealthTasks begin

text \<open>
  A model of the core of ClashForAndroid: the Go program under src/core/src/main/golang, that is the
  proxy core (directory clash) and the server the Android service talks to (directories
  server, profile, tun). Paths below are relative to src/core/src/main/golang/clash.

  The program. An inbound listener accepts a connection and describes it in a metadata record. The
  tunnel (tunnel/tunnel.go) preprocesses it (hosts table, fake addresses, sniffed names), walks the
  routing rules until one matches, and hands the connection to the proxy the rule names,
  which may be a group that chooses among the proxies of its providers. Rules come
  from the configuration (config/config.go) through the rule parser (rules/parser.go); logic rules
  contain rules, sub-rules and rule sets refer to other lists of rules. The Android
  service controls all this over a socket (../server).

  Theories, in the order of their dependencies.
  \<^item> Prelude, GoStd, Bytes, NetIP: shared lemmas; Go's strings, strconv, encoding/binary, net and
    net/netip as far as the code uses them (language and standard library, not mapped).
  \<^item> IntRanges: common/utils/range.go and ranges.go over machine words.
  \<^item> Wildcard: component/wildcard/wildcard.go, the backtracking matcher.
  \<^item> DomainTrie: component/trie/node.go and domain.go, with the abstraction \<open>entries\<close> from
    nodes to maps from label lists to data.
  \<^item> Metadata: constant/metadata.go and constant/rule.go.
  \<^item> Rules: rules/common, rules/logic, rules/provider/rule_set.go. A rule is a value of the datatype
    \<open>rule\<close>, Match takes the metadata, the two callbacks of constant.RuleMatchHelper and the
    data it reads (record \<open>env\<close>), and returns the answer and the changed state (record
    \<open>mstate\<close>), or a panic.
  \<^item> RuleParser: rules/parser.go and the parsing half of the logic rules. RuleProps, RuleMatch and
    Brackets hold what is proved of parsed rules, of matching and of the bracket structure.
  \<^item> RuleConfig: parseRules, parseSubRules and verifySubRule of config/config.go.
  \<^item> Hosts: component/resolver/host.go and parseHosts of config/config.go.
  \<^item> Tunnel: tunnel/tunnel.go, mode.go, status.go and component/resolver/enhancer.go up to the
    dial; TunnelProps holds what is proved of it.
  \<^item> UdpSender: tunnel/connection.go, the packets of one UDP flow, its goroutines interleaved by the step
    relation \<open>sender_step\<close>; UdpProps holds what is proved. NatTable: component/nat/table.go and the life of its
    entries (\<open>flow_step\<close>). Every run of a closed sender is bounded by a measure of what its goroutines have left to do.
  \<^item> ByteConn: byte streams in both directions, and the locale \<open>wire_format\<close> of formats that can be read back. Socks5,
    Socks4: transport/socks5/socks5.go and transport/socks4/socks4.go with component/auth/auth.go, which interpret it;
    SocksProps holds what is proved of SOCKS5.
  \<^item> ProxyGroups: adapter/outboundgroup and common/singledo; GroupProps holds what is proved.
    The locale of proxy sources is interpreted on \<open>GetProxies\<close>. LoadBalance, LoadBalanceProps: the consistent hashing
    and sticky session strategies, over rounded reals and the LRU cache, the latter for whole sequences of connections
    (\<open>sticky_run\<close>).
  \<^item> ProxyHealth: adapter/adapter.go and common/queue, the test of a proxy and its records. HealthCheck:
    adapter/provider/healthcheck.go, the failure counter of a group, the relay and adapter/outboundgroup/parser.go.
    HealthProps and HealthTasks hold what is proved: the records as a function of all tests, which failures start a
    health check, which proxies are tested, what a configured group is made of.
  \<^item> DagSort: proxyGroupsDagSort of config/utils.go, which orders the proxy groups by use; DagPeel holds the
    graph lemmas, DagProps what is proved.
  \<^item> Lru: common/lru/lrucache.go over the linked list of common/generics/list (an argument); LruProps
    refines it to an ordered list of entries inside the locale \<open>linked_list\<close>, which is interpreted
    on lists with handles. \<open>lru_reachable\<close> is every history of a cache, with clones and the entries they share.
  \<^item> FakeIP: component/fakeip with the store in memory (two LRU caches) and in the cache file (a
    bucket of a database, an argument). FakeIPProps proves the pool once in the locale \<open>fake_store\<close>;
    the LRU store (FakeIPProps) and the cache file (FakeFile) are sublocales of it. FakePool and FakeFile
    hold what is proved of pools made by New, and of pools made again after a reload or a restart.
  \<^item> DnsMsg: DNS messages and dns/util.go, edns0_subnet.go. DnsResolver: dns/resolver.go, policy.go, rcode.go and
    common/picker. DnsHandler: dns/enhancer.go, middleware.go, service.go and the fake-ip skipper. DnsProps proves
    the cache contract (locale \<open>dns_cache\<close>, of which the LRU cache is a sublocale), the ageing of cached answers and the
    filtering of polluted ones; DnsPolicy the order of the policies and their clients; DnsHandlerProps the way of a fake address from
    the answer back to the host name in the tunnel.
  \<^item> ControlServer: ../server, ../profile/load.go and ../main.go.

  State and effects. State is passed explicitly, as records with the fields of the Go structs.
  Errors are values of a sum type, a panic is a value as well, so that each early return is
  a branch. Callbacks into the environment (resolver, process lookup, regular
  expressions, IDNA, geodata, health of proxies, descriptors passed over a socket) are
  arguments.

  Loops, fuel and bounds. Loops are structural or have a measure. Where the code can run for
  ever the model says so: following host aliases is a partial function whose value None is a
  search that does not return, and matching takes fuel, one unit for each jump into a sub-rule or a
  rule set. RuleConfig proves that one more than the number of sub-rules is enough
  for an accepted configuration whose rule sets do not name rule sets, and RuleMatch gives an accepted rule set on
  which no fuel is enough. The depth of the walk that checks sub-rules is bounded by
  their number. Machine integers are words.

  Groups of lemmas. Round trips (integer ranges, control packets), functional correctness
  against declarative specifications (wildcards, the trie, range merge, payload brackets, groups), safety of
  matching (no index out of range, no hidden DNS lookup), invariants of accepted configurations,
  termination, and the places where the code does not do what it is meant to.

  Not modelled. The other wire protocols and encryption (adapter/outbound, transport, listener), which are
  network input and output and calls into libraries; the REST controller (hub); data
  files and process lookup, whose answers are arguments; the succinct domain set of component/trie; the Kotlin
  application.
\<close>

end
